(* ===== verification/Foxy_Prelude.thy ===== *)
theory Foxy_Prelude
  imports Main "HOL-Library.Word" "HOL-Library.Sublist" "HOL-Library.Char_ord"
    "HOL-Library.List_Lexorder"
begin

text \<open>
  What the components share: the C++ errors a call can end with, the character constants, and
  the operations of \<open>std::string\<close>, \<open>std::stoi\<close> and \<open>std::to_string\<close> that the server uses.
  A \<open>std::string\<close> is a list of 8-bit characters.  A call that may throw, or whose behaviour
  the C++ standard leaves undefined, returns a value of \<open>'a outcome\<close>.
\<close>

named_theorems char_class \<comment> \<open>which concrete characters are in which character class\<close>

section \<open>Outcomes\<close>

text \<open>
  \<open>InvalidArgument\<close> and \<open>StdOutOfRange\<close> are the exceptions \<open>std::invalid_argument\<close> and
  \<open>std::out_of_range\<close>, \<open>StdLogicError\<close> is their base class, \<open>StdBadCast\<close> is \<open>std::bad_cast\<close>, \<open>StdRuntimeError\<close> is \<open>std::runtime_error\<close>, a
  class derived from it, or another exception of a library; \<open>Undefined\<close> stands for undefined behaviour
  (a read outside an object, a null dereference, an operation on an empty container).
\<close>

datatype cpp_error = InvalidArgument | StdOutOfRange | StdLogicError | StdRuntimeError | StdBadCast | Undefined

type_synonym 'a outcome = "cpp_error + 'a"

definition and_then :: "'a outcome \<Rightarrow> ('a \<Rightarrow> 'b outcome) \<Rightarrow> 'b outcome" where
  "and_then m f = (case m of Inl e \<Rightarrow> Inl e | Inr x \<Rightarrow> f x)"

lemma and_then_simps [simp]:
  "and_then (Inl e) f = Inl e"
  "and_then (Inr x) f = f x"
  by (simp_all add: and_then_def)

lemma and_then_Inr_iff: "and_then m f = Inr y \<longleftrightarrow> (\<exists>x. m = Inr x \<and> f x = Inr y)"
  by (cases m) auto

lemma and_then_Inl_iff: "and_then m f = Inl e \<longleftrightarrow> m = Inl e \<or> (\<exists>x. m = Inr x \<and> f x = Inl e)"
  by (cases m) simp_all

lemma and_then_cong [fundef_cong]:
  "m = m' \<Longrightarrow> (\<And>x. m' = Inr x \<Longrightarrow> f x = g x) \<Longrightarrow> and_then m f = and_then m' g"
  by (cases m') auto

section \<open>Characters\<close>

abbreviation NUL :: char where "NUL \<equiv> CHR 0x00"
abbreviation HT :: char where "HT \<equiv> CHR 0x09"
abbreviation LF :: char where "LF \<equiv> CHR 0x0A"
abbreviation CR :: char where "CR \<equiv> CHR 0x0D"
abbreviation SP :: char where "SP \<equiv> CHR 0x20"
abbreviation DQUOTE :: char where "DQUOTE \<equiv> CHR 0x22"
abbreviation SQUOTE :: char where "SQUOTE \<equiv> CHR 0x27"
abbreviation SLASH :: char where "SLASH \<equiv> CHR 0x2F"

abbreviation crlf :: string where "crlf \<equiv> [CR, LF]"

text \<open>The promotion of a (signed) \<open>char\<close> to \<open>int\<close>.\<close>

definition c_int :: "char \<Rightarrow> int" where
  "c_int c = (if (of_char c :: nat) < 128 then int (of_char c) else int (of_char c) - 256)"

text \<open>\<open>isspace\<close> of the C locale.\<close>

definition c_isspace :: "char \<Rightarrow> bool" where
  "c_isspace c \<longleftrightarrow> c = SP \<or> c \<in> {CHR 0x09, CHR 0x0A, CHR 0x0B, CHR 0x0C, CHR 0x0D}"

definition c_isdigit :: "char \<Rightarrow> bool" where
  "c_isdigit c \<longleftrightarrow> CHR ''0'' \<le> c \<and> c \<le> CHR ''9''"

section \<open>Numbers as text\<close>

definition digit_char :: "nat \<Rightarrow> char" where
  "digit_char d = char_of (48 + d)"

definition digit_val :: "char \<Rightarrow> nat" where
  "digit_val c = of_char c - 48"

text \<open>\<open>std::to_string\<close> of an unsigned value.\<close>

fun to_string :: "nat \<Rightarrow> string" where
  "to_string n = (if n < 10 then [digit_char n]
     else to_string (n div 10) @ [digit_char (n mod 10)])"

declare to_string.simps [simp del]

definition digits_val :: "string \<Rightarrow> nat" where
  "digits_val ds = foldl (\<lambda>v c. 10 * v + digit_val c) 0 ds"

text \<open>
  \<open>std::stoi\<close>: skip white space, take an optional sign and the longest run of digits;
  \<open>std::invalid_argument\<close> when there is no digit, \<open>std::out_of_range\<close> when the value does
  not fit a 32-bit \<open>int\<close>.
\<close>

fun stoi_sign :: "string \<Rightarrow> bool \<times> string" where
  "stoi_sign [] = (False, [])"
| "stoi_sign (c # cs) = (if c = CHR ''-'' then (True, cs)
     else if c = CHR ''+'' then (False, cs) else (False, c # cs))"

definition int_range :: "int \<Rightarrow> bool" where
  "int_range v \<longleftrightarrow> - (2 ^ 31) \<le> v \<and> v < 2 ^ 31"

definition stoi :: "string \<Rightarrow> int outcome" where
  "stoi s = (case stoi_sign (dropWhile c_isspace s) of (neg, s') \<Rightarrow>
     let ds = takeWhile c_isdigit s'; v = int (digits_val ds); w = (if neg then - v else v)
     in if ds = [] then Inl InvalidArgument
        else if int_range w then Inr w else Inl StdOutOfRange)"

lemma of_char_digit_char [simp]: "d < 10 \<Longrightarrow> of_char (digit_char d) = 48 + d"
  by (simp add: digit_char_def)

lemma c_isdigit_iff: "c_isdigit c \<longleftrightarrow> 48 \<le> (of_char c :: nat) \<and> (of_char c :: nat) \<le> 57"
  by (simp add: c_isdigit_def less_eq_char_def)

lemma c_isdigit_digit_char [simp]: "d < 10 \<Longrightarrow> c_isdigit (digit_char d)"
  by (simp add: c_isdigit_iff)

lemma digit_val_digit_char [simp]: "d < 10 \<Longrightarrow> digit_val (digit_char d) = d"
  by (simp add: digit_val_def)

lemma digit_not_space_sign:
  "c_isdigit c \<Longrightarrow> \<not> c_isspace c \<and> c \<noteq> CHR ''-'' \<and> c \<noteq> CHR ''+''"
  by (auto simp: c_isdigit_iff c_isspace_def)

text \<open>\<open>std::to_string\<close> of a signed value.\<close>

definition int_to_string :: "int \<Rightarrow> string" where
  "int_to_string n = (if n < 0 then CHR ''-'' # to_string (nat (- n)) else to_string (nat n))"

lemma int_to_string_nat [simp]: "int_to_string (int n) = to_string n"
  by (simp add: int_to_string_def)

lemma to_string_digits: "list_all c_isdigit (to_string n)"
proof (induction n rule: to_string.induct)
  case (1 n)
  then show ?case by (cases "n < 10") (simp_all add: to_string.simps [of n])
qed

lemma to_string_nonempty [simp]: "to_string n \<noteq> []"
  by (subst to_string.simps) simp

lemma digits_val_snoc [simp]: "digits_val (ds @ [c]) = 10 * digits_val ds + digit_val c"
  by (simp add: digits_val_def)

lemma digits_val_to_string [simp]: "digits_val (to_string n) = n"
proof (induction n rule: to_string.induct)
  case (1 n)
  then show ?case
    by (cases "n < 10") (simp_all add: to_string.simps [of n], simp add: digits_val_def)
qed

lemma stoi_digits:
  assumes "list_all c_isdigit ds" and "ds \<noteq> []"
  shows "stoi ds = (if int (digits_val ds) < 2 ^ 31 then Inr (int (digits_val ds))
                    else Inl StdOutOfRange)"
proof -
  obtain c cs where ds: "ds = c # cs" using assms(2) by (cases ds) auto
  have "c_isdigit c" using assms(1) ds by simp
  then have sign: "stoi_sign (dropWhile c_isspace ds) = (False, ds)"
    using digit_not_space_sign [of c] by (simp add: ds)
  have all: "takeWhile c_isdigit ds = ds"
    using assms(1) by (simp add: list_all_iff)
  show ?thesis
    using assms(2) by (simp add: stoi_def int_range_def Let_def sign all)
qed

lemma stoi_to_string: "n < 2 ^ 31 \<Longrightarrow> stoi (to_string n) = Inr (int n)"
  using stoi_digits [OF to_string_digits to_string_nonempty, of n] by simp

lemma to_string_inj: "to_string m = to_string n \<Longrightarrow> m = n"
  by (metis digits_val_to_string)

lemma stoi_range: "stoi s = Inr v \<Longrightarrow> int_range v"
  by (auto simp: stoi_def Let_def split: prod.splits if_splits)

section \<open>Searching and cutting strings\<close>

text \<open>\<open>s.find(p)\<close>: the first position of \<open>p\<close> in \<open>s\<close>; \<open>None\<close> is \<open>npos\<close>.\<close>

fun str_find :: "string \<Rightarrow> string \<Rightarrow> nat option" where
  "str_find p [] = (if p = [] then Some 0 else None)"
| "str_find p (c # cs) = (if prefix p (c # cs) then Some 0 else map_option Suc (str_find p cs))"

definition contains :: "string \<Rightarrow> string \<Rightarrow> bool" where
  "contains p s \<longleftrightarrow> str_find p s \<noteq> None"

text \<open>\<open>s.find_last_of(c)\<close> for one character.\<close>

fun last_of :: "char \<Rightarrow> string \<Rightarrow> nat option" where
  "last_of c [] = None"
| "last_of c (x # xs) = (case last_of c xs of Some i \<Rightarrow> Some (Suc i)
     | None \<Rightarrow> if x = c then Some 0 else None)"

text \<open>\<open>s.substr(pos)\<close> throws \<open>std::out_of_range\<close> when \<open>pos\<close> is past the end.\<close>

definition substr :: "string \<Rightarrow> nat \<Rightarrow> string outcome" where
  "substr s pos = (if pos \<le> length s then Inr (drop pos s) else Inl StdOutOfRange)"

definition starts_with :: "string \<Rightarrow> string \<Rightarrow> bool" where
  "starts_with s p \<longleftrightarrow> prefix p s"

definition ends_with :: "string \<Rightarrow> string \<Rightarrow> bool" where
  "ends_with s p \<longleftrightarrow> suffix p s"

lemma str_find_Some:
  "str_find p s = Some i \<Longrightarrow> i \<le> length s \<and> prefix p (drop i s)"
proof (induction p s arbitrary: i rule: str_find.induct)
  case (1 p)
  then show ?case by (simp split: if_splits)
next
  case (2 p c cs)
  then show ?case by (cases i) (auto split: if_splits)
qed

lemma str_find_least:
  "str_find p s = Some i \<Longrightarrow> j < i \<Longrightarrow> \<not> prefix p (drop j s)"
proof (induction p s arbitrary: i j rule: str_find.induct)
  case (1 p)
  then show ?case by (simp split: if_splits)
next
  case (2 p c cs)
  then show ?case by (cases j) (auto split: if_splits)
qed

lemma str_find_None: "str_find p s = None \<Longrightarrow> \<not> prefix p (drop j s)"
proof (induction p s arbitrary: j rule: str_find.induct)
  case (1 p)
  then show ?case by (simp split: if_splits)
next
  case (2 p c cs)
  then show ?case by (cases j) (auto split: if_splits)
qed

lemma contains_iff_sublist: "contains p s \<longleftrightarrow> sublist p s"
proof
  assume "contains p s"
  then obtain i where "str_find p s = Some i" by (auto simp: contains_def)
  then have "prefix p (drop i s)" using str_find_Some by blast
  then obtain t where "drop i s = p @ t" by (auto elim: prefixE)
  then have "s = take i s @ p @ t" by (metis append_take_drop_id)
  then show "sublist p s" by (auto simp: sublist_def)
next
  assume "sublist p s"
  then obtain u t where "s = u @ p @ t" by (auto simp: sublist_def)
  then have "prefix p (drop (length u) s)" by simp
  then show "contains p s" using str_find_None by (auto simp: contains_def)
qed

lemma contains_append [simp]:
  "contains p p"
  "contains p a \<Longrightarrow> contains p (a @ b)"
  "contains p b \<Longrightarrow> contains p (a @ b)"
  by (auto simp: contains_iff_sublist sublist_append)

lemma str_find_prefix: "prefix p s \<Longrightarrow> str_find p s = Some 0"
  by (cases s) auto

section \<open>Memory as C strings\<close>

text \<open>
  A \<open>char*\<close> is the list of bytes from the pointer to the end of its object.  \<open>strlen\<close> and
  the constructor \<open>std::string(p)\<close> read up to the first NUL; without a NUL in the object the
  read leaves it, which is undefined.
\<close>

definition c_string :: "char list \<Rightarrow> string outcome" where
  "c_string mem = (if NUL \<in> set mem then Inr (takeWhile (\<lambda>c. c \<noteq> NUL) mem) else Inl Undefined)"

lemma takeWhile_clean: "x \<notin> set s \<Longrightarrow> takeWhile (\<lambda>c. c \<noteq> x) s = s"
  by (subst takeWhile_eq_all_conv) auto

lemma takeWhile_until: "x \<notin> set s \<Longrightarrow> takeWhile (\<lambda>c. c \<noteq> x) (s @ x # rest) = s"
  by (induction s) auto

lemma c_string_terminated:
  "NUL \<notin> set s \<Longrightarrow> c_string (s @ NUL # rest) = Inr s"
  by (simp add: c_string_def takeWhile_until)

end
