(* ===== verification/Cpp_Map.thy ===== *)
theory Cpp_Map
  imports Foxy_Prelude
begin

text \<open>
  \<open>std::map<std::string, V>\<close>.  Headers, the data collector's counters and the handler table are
  maps of this type, and the server iterates over them in key order, so the model keeps the
  entries as an association list sorted by key (\<open>std::string\<close> compares bytes as unsigned
  values, as \<open>Char_ord\<close> does).  The locale \<open>string_map\<close> is the contract the other components
  rely on; it is interpreted on the sorted lists as \<open>smap\<close>.
\<close>

section \<open>The operations\<close>

type_synonym 'v smap = "(string \<times> 'v) list"

text \<open>
  \<open>operator[]\<close> followed by an update of the element: a missing key is inserted with the
  default \<open>d\<close> first.  The other writing operations are instances: \<open>m[k] = v\<close>,
  \<open>m.insert({k, v})\<close>, which keeps an existing entry, and a plain read \<open>m[k]\<close>, which inserts
  the default when the key is missing.
\<close>

fun smap_modify :: "'v \<Rightarrow> ('v \<Rightarrow> 'v) \<Rightarrow> string \<Rightarrow> 'v smap \<Rightarrow> 'v smap" where
  "smap_modify d f k [] = [(k, f d)]"
| "smap_modify d f k ((k', v) # m) =
     (if k = k' then (k, f v) # m
      else if k < k' then (k, f d) # (k', v) # m
      else (k', v) # smap_modify d f k m)"

definition smap_put :: "string \<Rightarrow> 'v \<Rightarrow> 'v smap \<Rightarrow> 'v smap" where
  "smap_put k v m = smap_modify v (\<lambda>_. v) k m"

definition smap_insert :: "string \<Rightarrow> 'v \<Rightarrow> 'v smap \<Rightarrow> 'v smap" where
  "smap_insert k v m = smap_modify v (\<lambda>x. x) k m"

definition smap_touch :: "'v \<Rightarrow> string \<Rightarrow> 'v smap \<Rightarrow> 'v smap" where
  "smap_touch d k m = smap_modify d (\<lambda>x. x) k m"

definition smap_find :: "'v smap \<Rightarrow> string \<Rightarrow> 'v option" where
  "smap_find m k = map_of m k"

definition smap_ok :: "'v smap \<Rightarrow> bool" where
  "smap_ok m \<longleftrightarrow> sorted_wrt (<) (map fst m)"

definition or_default :: "'v \<Rightarrow> 'v option \<Rightarrow> 'v" where
  "or_default d x = (case x of None \<Rightarrow> d | Some v \<Rightarrow> v)"

lemma or_default_simps [simp]: "or_default d None = d" "or_default d (Some v) = v"
  by (simp_all add: or_default_def)

section \<open>The contract\<close>

locale string_map =
  fixes empty :: 'm
    and find :: "'m \<Rightarrow> string \<Rightarrow> 'v option"
    and modify :: "'v \<Rightarrow> ('v \<Rightarrow> 'v) \<Rightarrow> string \<Rightarrow> 'm \<Rightarrow> 'm"
    and entries :: "'m \<Rightarrow> (string \<times> 'v) list"
    and ok :: "'m \<Rightarrow> bool"
  assumes find_empty: "find empty k = None"
    and ok_empty: "ok empty"
    and ok_modify: "ok m \<Longrightarrow> ok (modify d f k m)"
    and find_modify: "ok m \<Longrightarrow>
          find (modify d f k m) k' = (if k' = k then Some (f (or_default d (find m k))) else find m k')"
    and entries_find: "ok m \<Longrightarrow> map_of (entries m) = find m"
    and entries_sorted: "ok m \<Longrightarrow> sorted_wrt (<) (map fst (entries m))"
begin

lemma entries_distinct: "ok m \<Longrightarrow> distinct (map fst (entries m))"
  using entries_sorted strict_sorted_iff by blast

lemma entries_mem: "ok m \<Longrightarrow> (k, v) \<in> set (entries m) \<longleftrightarrow> find m k = Some v"
  using entries_distinct [of m] entries_find [of m] by (metis map_of_eq_Some_iff)

lemma entries_unique:
  assumes "ok m" and "ok m'" and "find m = find m'"
  shows "entries m = entries m'"
proof (rule map_sorted_distinct_set_unique)
  show same: "set (entries m) = set (entries m')"
    using assms entries_mem by auto
  show "inj_on fst (set (entries m) \<union> set (entries m'))"
    using entries_distinct [OF assms(1)] same [symmetric] by (simp add: distinct_map)
  show "sorted (map fst (entries m))" "sorted (map fst (entries m'))"
    "distinct (map fst (entries m))" "distinct (map fst (entries m'))"
    using assms entries_sorted entries_distinct by (simp_all add: strict_sorted_iff)
qed

text \<open>Updates of different keys commute, as far as the entries show.\<close>

lemma modify_commute:
  assumes "ok m" and "k \<noteq> k'"
  shows "entries (modify d f k (modify d' f' k' m)) = entries (modify d' f' k' (modify d f k m))"
  by (rule entries_unique) (use assms in \<open>auto simp: ok_modify find_modify fun_eq_iff\<close>)

text \<open>
  Grouping: a run of updates, each applying \<open>ins x\<close> to the element of its key, leaves at a key
  the run of its own updates.
\<close>

lemma ok_group:
  "ok m \<Longrightarrow> ok (foldl (\<lambda>m e. modify d (ins (snd e)) (fst e) m) m es)"
  by (induction es arbitrary: m) (simp_all add: ok_modify)

lemma find_group:
  assumes "ok m"
  shows "find (foldl (\<lambda>m e. modify d (ins (snd e)) (fst e) m) m es) k =
    (let xs = map snd (filter (\<lambda>e. fst e = k) es)
     in if xs = [] then find m k
        else Some (foldl (\<lambda>v x. ins x v) (or_default d (find m k)) xs))"
  using assms
proof (induction es arbitrary: m)
  case Nil
  then show ?case by simp
next
  case (Cons e es)
  then show ?case
    by (cases "fst e = k") (simp_all add: ok_modify find_modify Let_def)
qed

end

section \<open>The contract holds\<close>

lemma keys_smap_modify: "set (map fst (smap_modify d f k m)) = insert k (set (map fst m))"
  by (induction d f k m rule: smap_modify.induct) auto

lemma smap_ok_modify: "smap_ok m \<Longrightarrow> smap_ok (smap_modify d f k m)"
proof (induction d f k m rule: smap_modify.induct)
  case (1 d f k)
  then show ?case by (simp add: smap_ok_def)
next
  case (2 d f k k' v m)
  then show ?case
    using keys_smap_modify [of d f k m] by (auto simp: smap_ok_def)
qed

lemma smap_find_notin: "\<forall>x \<in> set (map fst m). k < x \<Longrightarrow> smap_find m k = None"
  by (induction m) (auto simp: smap_find_def)

lemma smap_find_modify:
  assumes "smap_ok m"
  shows "smap_find (smap_modify d f k m) k' =
    (if k' = k then Some (f (or_default d (smap_find m k))) else smap_find m k')"
  using assms
proof (induction d f k m rule: smap_modify.induct)
  case (1 d f k)
  then show ?case by (simp add: smap_find_def)
next
  case (2 d f k a v m)
  have ok: "smap_ok m" and lt: "\<forall>x \<in> set (map fst m). a < x"
    using "2.prems" by (auto simp: smap_ok_def)
  show ?case
  proof (cases "k < a")
    case True
    then have "smap_find ((a, v) # m) k = None"
      using lt by (intro smap_find_notin) auto
    with True show ?thesis by (auto simp: smap_find_def)
  next
    case False
    with "2.IH" ok show ?thesis by (auto simp: smap_find_def)
  qed
qed

interpretation smap: string_map "[]" smap_find smap_modify "\<lambda>m. m" smap_ok
proof
  show "map_of m = smap_find m" for m :: "'a smap"
    by (simp add: smap_find_def fun_eq_iff)
qed (simp_all add: smap_ok_modify smap_find_modify, simp_all add: smap_find_def smap_ok_def)

lemmas smap_ok_ops [simp] = smap.ok_empty smap.ok_modify

lemma smap_ok_single [simp]: "smap_ok [e]"
  by (simp add: smap_ok_def)

lemma smap_ok_derived [simp]:
  "smap_ok m \<Longrightarrow> smap_ok (smap_put k v m)"
  "smap_ok m \<Longrightarrow> smap_ok (smap_insert k v m)"
  "smap_ok m \<Longrightarrow> smap_ok (smap_touch d k m)"
  by (simp_all add: smap_put_def smap_insert_def smap_touch_def)

lemma smap_find_empty [simp]: "smap_find [] k = None"
  by (rule smap.find_empty)

lemma smap_find_derived [simp]:
  "smap_ok m \<Longrightarrow> smap_find (smap_put k v m) k' = (if k' = k then Some v else smap_find m k')"
  "smap_ok m \<Longrightarrow> smap_find (smap_insert k v m) k' =
     (if k' = k then Some (or_default v (smap_find m k)) else smap_find m k')"
  "smap_ok m \<Longrightarrow> smap_find (smap_touch d k m) k' =
     (if k' = k then Some (or_default d (smap_find m k)) else smap_find m k')"
  by (simp_all add: smap_put_def smap_insert_def smap_touch_def smap.find_modify)

lemma smap_find_Cons: "smap_find ((k, v) # m) k' = (if k' = k then Some v else smap_find m k')"
  by (simp add: smap_find_def)

lemma smap_eqI: "smap_ok m \<Longrightarrow> smap_ok m' \<Longrightarrow> smap_find m = smap_find m' \<Longrightarrow> m = m'"
  by (rule smap.entries_unique)

lemma list_all_smap_modify:
  "list_all P m \<Longrightarrow> P (k, f d) \<Longrightarrow> (\<And>v. P (k, v) \<Longrightarrow> P (k, f v)) \<Longrightarrow>
     list_all P (smap_modify d f k m)"
  by (induction d f k m rule: smap_modify.induct) auto

lemma smap_modify_nonempty [simp]: "smap_modify d f k m \<noteq> []"
  by (induction d f k m rule: smap_modify.induct) auto

lemma smap_nonempty [simp]:
  "smap_put k v m \<noteq> []" "smap_insert k v m \<noteq> []" "smap_touch d k m \<noteq> []"
  by (simp_all add: smap_put_def smap_insert_def smap_touch_def)

end
