(* ===== verification/Http_Request.thy ===== *)
theory Http_Request
  imports Cpp_Map
begin

text \<open>
  The request a client sends (\<open>include/request.h\<close>) and the helpers of \<open>src/utility.cc\<close>:
  \<open>get_content_length\<close> reads a request, \<open>is_quoted\<close> strips the quotes of a configuration
  argument and turns it into a directory path.
\<close>

section \<open>The request\<close>

datatype http_method = GET | PUT | POST | UNKNOWN

record request =
  req_method :: http_method
  req_uri :: string
  req_version :: string
  req_headers :: "string smap"
  req_body :: string

text \<open>\<open>Request()\<close>: value initialisation, so the method is the first enumerator.\<close>

definition empty_request :: request where
  "empty_request = \<lparr>req_method = GET, req_uri = [], req_version = [], req_headers = [],
     req_body = []\<rparr>"

lemma empty_request_simps [simp]:
  "req_method empty_request = GET" "req_uri empty_request = []" "req_version empty_request = []"
  "req_headers empty_request = []" "req_body empty_request = []"
  by (simp_all add: empty_request_def)

section \<open>Reading the content length\<close>

abbreviation content_length_key :: string where
  "content_length_key \<equiv> ''Content-Length''"

text \<open>
  \<open>request.headers_["Content-Length"]\<close> is \<open>operator[]\<close>: it leaves an empty entry behind when
  the header is missing.  \<open>std::stoi\<close> may throw.
\<close>

definition get_content_length :: "request \<Rightarrow> (int \<times> request) outcome" where
  "get_content_length r =
     (let hs = smap_touch [] content_length_key (req_headers r);
          s = or_default [] (smap_find hs content_length_key)
      in and_then (if s \<noteq> [] then stoi s else Inr 0)
           (\<lambda>n. Inr (n, r\<lparr>req_headers := hs\<rparr>)))"

lemma get_content_length_missing:
  assumes "smap_ok (req_headers r)" and "smap_find (req_headers r) content_length_key \<in> {None, Some []}"
  shows "get_content_length r = Inr (0, r\<lparr>req_headers := smap_touch [] content_length_key (req_headers r)\<rparr>)"
  using assms by (auto simp: get_content_length_def)

lemma get_content_length_number:
  assumes "smap_ok (req_headers r)"
    and "smap_find (req_headers r) content_length_key = Some (to_string n)" and "n < 2 ^ 31"
  shows "get_content_length r = Inr (int n, r\<lparr>req_headers := smap_touch [] content_length_key (req_headers r)\<rparr>)"
  using assms stoi_to_string [of n] by (simp add: get_content_length_def)

lemma get_content_length_frame:
  "get_content_length r = Inr (n, r') \<Longrightarrow>
     r' = r\<lparr>req_headers := smap_touch [] content_length_key (req_headers r)\<rparr>"
  by (auto simp: get_content_length_def Let_def and_then_Inr_iff split: if_splits)

lemma get_content_length_range: "get_content_length r = Inr (n, r') \<Longrightarrow> int_range n"
  by (auto simp: get_content_length_def Let_def and_then_Inr_iff int_range_def
      dest: stoi_range split: if_splits)

section \<open>Quoted arguments\<close>

text \<open>
  \<open>is_quoted\<close> erases the first and the last character of a string that starts and ends with a
  quote.  A string that is one single quote passes the test; then nothing is left to erase and
  \<open>erase(npos)\<close> throws \<open>std::out_of_range\<close>.
\<close>

definition is_quoted :: "string \<Rightarrow> (bool \<times> string) outcome" where
  "is_quoted s =
     (if \<not> starts_with s [DQUOTE] \<or> \<not> ends_with s [DQUOTE] then Inr (False, s)
      else let s1 = drop 1 s in
        if s1 = [] then Inl StdOutOfRange
        else let s2 = butlast s1 in
          Inr (True, if ends_with s2 [SLASH] then s2 else s2 @ [SLASH]))"

lemma ends_with_char: "ends_with s [c] \<longleftrightarrow> s \<noteq> [] \<and> last s = c"
  by (cases s rule: rev_cases) (auto simp: ends_with_def)

lemma starts_with_char: "starts_with s [c] \<longleftrightarrow> (\<exists>t. s = c # t)"
  by (cases s) (auto simp: starts_with_def)

lemma is_quoted_quoted:
  "is_quoted (DQUOTE # t @ [DQUOTE]) = Inr (True, if ends_with t [SLASH] then t else t @ [SLASH])"
  by (simp add: is_quoted_def ends_with_char starts_with_char butlast_append)

lemma is_quoted_cases:
  obtains (unquoted) "is_quoted s = Inr (False, s)"
    | (lone) "s = [DQUOTE]" "is_quoted s = Inl StdOutOfRange"
    | (quoted) t where "s = DQUOTE # t @ [DQUOTE]"
        "is_quoted s = Inr (True, if ends_with t [SLASH] then t else t @ [SLASH])"
proof (cases "starts_with s [DQUOTE] \<and> ends_with s [DQUOTE]")
  case False
  then show ?thesis by (intro unquoted) (auto simp: is_quoted_def)
next
  case True
  then obtain u where s: "s = DQUOTE # u" by (auto simp: starts_with_char)
  show ?thesis
  proof (cases u rule: rev_cases)
    case Nil
    with s True show ?thesis by (intro lone) (auto simp: is_quoted_def)
  next
    case (snoc t c)
    with s True have "s = DQUOTE # t @ [DQUOTE]" by (auto simp: ends_with_char)
    then show ?thesis using quoted is_quoted_quoted by blast
  qed
qed

lemma is_quoted_directory: "is_quoted s = Inr (True, d) \<Longrightarrow> ends_with d [SLASH]"
  by (cases s rule: is_quoted_cases) (auto simp: ends_with_char split: if_splits)

end
