(* ===== verification/Config.thy ===== *)
theory Config
  imports Http_Request
begin

text \<open>
  The parsed configuration (\<open>include/config.h\<close>): statements with optional child blocks,
  their printer (\<open>src/config_statement.cc\<close>, \<open>NginxConfig::ToString\<close>) and the settings the server
  reads from them (\<open>src/config.cc\<close>).
\<close>

section \<open>The data and the printer\<close>

datatype statement = Statement (tokens: "string list") (child_block: "statement list option")

type_synonym config = "statement list"

fun join_tokens :: "string list \<Rightarrow> string" where
  "join_tokens [] = []"
| "join_tokens [t] = t"
| "join_tokens (t # ts) = t @ SP # join_tokens ts"

fun statement_to_string :: "nat \<Rightarrow> statement \<Rightarrow> string"
  and config_to_string :: "nat \<Rightarrow> config \<Rightarrow> string" where
  "statement_to_string depth (Statement ts (Some block)) =
     replicate depth HT @ join_tokens ts @ '' {'' @ [LF] @ config_to_string (depth + 1) block @
     replicate depth HT @ ''}'' @ [LF]"
| "statement_to_string depth (Statement ts None) =
     replicate depth HT @ join_tokens ts @ (if 0 < length ts then '';'' else []) @ [LF]"
| "config_to_string depth [] = []"
| "config_to_string depth (s # ss) = statement_to_string depth s @ config_to_string depth ss"

section \<open>The settings\<close>

text \<open>\<open>std::find\<close> over the tokens: the position of the keyword, or the length.\<close>

fun token_index :: "string \<Rightarrow> string list \<Rightarrow> nat" where
  "token_index k [] = 0"
| "token_index k (t # ts) = (if t = k then 0 else Suc (token_index k ts))"

definition valid_keyword_listen :: "nat \<Rightarrow> string list \<Rightarrow> bool" where
  "valid_keyword_listen i ts \<longleftrightarrow> i \<noteq> length ts \<and> i \<noteq> length ts - 1"

text \<open>Reading through an iterator: at the end or past it the read is undefined.\<close>

definition token_at :: "string list \<Rightarrow> nat \<Rightarrow> string outcome" where
  "token_at ts i = (if i < length ts then Inr (ts ! i) else Inl Undefined)"

text \<open>
  A listen statement: \<open>None\<close> where \<open>get_port\<close> gives up (a port that is not a number, a type that
  is neither http nor https).
\<close>

definition read_listen :: "string list \<Rightarrow> nat \<Rightarrow> (int \<times> string) option outcome" where
  "read_listen ts pos =
     and_then (token_at ts (pos + 2)) (\<lambda>portstring.
       if list_all c_isdigit portstring then
         and_then (stoi portstring) (\<lambda>port.
         and_then (token_at ts (pos + 1)) (\<lambda>type.
           if type \<noteq> ''https'' \<and> type \<noteq> ''http'' then Inr None
           else Inr (Some (port, type))))
       else Inr None)"

text \<open>
  \<open>get_port\<close> collects the ports of a configuration and, through the recursion, of its blocks;
  the verdict of a block is ignored.
\<close>

fun get_port :: "config \<Rightarrow> (int \<times> string) list \<Rightarrow> (bool \<times> (int \<times> string) list) outcome" where
  "get_port [] vec = Inr (vec \<noteq> [], vec)"
| "get_port (Statement ts block # ss) vec =
     (let pos = token_index ''listen'' ts in
      if valid_keyword_listen pos ts \<and> length ts = 3 then
        (case read_listen ts pos of
           Inl e \<Rightarrow> Inl e
         | Inr None \<Rightarrow> Inr (False, vec)
         | Inr (Some entry) \<Rightarrow> get_port ss (vec @ [entry]))
      else (case block of
          None \<Rightarrow> get_port ss vec
        | Some b \<Rightarrow> and_then (get_port b vec) (\<lambda>(_, vec'). get_port ss vec')))"

fun get_threads :: "config \<Rightarrow> int \<Rightarrow> (bool \<times> int) outcome" where
  "get_threads [] threads = Inr (False, threads)"
| "get_threads (Statement ts block # ss) threads =
     (let pos = token_index ''threads'' ts in
      if valid_keyword_listen pos ts then
        and_then (token_at ts (pos + 1)) (\<lambda>threadstring.
          if list_all c_isdigit threadstring
          then and_then (stoi threadstring) (\<lambda>n. Inr (True, n))
          else Inr (False, threads))
      else (case block of
          None \<Rightarrow> get_threads ss threads
        | Some b \<Rightarrow> get_threads b threads))"

text \<open>
  \<open>get_dir\<close> and \<open>get_hostname\<close> share their body up to the keyword; a configuration without
  the keyword leaves the out-parameter as it was.
\<close>

fun get_quoted_setting :: "string \<Rightarrow> config \<Rightarrow> string \<Rightarrow> (bool \<times> string) outcome" where
  "get_quoted_setting k [] out = Inr (True, out)"
| "get_quoted_setting k (Statement ts block # ss) out =
     (let pos = token_index k ts in
      if valid_keyword_listen pos ts then and_then (token_at ts (pos + 1)) is_quoted
      else get_quoted_setting k ss out)"

definition get_dir :: "config \<Rightarrow> string \<Rightarrow> (bool \<times> string) outcome" where
  "get_dir cfg dir = get_quoted_setting ''dir'' cfg dir"

definition get_hostname :: "config \<Rightarrow> string \<Rightarrow> (bool \<times> string) outcome" where
  "get_hostname cfg hostname = get_quoted_setting ''hostname'' cfg hostname"

section \<open>What the settings can be\<close>

definition port_entry :: "int \<times> string \<Rightarrow> bool" where
  "port_entry e \<longleftrightarrow> 0 \<le> fst e \<and> fst e < 2 ^ 31 \<and> (snd e = ''http'' \<or> snd e = ''https'')"

lemma stoi_nonneg:
  assumes "list_all c_isdigit s" and "stoi s = Inr n"
  shows "0 \<le> n \<and> n < 2 ^ 31"
proof (cases "s = []")
  case True
  with assms(2) show ?thesis by (simp add: stoi_def)
next
  case False
  with assms stoi_digits [OF assms(1) False] show ?thesis by (simp split: if_splits)
qed

lemma read_listen_entry: "read_listen ts i = Inr (Some e) \<Longrightarrow> port_entry e"
  using stoi_nonneg by (auto simp: read_listen_def and_then_Inr_iff port_entry_def split: if_splits)

lemma get_port_Cons_cases:
  assumes "get_port (Statement ts block # ss) vec = Inr (ok, vec')"
  obtains (stop) "vec' = vec" "\<not> ok"
    | (entry) e where "valid_keyword_listen (token_index ''listen'' ts) ts \<and> length ts = 3"
        "read_listen ts (token_index ''listen'' ts) = Inr (Some e)"
        "get_port ss (vec @ [e]) = Inr (ok, vec')"
    | (skip) "\<not> (valid_keyword_listen (token_index ''listen'' ts) ts \<and> length ts = 3)"
        "block = None" "get_port ss vec = Inr (ok, vec')"
    | (child) b ok1 vec1 where
        "\<not> (valid_keyword_listen (token_index ''listen'' ts) ts \<and> length ts = 3)" "block = Some b"
        "get_port b vec = Inr (ok1, vec1)" "get_port ss vec1 = Inr (ok, vec')"
  using assms
  by (auto simp: and_then_Inr_iff Let_def split: if_splits sum.splits option.splits)

lemma get_port_extends:
  "get_port cfg vec = Inr (ok, vec') \<Longrightarrow> \<exists>ps. vec' = vec @ ps \<and> list_all port_entry ps"
proof (induction cfg vec arbitrary: ok vec' rule: get_port.induct)
  case (1 vec)
  then show ?case by simp
next
  case (2 ts block ss vec)
  from "2.prems" show ?case
  proof (cases rule: get_port_Cons_cases)
    case (entry e)
    then obtain ps where "vec' = (vec @ [e]) @ ps" "list_all port_entry ps"
      using "2.IH"(1) [OF refl] by blast
    with read_listen_entry [OF entry(2)] show ?thesis by (intro exI [of _ "e # ps"]) simp
  next
    case skip
    then show ?thesis using "2.IH"(2) [OF refl] by blast
  next
    case (child b ok1 vec1)
    then obtain ps1 where "vec1 = vec @ ps1" "list_all port_entry ps1"
      using "2.IH"(3) [OF refl] by blast
    moreover obtain ps2 where "vec' = vec1 @ ps2" "list_all port_entry ps2"
      using "2.IH"(4) [OF refl] child by blast
    ultimately show ?thesis by simp
  qed simp
qed

lemma get_port_ok: "get_port cfg vec = Inr (True, vec') \<Longrightarrow> vec' \<noteq> []"
proof (induction cfg vec arbitrary: vec' rule: get_port.induct)
  case (2 ts block ss vec)
  from "2.prems" show ?case
  proof (cases rule: get_port_Cons_cases)
    case (entry e)
    then show ?thesis using "2.IH"(1) [OF refl] by blast
  next
    case skip
    then show ?thesis using "2.IH"(2) [OF refl] by blast
  next
    case (child b ok1 vec1)
    then show ?thesis using "2.IH"(4) [OF refl] by blast
  qed simp
qed auto

lemma get_quoted_setting_directory:
  "get_quoted_setting k cfg out = Inr (True, s) \<Longrightarrow> s = out \<or> ends_with s [SLASH]"
  by (induction k cfg out rule: get_quoted_setting.induct)
    (auto simp: and_then_Inr_iff Let_def dest: is_quoted_directory split: if_splits)

section \<open>Properties\<close>

text \<open>
  C36: The ports \<open>get_port\<close> collects are non-negative 31-bit numbers, each with the type http or
  https, and when it reports success there is at least one.
\<close>

theorem get_port_entries:
  assumes "get_port cfg [] = Inr (ok, ports)"
  shows "list_all port_entry ports \<and> (ok \<longrightarrow> ports \<noteq> [])"
  using get_port_extends [OF assms] get_port_ok [of cfg "[]" ports] assms by auto

theorem get_port_entries_witness:
  "get_port [Statement [''listen'', ''http'', ''8008''] None] [] = Inr (True, [(8008, ''http'')]) \<and>
   list_all port_entry [(8008, ''http'')]"
proof -
  have "get_port [Statement [''listen'', ''http'', ''8008''] None] [] = Inr (True, [(8008, ''http'')])"
    by code_simp
  with get_port_entries show ?thesis by blast
qed

text \<open>
  A three-token statement with the keyword \<open>listen\<close> in the middle makes \<open>get_port\<close> read past
  the end of the tokens.
\<close>

theorem get_port_misplaced_listen:
  assumes "t \<noteq> ''listen''"
  shows "get_port (Statement [t, ''listen'', u] block # ss) vec = Inl Undefined"
  using assms by (simp add: valid_keyword_listen_def read_listen_def token_at_def)

theorem get_port_misplaced_listen_witness:
  "get_port [Statement [''x'', ''listen'', ''80''] None] [] = Inl Undefined"
  by (rule get_port_misplaced_listen) simp

end
