(* ===== verification/Codec.thy ===== *)
theory Codec
  imports Main
begin

text \<open>
  The contract of a printer and a parser that belong together: the parser reads back every valid
  value, and it only builds valid values.
\<close>

locale codec =
  fixes encode :: "'a \<Rightarrow> 't"
    and decode :: "'t \<Rightarrow> 'a option"
    and valid :: "'a \<Rightarrow> bool"
  assumes decode_encode: "valid x \<Longrightarrow> decode (encode x) = Some x"
    and decode_valid: "decode t = Some x \<Longrightarrow> valid x"
begin

lemma encode_inj: "valid x \<Longrightarrow> valid y \<Longrightarrow> encode x = encode y \<Longrightarrow> x = y"
  using decode_encode by (metis option.inject)

lemma decode_range: "decode t = Some x \<Longrightarrow> \<exists>t'. t' = encode x \<and> decode t' = Some x"
  using decode_encode decode_valid by blast

lemma valid_iff_decodable: "valid x \<longleftrightarrow> (\<exists>t. decode t = Some x)"
  using decode_encode decode_valid by blast

end

end
