(* ===== verification/Config_Parser.thy ===== *)
theory Config_Parser
  imports Config Codec
begin

text \<open>
  The configuration parser (\<open>src/config_parser.cc\<close>): the tokenizer \<open>ParseToken\<close> and the block
  parser \<open>Parse\<close> with its stack of open configurations.
\<close>

section \<open>Tokens\<close>

datatype token_type =
    TOKEN_TYPE_START | TOKEN_TYPE_NORMAL | TOKEN_TYPE_START_BLOCK | TOKEN_TYPE_END_BLOCK
  | TOKEN_TYPE_COMMENT | TOKEN_TYPE_STATEMENT_END | TOKEN_TYPE_EOF | TOKEN_TYPE_ERROR

fun token_type_as_string :: "token_type \<Rightarrow> string" where
  "token_type_as_string TOKEN_TYPE_START = ''TOKEN_TYPE_START''"
| "token_type_as_string TOKEN_TYPE_NORMAL = ''TOKEN_TYPE_NORMAL''"
| "token_type_as_string TOKEN_TYPE_START_BLOCK = ''TOKEN_TYPE_START_BLOCK''"
| "token_type_as_string TOKEN_TYPE_END_BLOCK = ''TOKEN_TYPE_END_BLOCK''"
| "token_type_as_string TOKEN_TYPE_COMMENT = ''TOKEN_TYPE_COMMENT''"
| "token_type_as_string TOKEN_TYPE_STATEMENT_END = ''TOKEN_TYPE_STATEMENT_END''"
| "token_type_as_string TOKEN_TYPE_EOF = ''TOKEN_TYPE_EOF''"
| "token_type_as_string TOKEN_TYPE_ERROR = ''TOKEN_TYPE_ERROR''"

datatype token_parser_state =
    TOKEN_STATE_INITIAL_WHITESPACE | TOKEN_STATE_SINGLE_QUOTE | TOKEN_STATE_DOUBLE_QUOTE
  | TOKEN_STATE_TOKEN_TYPE_COMMENT | TOKEN_STATE_TOKEN_TYPE_NORMAL

text \<open>
  The stream is the list of characters still to be read; at its end \<open>get\<close> fails and the loop
  leaves.  \<open>unget\<close> gives the last character back.
\<close>

fun token_loop :: "token_parser_state \<Rightarrow> string \<Rightarrow> string \<Rightarrow> token_type \<times> string \<times> string" where
  "token_loop state value [] =
     (if state = TOKEN_STATE_SINGLE_QUOTE \<or> state = TOKEN_STATE_DOUBLE_QUOTE
      then (TOKEN_TYPE_ERROR, value, []) else (TOKEN_TYPE_EOF, value, []))"
| "token_loop state value (c # input) = (case state of
     TOKEN_STATE_INITIAL_WHITESPACE \<Rightarrow>
       if c = CHR ''{'' then (TOKEN_TYPE_START_BLOCK, [c], input)
       else if c = CHR ''}'' then (TOKEN_TYPE_END_BLOCK, [c], input)
       else if c = CHR ''#'' then token_loop TOKEN_STATE_TOKEN_TYPE_COMMENT [c] input
       else if c = DQUOTE then token_loop TOKEN_STATE_DOUBLE_QUOTE [c] input
       else if c = SQUOTE then token_loop TOKEN_STATE_SINGLE_QUOTE [c] input
       else if c = CHR '';'' then (TOKEN_TYPE_STATEMENT_END, [c], input)
       else if c = SP \<or> c = HT \<or> c = LF \<or> c = CR then token_loop state value input
       else token_loop TOKEN_STATE_TOKEN_TYPE_NORMAL (value @ [c]) input
   | TOKEN_STATE_SINGLE_QUOTE \<Rightarrow>
       if c = SQUOTE then (TOKEN_TYPE_NORMAL, value @ [c], input)
       else token_loop state (value @ [c]) input
   | TOKEN_STATE_DOUBLE_QUOTE \<Rightarrow>
       if c = DQUOTE then (TOKEN_TYPE_NORMAL, value @ [c], input)
       else token_loop state (value @ [c]) input
   | TOKEN_STATE_TOKEN_TYPE_COMMENT \<Rightarrow>
       if c = LF \<or> c = CR then (TOKEN_TYPE_COMMENT, value, input)
       else token_loop state (value @ [c]) input
   | TOKEN_STATE_TOKEN_TYPE_NORMAL \<Rightarrow>
       if c = SP \<or> c = HT \<or> c = LF \<or> c = CHR '';'' \<or> c = CHR ''{'' \<or> c = CHR ''}''
       then (TOKEN_TYPE_NORMAL, value, c # input)
       else token_loop state (value @ [c]) input)"

definition parse_token :: "string \<Rightarrow> token_type \<times> string \<times> string" where
  "parse_token input = token_loop TOKEN_STATE_INITIAL_WHITESPACE [] input"

lemma token_loop_rest:
  "token_loop state acc input = (t, v, rest) \<Longrightarrow>
     length rest \<le> length input \<and> (t = TOKEN_TYPE_EOF \<longrightarrow> rest = [])"
proof (induction input arbitrary: state acc)
  case Nil
  then show ?case by (auto split: if_splits)
next
  case (Cons c input)
  from Cons.prems
  have "(\<exists>state acc. token_loop state acc input = (t, v, rest)) \<or>
      t \<noteq> TOKEN_TYPE_EOF \<and> (rest = input \<or> rest = c # input)"
    by (cases state; simp split: if_splits; blast)
  then show ?case
  proof
    assume "\<exists>state acc. token_loop state acc input = (t, v, rest)"
    then show ?thesis using Cons.IH by fastforce
  qed auto
qed

lemma token_loop_shorter:
  "token_loop TOKEN_STATE_INITIAL_WHITESPACE acc input = (t, v, rest) \<Longrightarrow> t \<noteq> TOKEN_TYPE_EOF \<Longrightarrow>
     length rest < length input"
proof (induction input)
  case Nil
  then show ?case by simp
next
  case (Cons c input)
  then show ?case
    by (auto split: if_splits dest!: token_loop_rest)
qed

lemma parse_token_shorter:
  "(t, v, rest) = parse_token input \<Longrightarrow> t \<noteq> TOKEN_TYPE_EOF \<Longrightarrow> length rest < length input"
  using token_loop_shorter [of "[]" input t v rest] by (simp add: parse_token_def)

lemma parse_token_eof: "(TOKEN_TYPE_EOF, v, rest) = parse_token input \<Longrightarrow> rest = []"
  using token_loop_rest [of TOKEN_STATE_INITIAL_WHITESPACE "[]" input TOKEN_TYPE_EOF v rest]
  by (simp add: parse_token_def)

section \<open>Blocks\<close>

text \<open>
  The stack of pointers into the configuration under construction.  \<open>Open cur outer\<close> has the
  statements of the innermost open block in \<open>cur\<close> and those of the enclosing blocks in
  \<open>outer\<close>; the block of each level is the child of the last statement of the next one.  When the
  outermost configuration has been popped, the stack is \<open>Emptied\<close> and only the configuration is
  left.
\<close>

datatype config_stack = Open config "config list" | Emptied config

text \<open>\<open>statements_.back()\<close> of an empty vector is undefined.\<close>

fun push_token :: "string \<Rightarrow> config \<Rightarrow> config outcome" where
  "push_token tok [] = Inl Undefined"
| "push_token tok [Statement ts b] = Inr [Statement (ts @ [tok]) b]"
| "push_token tok (s # ss) = and_then (push_token tok ss) (\<lambda>ss'. Inr (s # ss'))"

fun set_child :: "config \<Rightarrow> config \<Rightarrow> config" where
  "set_child block [] = []"
| "set_child block [Statement ts b] = [Statement ts (Some block)]"
| "set_child block (s # ss) = s # set_child block ss"

fun pop_stack :: "config_stack \<Rightarrow> config_stack outcome" where
  "pop_stack (Emptied cfg) = Inl Undefined"
| "pop_stack (Open cur []) = Inr (Emptied cur)"
| "pop_stack (Open cur (outer # stack)) = Inr (Open (set_child cur outer) stack)"

text \<open>The whole configuration, as the out-parameter shows it at any moment.\<close>

fun close_blocks :: "config \<Rightarrow> config list \<Rightarrow> config" where
  "close_blocks cur [] = cur"
| "close_blocks cur (outer # stack) = close_blocks (set_child cur outer) stack"

fun whole_config :: "config_stack \<Rightarrow> config" where
  "whole_config (Emptied cfg) = cfg"
| "whole_config (Open cur outer) = close_blocks cur outer"

definition starts_statement :: "token_type \<Rightarrow> bool" where
  "starts_statement last_type \<longleftrightarrow> last_type \<in> {TOKEN_TYPE_START, TOKEN_TYPE_STATEMENT_END,
     TOKEN_TYPE_START_BLOCK, TOKEN_TYPE_END_BLOCK}"

text \<open>The loop of \<open>Parse\<close>: the verdict and the configuration built so far.\<close>

function parse_loop :: "config_stack \<Rightarrow> token_type \<Rightarrow> string \<Rightarrow> (bool \<times> config) outcome" where
  "parse_loop stack last_type input = (case parse_token input of (type, token, rest) \<Rightarrow>
     case type of
       TOKEN_TYPE_ERROR \<Rightarrow> Inr (False, whole_config stack)
     | TOKEN_TYPE_COMMENT \<Rightarrow> parse_loop stack last_type rest
     | TOKEN_TYPE_START \<Rightarrow> Inr (False, whole_config stack)
     | TOKEN_TYPE_NORMAL \<Rightarrow>
         if starts_statement last_type \<or> last_type = TOKEN_TYPE_NORMAL then
           (case stack of
              Emptied cfg \<Rightarrow> Inl Undefined
            | Open cur outer \<Rightarrow>
                and_then (push_token token
                    (if last_type \<noteq> TOKEN_TYPE_NORMAL then cur @ [Statement [] None] else cur))
                  (\<lambda>cur'. parse_loop (Open cur' outer) TOKEN_TYPE_NORMAL rest))
         else Inr (False, whole_config stack)
     | TOKEN_TYPE_STATEMENT_END \<Rightarrow>
         if last_type \<noteq> TOKEN_TYPE_NORMAL then Inr (False, whole_config stack)
         else parse_loop stack TOKEN_TYPE_STATEMENT_END rest
     | TOKEN_TYPE_START_BLOCK \<Rightarrow>
         if last_type \<noteq> TOKEN_TYPE_NORMAL then Inr (False, whole_config stack)
         else (case stack of
              Emptied cfg \<Rightarrow> Inl Undefined
            | Open cur outer \<Rightarrow>
                if cur = [] then Inl Undefined
                else parse_loop (Open [] (cur # outer)) TOKEN_TYPE_START_BLOCK rest)
     | TOKEN_TYPE_END_BLOCK \<Rightarrow>
         if last_type \<noteq> TOKEN_TYPE_STATEMENT_END \<and> last_type \<noteq> TOKEN_TYPE_START_BLOCK \<and>
            last_type \<noteq> TOKEN_TYPE_END_BLOCK then Inr (False, whole_config stack)
         else and_then (pop_stack stack) (\<lambda>stack'. parse_loop stack' TOKEN_TYPE_END_BLOCK rest)
     | TOKEN_TYPE_EOF \<Rightarrow>
         if last_type \<noteq> TOKEN_TYPE_STATEMENT_END \<and> last_type \<noteq> TOKEN_TYPE_END_BLOCK \<and>
            last_type \<noteq> TOKEN_TYPE_START \<and> last_type \<noteq> TOKEN_TYPE_COMMENT
         then Inr (False, whole_config stack)
         else and_then (pop_stack stack) (\<lambda>stack'. case stack' of
              Emptied cfg \<Rightarrow> Inr (True, cfg)
            | Open cur outer \<Rightarrow> parse_loop stack' TOKEN_TYPE_EOF rest))"
  by pat_completeness auto
termination
  by (relation "measure (\<lambda>(stack, last_type, input).
        2 * length input + (if last_type = TOKEN_TYPE_EOF then 0 else 1))")
    (auto dest!: parse_token_eof, (fastforce dest: parse_token_shorter)+)

declare parse_loop.simps [simp del]

text \<open>\<open>Parse\<close> on a stream and on a file; \<open>None\<close> is a file that cannot be opened.\<close>

definition parse_config :: "string \<Rightarrow> config \<Rightarrow> (bool \<times> config) outcome" where
  "parse_config input cfg = parse_loop (Open cfg []) TOKEN_TYPE_START input"

definition parse_config_file :: "string option \<Rightarrow> config \<Rightarrow> (bool \<times> config) outcome" where
  "parse_config_file file cfg = (case file of
     None \<Rightarrow> Inr (False, cfg)
   | Some input \<Rightarrow> parse_config input cfg)"

section \<open>Well-formed configurations\<close>

definition token_end :: "char \<Rightarrow> bool" where
  "token_end c \<longleftrightarrow> c = SP \<or> c = HT \<or> c = LF \<or> c = CHR '';'' \<or> c = CHR ''{'' \<or> c = CHR ''}''"

definition blank :: "char \<Rightarrow> bool" where
  "blank c \<longleftrightarrow> c = SP \<or> c = HT \<or> c = LF \<or> c = CR"

text \<open>
  A token is quoted, with no quote of its kind inside, or a run of characters that starts with
  an ordinary one and has no terminator in it.
\<close>

fun wf_token :: "string \<Rightarrow> bool" where
  "wf_token [] \<longleftrightarrow> False"
| "wf_token (c # cs) \<longleftrightarrow>
     (if c = DQUOTE \<or> c = SQUOTE then cs \<noteq> [] \<and> last cs = c \<and> c \<notin> set (butlast cs)
      else \<not> token_end c \<and> \<not> blank c \<and> c \<noteq> CHR ''#'' \<and> list_all (\<lambda>c. \<not> token_end c) cs)"

fun wf_statement :: "statement \<Rightarrow> bool" where
  "wf_statement (Statement ts block) \<longleftrightarrow> ts \<noteq> [] \<and> list_all wf_token ts \<and>
     (case block of None \<Rightarrow> True | Some ss \<Rightarrow> list_all wf_statement ss)"

abbreviation wf_config :: "config \<Rightarrow> bool" where
  "wf_config cfg \<equiv> list_all wf_statement cfg"

section \<open>Reading what the printer wrote\<close>

lemma token_loop_normal:
  "list_all (\<lambda>c. \<not> token_end c) cs \<Longrightarrow> token_end d \<Longrightarrow>
     token_loop TOKEN_STATE_TOKEN_TYPE_NORMAL acc (cs @ d # rest) = (TOKEN_TYPE_NORMAL, acc @ cs, d # rest)"
  by (induction cs arbitrary: acc) (auto simp: token_end_def)

lemma token_loop_double:
  "list_all (\<lambda>c. c \<noteq> DQUOTE) cs \<Longrightarrow> token_loop TOKEN_STATE_DOUBLE_QUOTE acc (cs @ DQUOTE # rest) =
     (TOKEN_TYPE_NORMAL, acc @ cs @ [DQUOTE], rest)"
  by (induction cs arbitrary: acc) simp_all

lemma token_loop_single:
  "list_all (\<lambda>c. c \<noteq> SQUOTE) cs \<Longrightarrow> token_loop TOKEN_STATE_SINGLE_QUOTE acc (cs @ SQUOTE # rest) =
     (TOKEN_TYPE_NORMAL, acc @ cs @ [SQUOTE], rest)"
  by (induction cs arbitrary: acc) simp_all

lemma wf_token_quoted:
  "wf_token (c # cs) \<Longrightarrow> c = DQUOTE \<or> c = SQUOTE \<Longrightarrow> \<exists>body. cs = body @ [c] \<and> list_all (\<lambda>x. x \<noteq> c) body"
  by (cases cs rule: rev_cases) (auto simp: list_all_iff split: if_splits)

lemma parse_token_wf:
  assumes "wf_token tok" and "token_end d"
  shows "parse_token (tok @ d # rest) = (TOKEN_TYPE_NORMAL, tok, d # rest)"
proof -
  obtain c cs where tok: "tok = c # cs" using assms by (cases tok) auto
  show ?thesis
  proof (cases "c = DQUOTE \<or> c = SQUOTE")
    case True
    then obtain body where body: "cs = body @ [c]" "list_all (\<lambda>x. x \<noteq> c) body"
      using wf_token_quoted assms tok by blast
    from True show ?thesis
    proof
      assume "c = DQUOTE"
      with body tok show ?thesis by (simp add: parse_token_def token_loop_double)
    next
      assume "c = SQUOTE"
      with body tok show ?thesis by (simp add: parse_token_def token_loop_single)
    qed
  next
    case False
    with assms tok have "\<not> token_end c" "\<not> blank c" "c \<noteq> CHR ''#''" by auto
    with assms tok False show ?thesis
      by (simp add: parse_token_def token_loop_normal token_end_def blank_def)
  qed
qed

lemma parse_token_blank: "blank b \<Longrightarrow> parse_token (b # input) = parse_token input"
  by (auto simp: parse_token_def blank_def)

lemma parse_loop_blank: "blank b \<Longrightarrow> parse_loop stack l (b # input) = parse_loop stack l input"
  by (simp add: parse_loop.simps [of stack l] parse_token_blank)

lemma parse_loop_blanks:
  "list_all blank bs \<Longrightarrow> parse_loop stack l (bs @ input) = parse_loop stack l input"
  by (induction bs) (simp_all add: parse_loop_blank)

lemma blank_tabs [simp]: "list_all blank (replicate n HT)"
  by (simp add: list_all_iff blank_def)

lemma blank_consts [simp]: "blank SP" "blank LF" "blank HT" "token_end SP" "token_end (CHR '';'')"
  by (simp_all add: blank_def token_end_def)

lemma push_token_snoc: "push_token tok (ss @ [Statement ts b]) = Inr (ss @ [Statement (ts @ [tok]) b])"
proof (induction ss)
  case (Cons s ss)
  then show ?case by (cases s; cases "ss @ [Statement ts b]") auto
qed simp

lemma set_child_snoc: "set_child block (ss @ [Statement ts b]) = ss @ [Statement ts (Some block)]"
proof (induction ss)
  case (Cons s ss)
  then show ?case by (cases s; cases "ss @ [Statement ts b]") auto
qed simp

lemma parse_first_token:
  "starts_statement l \<Longrightarrow> wf_token tok \<Longrightarrow> token_end d \<Longrightarrow>
   parse_loop (Open cur outer) l (tok @ d # rest) =
     parse_loop (Open (cur @ [Statement [tok] None]) outer) TOKEN_TYPE_NORMAL (d # rest)"
  using push_token_snoc [of tok cur "[]" None]
  by (subst parse_loop.simps) (auto simp: parse_token_wf starts_statement_def)

lemma parse_next_token:
  "wf_token tok \<Longrightarrow> token_end d \<Longrightarrow>
   parse_loop (Open (cur @ [Statement ts b]) outer) TOKEN_TYPE_NORMAL (tok @ d # rest) =
     parse_loop (Open (cur @ [Statement (ts @ [tok]) b]) outer) TOKEN_TYPE_NORMAL (d # rest)"
  by (subst parse_loop.simps) (simp add: parse_token_wf push_token_snoc)

lemma parse_more_tokens:
  "list_all wf_token us \<Longrightarrow> us \<noteq> [] \<Longrightarrow> token_end d \<Longrightarrow>
   parse_loop (Open (cur @ [Statement ts None]) outer) TOKEN_TYPE_NORMAL (join_tokens us @ d # rest) =
     parse_loop (Open (cur @ [Statement (ts @ us) None]) outer) TOKEN_TYPE_NORMAL (d # rest)"
proof (induction us arbitrary: ts rule: join_tokens.induct)
  case (3 t u us)
  then show ?case by (simp add: parse_next_token parse_loop_blank)
qed (simp_all add: parse_next_token)

lemma parse_tokens:
  assumes "list_all wf_token ts" and "ts \<noteq> []" and "token_end d" and "starts_statement l"
  shows "parse_loop (Open cur outer) l (join_tokens ts @ d # rest) =
     parse_loop (Open (cur @ [Statement ts None]) outer) TOKEN_TYPE_NORMAL (d # rest)"
proof (cases ts rule: join_tokens.cases)
  case (3 t u us)
  with assms show ?thesis
    using parse_more_tokens [of "u # us" d cur "[t]" outer rest]
    by (simp add: parse_first_token parse_loop_blank)
qed (use assms in \<open>simp_all add: parse_first_token\<close>)

lemma parse_semicolon:
  "parse_loop stack TOKEN_TYPE_NORMAL (CHR '';'' # rest) = parse_loop stack TOKEN_TYPE_STATEMENT_END rest"
  by (subst parse_loop.simps) (simp add: parse_token_def)

lemma parse_open_block:
  "cur \<noteq> [] \<Longrightarrow> parse_loop (Open cur outer) TOKEN_TYPE_NORMAL (CHR ''{'' # rest) =
     parse_loop (Open [] (cur # outer)) TOKEN_TYPE_START_BLOCK rest"
  by (subst parse_loop.simps) (simp add: parse_token_def)

lemma parse_close_block:
  "starts_statement l \<Longrightarrow> l \<noteq> TOKEN_TYPE_START \<Longrightarrow>
   parse_loop (Open block (cur # outer)) l (CHR ''}'' # rest) =
     parse_loop (Open (set_child block cur) outer) TOKEN_TYPE_END_BLOCK rest"
  by (subst parse_loop.simps) (auto simp: parse_token_def starts_statement_def)

lemma parse_end:
  "l \<in> {TOKEN_TYPE_START, TOKEN_TYPE_STATEMENT_END, TOKEN_TYPE_END_BLOCK} \<Longrightarrow>
     parse_loop (Open cfg []) l [] = Inr (True, cfg)"
  by (subst parse_loop.simps) (auto simp: parse_token_def)

definition ends_with_type :: "statement \<Rightarrow> token_type" where
  "ends_with_type s = (if child_block s = None then TOKEN_TYPE_STATEMENT_END else TOKEN_TYPE_END_BLOCK)"

lemma starts_ends_with_type [simp]: "starts_statement (ends_with_type s)"
  by (simp add: ends_with_type_def starts_statement_def)

lemma parse_printed:
  "wf_statement s \<Longrightarrow> starts_statement l \<Longrightarrow>
     parse_loop (Open cur outer) l (statement_to_string depth s @ rest) =
     parse_loop (Open (cur @ [s]) outer) (ends_with_type s) rest"
  "wf_config ss \<Longrightarrow> starts_statement l \<Longrightarrow>
     parse_loop (Open cur outer) l (config_to_string depth ss @ rest) =
     parse_loop (Open (cur @ ss) outer) (if ss = [] then l else ends_with_type (last ss)) rest"
proof (induction depth s and depth ss arbitrary: l cur outer rest and l cur outer rest
    rule: statement_to_string_config_to_string.induct)
  case (1 depth ts block)
  have start: "starts_statement TOKEN_TYPE_START_BLOCK" by (simp add: starts_statement_def)
  have "starts_statement (if block = [] then TOKEN_TYPE_START_BLOCK else ends_with_type (last block))"
    "(if block = [] then TOKEN_TYPE_START_BLOCK else ends_with_type (last block)) \<noteq> TOKEN_TYPE_START"
    by (auto simp: start ends_with_type_def starts_statement_def)
  with 1 start show ?case
    by (simp add: parse_loop_blanks parse_tokens parse_loop_blank parse_open_block
        parse_close_block set_child_snoc ends_with_type_def)
next
  case (2 depth ts)
  then show ?case
    by (simp add: parse_loop_blanks parse_tokens parse_semicolon parse_loop_blank ends_with_type_def)
qed simp_all

lemma parse_print:
  assumes "wf_config cfg"
  shows "parse_config (config_to_string depth cfg) [] = Inr (True, cfg)"
proof -
  have "parse_config (config_to_string depth cfg) [] =
      parse_loop (Open cfg []) (if cfg = [] then TOKEN_TYPE_START else ends_with_type (last cfg)) []"
    using parse_printed(2) [OF assms, of TOKEN_TYPE_START "[]" "[]" depth "[]"]
    by (simp add: parse_config_def starts_statement_def)
  also have "\<dots> = Inr (True, cfg)"
    by (rule parse_end) (simp add: ends_with_type_def)
  finally show ?thesis .
qed


section \<open>What the parser builds is well-formed\<close>

lemma token_loop_normal_wf:
  "token_loop TOKEN_STATE_TOKEN_TYPE_NORMAL acc input = (TOKEN_TYPE_NORMAL, tok, rest) \<Longrightarrow>
     \<exists>cs. tok = acc @ cs \<and> list_all (\<lambda>c. \<not> token_end c) cs"
proof (induction input arbitrary: acc)
  case (Cons c input)
  show ?case
  proof (cases "token_end c")
    case True
    with Cons.prems have "tok = acc @ []" by (simp add: token_end_def split: if_splits)
    then show ?thesis by (intro exI [of _ "[]"]) simp
  next
    case False
    with Cons.prems have "token_loop TOKEN_STATE_TOKEN_TYPE_NORMAL (acc @ [c]) input = (TOKEN_TYPE_NORMAL, tok, rest)"
      by (simp add: token_end_def)
    then obtain cs where "tok = (acc @ [c]) @ cs" "list_all (\<lambda>c. \<not> token_end c) cs"
      using Cons.IH by blast
    with False show ?thesis by (intro exI [of _ "c # cs"]) simp
  qed
qed simp

lemma token_loop_quote_wf:
  assumes "(st, q) = (TOKEN_STATE_DOUBLE_QUOTE, DQUOTE) \<or> (st, q) = (TOKEN_STATE_SINGLE_QUOTE, SQUOTE)"
  shows "token_loop st acc input = (TOKEN_TYPE_NORMAL, tok, rest) \<Longrightarrow>
     \<exists>cs. tok = acc @ cs @ [q] \<and> q \<notin> set cs"
proof (induction input arbitrary: acc)
  case Nil
  with assms show ?case by auto
next
  case (Cons c input)
  show ?case
  proof (cases "c = q")
    case True
    with Cons.prems assms have "tok = acc @ [] @ [q]" by auto
    then show ?thesis by (intro exI [of _ "[]"]) simp
  next
    case False
    with Cons.prems assms have "token_loop st (acc @ [c]) input = (TOKEN_TYPE_NORMAL, tok, rest)"
      by auto
    then obtain cs where "tok = (acc @ [c]) @ cs @ [q]" "q \<notin> set cs"
      using Cons.IH by blast
    with False show ?thesis by (intro exI [of _ "c # cs"]) auto
  qed
qed

lemma wf_quoted: "q \<in> {DQUOTE, SQUOTE} \<Longrightarrow> q \<notin> set cs \<Longrightarrow> wf_token (q # cs @ [q])"
  by auto

lemma parse_token_normal:
  "parse_token input = (TOKEN_TYPE_NORMAL, tok, rest) \<Longrightarrow> wf_token tok"
proof (induction input)
  case Nil
  then show ?case by (simp add: parse_token_def)
next
  case (Cons c input)
  consider "blank c" | "c = DQUOTE" | "c = SQUOTE" | "c = CHR ''#''" | "c \<in> {CHR ''{'', CHR ''}'', CHR '';''}"
    | "c \<noteq> DQUOTE" "c \<noteq> SQUOTE" "c \<noteq> CHR ''#''" "\<not> blank c" "\<not> token_end c"
    by (auto simp: blank_def token_end_def)
  then show ?case
  proof cases
    case 1
    with Cons show ?thesis by (simp add: parse_token_blank)
  next
    case 2
    with Cons.prems have "token_loop TOKEN_STATE_DOUBLE_QUOTE [DQUOTE] input = (TOKEN_TYPE_NORMAL, tok, rest)"
      by (simp add: parse_token_def)
    then obtain cs where "tok = [DQUOTE] @ cs @ [DQUOTE]" "DQUOTE \<notin> set cs"
      using token_loop_quote_wf [of TOKEN_STATE_DOUBLE_QUOTE DQUOTE] by blast
    then show ?thesis using wf_quoted [of DQUOTE cs] by simp
  next
    case 3
    with Cons.prems have "token_loop TOKEN_STATE_SINGLE_QUOTE [SQUOTE] input = (TOKEN_TYPE_NORMAL, tok, rest)"
      by (simp add: parse_token_def)
    then obtain cs where "tok = [SQUOTE] @ cs @ [SQUOTE]" "SQUOTE \<notin> set cs"
      using token_loop_quote_wf [of TOKEN_STATE_SINGLE_QUOTE SQUOTE] by blast
    then show ?thesis using wf_quoted [of SQUOTE cs] by simp
  next
    case 4
    have "token_loop TOKEN_STATE_TOKEN_TYPE_COMMENT acc input \<noteq> (TOKEN_TYPE_NORMAL, tok, rest)" for acc
      by (induction input arbitrary: acc) simp_all
    with 4 Cons.prems show ?thesis by (simp add: parse_token_def)
  next
    case 5
    with Cons.prems show ?thesis by (auto simp: parse_token_def)
  next
    case 6
    with Cons.prems have "token_loop TOKEN_STATE_TOKEN_TYPE_NORMAL [c] input = (TOKEN_TYPE_NORMAL, tok, rest)"
      by (simp add: parse_token_def blank_def token_end_def)
    then obtain cs where "tok = [c] @ cs" "list_all (\<lambda>c. \<not> token_end c) cs"
      using token_loop_normal_wf by blast
    with 6 show ?thesis by simp
  qed
qed

text \<open>A statement that has just been created has no tokens; its first token makes it well-formed.\<close>

lemma push_token_wf:
  "push_token tok cur = Inr cur' \<Longrightarrow> wf_token tok \<Longrightarrow>
     wf_config cur \<or> (\<exists>ss. cur = ss @ [Statement [] None] \<and> wf_config ss) \<Longrightarrow> wf_config cur'"
proof (induction tok cur arbitrary: cur' rule: push_token.induct)
  case (3 tok s s2 ss)
  from "3.prems"(1) obtain ss' where ss': "push_token tok (s2 # ss) = Inr ss'" "cur' = s # ss'"
    by (auto simp: and_then_Inr_iff)
  from "3.prems"(3) have "wf_statement s"
    and "wf_config (s2 # ss) \<or> (\<exists>us. s2 # ss = us @ [Statement [] None] \<and> wf_config us)"
    by (auto simp: Cons_eq_append_conv)
  with "3.IH" [OF ss'(1)] "3.prems"(2) ss'(2) show ?case by simp
qed (auto simp: Cons_eq_append_conv)

lemma set_child_wf: "wf_config block \<Longrightarrow> wf_config cur \<Longrightarrow> wf_config (set_child block cur)"
  by (induction block cur rule: set_child.induct) auto

fun wf_stack :: "config_stack \<Rightarrow> bool" where
  "wf_stack (Emptied cfg) \<longleftrightarrow> wf_config cfg"
| "wf_stack (Open cur outer) \<longleftrightarrow> wf_config cur \<and> list_all (list_all wf_statement) outer"

lemma close_blocks_wf:
  "wf_config cur \<Longrightarrow> list_all (list_all wf_statement) outer \<Longrightarrow> wf_config (close_blocks cur outer)"
  by (induction cur outer rule: close_blocks.induct) (auto simp: set_child_wf)

lemma whole_config_wf: "wf_stack stack \<Longrightarrow> wf_config (whole_config stack)"
  by (cases stack) (auto simp: close_blocks_wf)

lemma pop_stack_wf: "pop_stack stack = Inr stack' \<Longrightarrow> wf_stack stack \<Longrightarrow> wf_stack stack'"
  by (cases stack rule: pop_stack.cases) (auto simp: set_child_wf)

lemma parse_loop_wf:
  "parse_loop stack l input = Inr (ok, cfg) \<Longrightarrow> wf_stack stack \<Longrightarrow> wf_config cfg"
proof (induction stack l input rule: parse_loop.induct)
  case (1 stack l input)
  obtain t tok rest where tok: "parse_token input = (t, tok, rest)" by (metis prod.exhaust)
  note IH = "1.IH" [OF tok [symmetric] refl]
  note step = "1.prems"(1) [unfolded parse_loop.simps [of stack l input] tok prod.case]
  have wf: "wf_config (whole_config stack)" using "1.prems"(2) by (rule whole_config_wf)
  show ?case
  proof (cases t)
    case TOKEN_TYPE_NORMAL
    show ?thesis
    proof (cases "starts_statement l \<or> l = TOKEN_TYPE_NORMAL")
      case True
      with step TOKEN_TYPE_NORMAL obtain cur outer cur' where st: "stack = Open cur outer"
        and cur': "push_token tok (if l \<noteq> TOKEN_TYPE_NORMAL then cur @ [Statement [] None] else cur) = Inr cur'"
        and rest: "parse_loop (Open cur' outer) TOKEN_TYPE_NORMAL rest = Inr (ok, cfg)"
        by (auto simp: and_then_Inr_iff split: config_stack.splits)
      have "wf_config cur'"
        by (rule push_token_wf [OF cur'])
          (use "1.prems"(2) st tok TOKEN_TYPE_NORMAL parse_token_normal in auto)
      with IH(1) [OF TOKEN_TYPE_NORMAL True st cur' rest] "1.prems"(2) st show ?thesis by simp
    qed (use step TOKEN_TYPE_NORMAL wf in simp)
  next
    case TOKEN_TYPE_START_BLOCK
    with step wf IH(2) "1.prems"(2) show ?thesis
      by (auto split: if_splits config_stack.splits)
  next
    case TOKEN_TYPE_END_BLOCK
    with step wf IH(3) "1.prems"(2) show ?thesis
      by (auto simp: and_then_Inr_iff dest: pop_stack_wf split: if_splits)
  next
    case TOKEN_TYPE_COMMENT
    with step IH(4) "1.prems"(2) show ?thesis by simp
  next
    case TOKEN_TYPE_STATEMENT_END
    with step wf IH(5) "1.prems"(2) show ?thesis by (auto split: if_splits)
  next
    case TOKEN_TYPE_EOF
    show ?thesis
    proof (cases "\<exists>stack'. pop_stack stack = Inr stack'")
      case True
      then obtain stack' where pop: "pop_stack stack = Inr stack'" by blast
      then have "wf_stack stack'" using "1.prems"(2) by (rule pop_stack_wf)
      with step wf IH(6) TOKEN_TYPE_EOF pop show ?thesis
        by (cases stack') (auto split: if_splits)
    qed (use step TOKEN_TYPE_EOF wf in \<open>auto simp: and_then_Inr_iff split: if_splits\<close>)
  qed (use step wf in auto)
qed

lemma parse_config_wf: "parse_config input [] = Inr (ok, cfg) \<Longrightarrow> wf_config cfg"
  unfolding parse_config_def by (erule parse_loop_wf) simp

section \<open>Printer and parser as a codec\<close>

definition decode_config :: "string \<Rightarrow> config option" where
  "decode_config input = (case parse_config input [] of Inr (True, cfg) \<Rightarrow> Some cfg | _ \<Rightarrow> None)"

lemma decode_config_Some: "decode_config input = Some cfg \<longleftrightarrow> parse_config input [] = Inr (True, cfg)"
  by (auto simp: decode_config_def split: sum.splits prod.splits bool.splits)

interpretation config_text: codec "config_to_string depth" decode_config "list_all wf_statement"
  by unfold_locales (auto simp: decode_config_Some parse_print dest: parse_config_wf)

section \<open>Properties\<close>

text \<open>
  C5: Printing and parsing a configuration are inverse: whatever the depth of indentation, the
  parser accepts the text \<open>ToString\<close> prints for a well-formed configuration and rebuilds exactly
  that configuration.
\<close>

theorem config_roundtrip:
  assumes "wf_config cfg"
  shows "parse_config (config_to_string depth cfg) [] = Inr (True, cfg)"
  using config_text.decode_encode [OF assms] by (simp add: decode_config_Some)

definition example_config :: config where
  "example_config =
     [Statement [''listen'', ''http'', ''8008''] None,
      Statement [''location'', DQUOTE # ''/static/'' @ [DQUOTE], ''StaticHandler'']
        (Some [Statement [''root'', DQUOTE # ''./data/'' @ [DQUOTE]] None])]"

lemma example_config_wf: "wf_config example_config"
  by code_simp

theorem config_roundtrip_witness:
  "wf_config example_config \<and>
   parse_config (config_to_string 0 example_config) [] = Inr (True, example_config)"
  using example_config_wf config_roundtrip [OF example_config_wf] by blast

text \<open>
  C35: Every configuration the parser builds, whether it accepts the input or not, is well-formed:
  no statement without tokens, every token a quoted string or a run of ordinary characters.
\<close>

theorem config_result_wf:
  assumes "parse_config input [] = Inr (ok, cfg)"
  shows "wf_config cfg"
  using assms by (rule parse_config_wf)

theorem config_result_wf_witness: "wf_config [Statement [''a'', ''b''] None]"
  by (rule config_result_wf [where input = "''a b ''" and ok = False])
    (simp add: parse_config_def parse_loop.simps parse_token_def starts_statement_def)

text \<open>
  Reprinting is stable: printing the configuration of any input whose parse ended (accepted
  or not) and parsing it again gives the same configuration, and distinct configurations that the
  parser can build never print the same.
\<close>

theorem config_reparse:
  assumes "parse_config input [] = Inr (ok, cfg)" and "parse_config input' [] = Inr (ok', cfg')"
  shows "parse_config (config_to_string depth cfg) [] = Inr (True, cfg) \<and>
    (config_to_string depth cfg = config_to_string depth cfg' \<longrightarrow> cfg = cfg')"
  using parse_config_wf [OF assms(1)] parse_config_wf [OF assms(2)]
  by (auto simp: parse_print intro: config_text.encode_inj [of cfg cfg' depth])

theorem config_reparse_witness:
  "parse_config (config_to_string 2 [Statement [''a''] None]) [] = Inr (True, [Statement [''a''] None])"
proof -
  have "parse_config ''a;'' [] = Inr (True, [Statement [''a''] None])"
    by (simp add: parse_config_def parse_loop.simps parse_token_def starts_statement_def)
  then show ?thesis using config_reparse [of "''a;''"] by blast
qed

text \<open>
  One closing brace too many after a complete configuration is not rejected: the parser pops
  the outermost configuration and then pops (or reads) an empty stack, which is undefined.
\<close>

theorem config_extra_brace:
  assumes "wf_config cfg" and "cfg \<noteq> []"
  shows "parse_config (config_to_string depth cfg @ ''}'') [] = Inl Undefined"
proof -
  have "parse_config (config_to_string depth cfg @ ''}'') [] =
      parse_loop (Open cfg []) (ends_with_type (last cfg)) ''}''"
    using parse_printed(2) [OF assms(1), of TOKEN_TYPE_START "[]" "[]" depth "''}''"] assms(2)
    by (simp add: parse_config_def starts_statement_def)
  also have "\<dots> = parse_loop (Emptied cfg) TOKEN_TYPE_END_BLOCK []"
    by (simp add: parse_loop.simps [of "Open cfg []"] parse_token_def ends_with_type_def)
  also have "\<dots> = Inl Undefined"
    by (simp add: parse_loop.simps [of "Emptied cfg"] parse_token_def)
  finally show ?thesis .
qed

theorem config_extra_brace_witness:
  "parse_config (config_to_string 0 example_config @ ''}'') [] = Inl Undefined"
  by (rule config_extra_brace [OF example_config_wf]) (simp add: example_config_def)

end
