(* ===== verification/Http_Response.thy ===== *)
theory Http_Response
  imports Http_Request Codec
begin

text \<open>
  The response (\<open>include/response.h\<close>), the stock pages and the serialisation of
  \<open>src/response_generator.cc\<close>, and the media types of \<open>src/mime_types.cc\<close>.
\<close>

section \<open>The response\<close>

text \<open>
  The enumerators of \<open>Response::status_code\<close>.  The proxy casts the number it reads from an
  upstream server to the enumeration: a number that is no enumerator is an \<open>other_status\<close>, which
  every switch handles in its default branch.
\<close>

datatype status_code =
    ok | created | accepted | no_content
  | multiple_choices | moved_permanently | moved_temporarily | not_modified
  | bad_request | unauthorized | forbidden | not_found
  | internal_server_error | not_implemented | bad_gateway | service_unavailable
  | other_status nat

fun status_number :: "status_code \<Rightarrow> nat" where
  "status_number ok = 200"
| "status_number created = 201"
| "status_number accepted = 202"
| "status_number no_content = 204"
| "status_number multiple_choices = 300"
| "status_number moved_permanently = 301"
| "status_number moved_temporarily = 302"
| "status_number not_modified = 304"
| "status_number bad_request = 400"
| "status_number unauthorized = 401"
| "status_number forbidden = 403"
| "status_number not_found = 404"
| "status_number internal_server_error = 500"
| "status_number not_implemented = 501"
| "status_number bad_gateway = 502"
| "status_number service_unavailable = 503"
| "status_number (other_status n) = n"

record response =
  rsp_code :: status_code
  rsp_headers :: "string smap"
  rsp_body :: string

text \<open>\<open>Response()\<close>: no enumerator has the value 0.\<close>

definition empty_response :: response where
  "empty_response = \<lparr>rsp_code = other_status 0, rsp_headers = [], rsp_body = []\<rparr>"

definition set_header :: "string \<Rightarrow> string \<Rightarrow> response \<Rightarrow> response" where
  "set_header k v r = r\<lparr>rsp_headers := smap_put k v (rsp_headers r)\<rparr>"

section \<open>Status lines and stock pages\<close>

fun status_text :: "status_code \<Rightarrow> string" where
  "status_text ok = ''HTTP/1.1 200 OK''"
| "status_text created = ''HTTP/1.0 201 Created''"
| "status_text accepted = ''HTTP/1.0 202 Accepted''"
| "status_text no_content = ''HTTP/1.0 204 No Content''"
| "status_text multiple_choices = ''HTTP/1.0 300 Multiple Choices''"
| "status_text moved_permanently = ''HTTP/1.0 301 Moved Permanently''"
| "status_text moved_temporarily = ''HTTP/1.0 302 Moved Temporarily''"
| "status_text not_modified = ''HTTP/1.0 304 Not Modified''"
| "status_text bad_request = ''HTTP/1.1 400 Bad Request''"
| "status_text unauthorized = ''HTTP/1.0 401 Unauthorized''"
| "status_text forbidden = ''HTTP/1.0 403 Forbidden''"
| "status_text not_found = ''HTTP/1.0 404 Not Found''"
| "status_text internal_server_error = ''HTTP/1.0 500 Internal Server Error''"
| "status_text not_implemented = ''HTTP/1.0 501 Not Implemented''"
| "status_text bad_gateway = ''HTTP/1.0 502 Bad Gateway''"
| "status_text service_unavailable = ''HTTP/1.0 503 Service Unavailable''"
| "status_text (other_status n) = ''HTTP/1.0 500 Internal Server Error''"

definition status_buffer :: "status_code \<Rightarrow> string" where
  "status_buffer s = status_text s @ crlf"

fun stock_body :: "status_code \<Rightarrow> string" where
  "stock_body ok = []"
| "stock_body created =
     ''<html><head><title>Created</title></head>'' @ ''<body><h1>201 Created</h1></body></html>''"
| "stock_body accepted =
     ''<html><head><title>Accepted</title></head>'' @ ''<body><h1>202 Accepted</h1></body></html>''"
| "stock_body no_content =
     ''<html><head><title>No Content</title></head>'' @ ''<body><h1>204 Content</h1></body></html>''"
| "stock_body multiple_choices =
     ''<html><head><title>Multiple Choices</title></head>'' @ ''<body><h1>300 Multiple Choices</h1></body></html>''"
| "stock_body moved_permanently =
     ''<html><head><title>Moved Permanently</title></head>'' @ ''<body><h1>301 Moved Permanently</h1></body></html>''"
| "stock_body moved_temporarily =
     ''<html><head><title>Moved Temporarily</title></head>'' @ ''<body><h1>302 Moved Temporarily</h1></body></html>''"
| "stock_body not_modified =
     ''<html><head><title>Not Modified</title></head>'' @ ''<body><h1>304 Not Modified</h1></body></html>''"
| "stock_body bad_request =
     ''<html><head><title>Bad Request</title></head>'' @ ''<body><h1>400 Bad Request</h1></body></html>''"
| "stock_body unauthorized =
     ''<html><head><title>Unauthorized</title></head>'' @ ''<body><h1>401 Unauthorized</h1></body></html>''"
| "stock_body forbidden =
     ''<html><head><title>Forbidden</title></head>'' @ ''<body><h1>403 Forbidden</h1></body></html>''"
| "stock_body not_found =
     ''<html><head><title>Not Found</title></head>'' @ ''<body><h1>404 Not Found</h1></body></html>''"
| "stock_body internal_server_error =
     ''<html><head><title>Internal Server Error</title></head>'' @ ''<body><h1>500 Internal Server Error</h1></body></html>''"
| "stock_body not_implemented =
     ''<html><head><title>Not Implemented</title></head>'' @ ''<body><h1>501 Not Implemented</h1></body></html>''"
| "stock_body bad_gateway =
     ''<html><head><title>Bad Gateway</title></head>'' @ ''<body><h1>502 Bad Gateway</h1></body></html>''"
| "stock_body service_unavailable =
     ''<html><head><title>Service Unavailable</title></head>'' @ ''<body><h1>503 Service Unavailable</h1></body></html>''"
| "stock_body (other_status n) =
     ''<html><head><title>Internal Server Error</title></head>'' @ ''<body><h1>500 Internal Server Error</h1></body></html>''"

definition stock_response :: "status_code \<Rightarrow> response" where
  "stock_response status =
     (let rep = empty_response\<lparr>rsp_code := status, rsp_body := stock_body status\<rparr>
      in set_header ''Content-Type'' ''text/html''
           (set_header ''Content-Length'' (to_string (length (rsp_body rep))) rep))"

section \<open>Serialisation\<close>

text \<open>
  A \<open>ResponseGenerator\<close> holds a copy of the response, made entry by entry; \<open>to_buffers\<close> is the
  list of buffers handed to the socket, and what the client reads is their concatenation.
\<close>

definition generator_init :: "response \<Rightarrow> response \<Rightarrow> response" where
  "generator_init gen r = gen\<lparr>rsp_body := rsp_body r, rsp_code := rsp_code r,
     rsp_headers := foldl (\<lambda>m (k, v). smap_put k v m) [] (rsp_headers r)\<rparr>"

fun header_buffers :: "string smap \<Rightarrow> string list" where
  "header_buffers [] = []"
| "header_buffers ((k, v) # hs) = [k, '': '', v, crlf] @ header_buffers hs"

definition to_buffers :: "response \<Rightarrow> string list" where
  "to_buffers gen = [status_buffer (rsp_code gen)] @ header_buffers (rsp_headers gen) @
     [crlf, rsp_body gen]"

definition status_string_accessor :: "status_code \<Rightarrow> string" where
  "status_string_accessor status = status_buffer status"

definition wire :: "response \<Rightarrow> string" where
  "wire r = concat (to_buffers (generator_init empty_response r))"

section \<open>Media types\<close>

definition mappings :: "(string \<times> string) list" where
  "mappings =
     [(''gif'', ''image/gif''),
      (''htm'', ''text/html''),
      (''css'', ''text/css''),
      (''html'', ''text/html''),
      (''jpg'', ''image/jpeg''),
      (''jpeg'', ''image/jpeg''),
      (''png'', ''image/png''),
      (''txt'', ''text/plain''),
      (''zip'', ''application/zip''),
      (''avi'', ''video/x-msvideo''),
      (''csv'', ''text/csv''),
      (''doc'', ''application/msword''),
      (''docx'', ''application/vnd.openxmlformats-officedocument.wordprocessingml.document''),
      (''gz'', ''application/gzip''),
      (''json'', ''application/json''),
      (''rar'', ''application/vnd.rar''),
      (''tar'', ''application/x-tar''),
      (''7z'', ''application/x-7z-compressed'')]"

fun lookup_type :: "(string \<times> string) list \<Rightarrow> string \<Rightarrow> string" where
  "lookup_type [] extension = ''application/octet-stream''"
| "lookup_type ((e, t) # ms) extension = (if e = extension then t else lookup_type ms extension)"

definition extension_to_type :: "string \<Rightarrow> string" where
  "extension_to_type extension = lookup_type mappings extension"

section \<open>Framing\<close>

text \<open>
  What a client relies on to find the end of a response: the headers announce the length of the
  body.
\<close>

definition framed :: "response \<Rightarrow> bool" where
  "framed r \<longleftrightarrow> smap_ok (rsp_headers r) \<and>
     smap_find (rsp_headers r) ''Content-Length'' = Some (to_string (length (rsp_body r))) \<and>
     smap_find (rsp_headers r) ''Content-Type'' \<noteq> None"

lemma smap_ok_Nil [simp]: "smap_ok []"
  by (rule smap.ok_empty)

lemma response_simps [simp]:
  "rsp_headers empty_response = []" "rsp_body empty_response = []"
  "rsp_code empty_response = other_status 0"
  "rsp_code (set_header k v r) = rsp_code r" "rsp_body (set_header k v r) = rsp_body r"
  "rsp_headers (set_header k v r) = smap_put k v (rsp_headers r)"
  by (simp_all add: empty_response_def set_header_def)

lemma stock_response_simps [simp]:
  "rsp_code (stock_response s) = s" "rsp_body (stock_response s) = stock_body s"
  by (simp_all add: stock_response_def Let_def)

lemma stock_response_framed [simp]: "framed (stock_response s)"
  by (simp add: framed_def stock_response_def Let_def)

lemma set_header_framed:
  "framed r \<Longrightarrow> k \<noteq> ''Content-Length'' \<Longrightarrow> framed (set_header k v r)"
  by (auto simp: framed_def)

lemma foldl_put_entries:
  "smap_ok m \<Longrightarrow> smap_ok hs \<Longrightarrow>
     smap_ok (foldl (\<lambda>m (k, v). smap_put k v m) m hs) \<and>
     smap_find (foldl (\<lambda>m (k, v). smap_put k v m) m hs) k' =
       (case smap_find hs k' of Some v \<Rightarrow> Some v | None \<Rightarrow> smap_find m k')"
proof (induction hs arbitrary: m)
  case Nil
  then show ?case by simp
next
  case (Cons h hs)
  obtain k v where h: "h = (k, v)" by force
  from Cons.prems h have ok: "smap_ok hs" and "k \<notin> fst ` set hs"
    by (auto simp: smap_ok_def)
  then have "smap_find hs k = None" by (simp add: smap_find_def map_of_eq_None_iff)
  with Cons.IH [of "smap_put k v m"] Cons.prems(1) ok show ?case
    by (auto simp: h smap_find_Cons split: option.splits)
qed

lemma generator_copy: "smap_ok (rsp_headers r) \<Longrightarrow> generator_init gen r = r"
  using foldl_put_entries [of "[]" "rsp_headers r"]
  by (cases r; cases gen)
    (auto simp: generator_init_def intro!: smap_eqI split: option.splits)

lemma wire_framed:
  "smap_ok (rsp_headers r) \<Longrightarrow>
     wire r = status_buffer (rsp_code r) @ concat (header_buffers (rsp_headers r)) @ crlf @ rsp_body r"
  by (simp add: wire_def to_buffers_def generator_copy)

section \<open>A reference decoder\<close>

text \<open>
  What a client makes of the bytes: the status line up to the first line break, then lines of
  the form \<open>name: value\<close> up to an empty line; the rest is the body.
\<close>

fun take_line :: "string \<Rightarrow> (string \<times> string) option" where
  "take_line [] = None"
| "take_line (c # cs) =
     (if c = CR then (case cs of [] \<Rightarrow> None | d # ds \<Rightarrow> if d = LF then Some ([], ds) else None)
      else map_option (\<lambda>(l, r). (c # l, r)) (take_line cs))"

fun split_header :: "string \<Rightarrow> (string \<times> string) option" where
  "split_header [] = None"
| "split_header (c # cs) =
     (if c = CHR '':'' then (case cs of [] \<Rightarrow> None | d # ds \<Rightarrow> if d = SP then Some ([], ds) else None)
      else map_option (\<lambda>(n, v). (c # n, v)) (split_header cs))"

lemma take_line_shorter: "take_line s = Some (l, r) \<Longrightarrow> length r < length s"
  by (induction s arbitrary: l) (auto split: if_splits list.splits dest: less_SucI)

function take_headers :: "string \<Rightarrow> (string smap \<times> string) option" where
  "take_headers s = (case take_line s of
     None \<Rightarrow> None
   | Some (l, r) \<Rightarrow> if l = [] then Some ([], r)
       else (case split_header l of
          None \<Rightarrow> None
        | Some h \<Rightarrow> map_option (\<lambda>(hs, b). (h # hs, b)) (take_headers r)))"
  by pat_completeness auto
termination
  by (relation "measure length") (auto dest: take_line_shorter)

declare take_headers.simps [simp del]

definition known_codes :: "status_code list" where
  "known_codes = [ok, created, accepted, no_content, multiple_choices, moved_permanently,
     moved_temporarily, not_modified, bad_request, unauthorized, forbidden, not_found,
     internal_server_error, not_implemented, bad_gateway, service_unavailable]"

text \<open>A response whose headers cannot be mistaken for anything else on the wire.\<close>

definition sendable :: "response \<Rightarrow> bool" where
  "sendable r \<longleftrightarrow> rsp_code r \<in> set known_codes \<and> smap_ok (rsp_headers r) \<and>
     list_all (\<lambda>(k, v). k \<noteq> [] \<and> CHR '':'' \<notin> set k \<and> CR \<notin> set k \<and> CR \<notin> set v) (rsp_headers r)"

definition read_response :: "string \<Rightarrow> response option" where
  "read_response s = (case take_line s of
     None \<Rightarrow> None
   | Some (status, s') \<Rightarrow>
       (case (List.find (\<lambda>c. status_buffer c = status @ crlf) known_codes, take_headers s') of
          (Some code, Some (hs, body)) \<Rightarrow>
            (let r = \<lparr>rsp_code = code, rsp_headers = hs, rsp_body = body\<rparr>
             in if sendable r then Some r else None)
        | _ \<Rightarrow> None))"

lemma take_line_crlf: "CR \<notin> set l \<Longrightarrow> take_line (l @ CR # LF # r) = Some (l, r)"
  by (induction l) auto

lemma split_header_colon: "CHR '':'' \<notin> set n \<Longrightarrow> split_header (n @ CHR '':'' # SP # v) = Some (n, v)"
  by (induction n) auto

lemma take_headers_buffers:
  "list_all (\<lambda>(k, v). k \<noteq> [] \<and> CHR '':'' \<notin> set k \<and> CR \<notin> set k \<and> CR \<notin> set v) hs \<Longrightarrow>
     take_headers (concat (header_buffers hs) @ crlf @ body) = Some (hs, body)"
proof (induction hs rule: header_buffers.induct)
  case 1
  then show ?case by (simp add: take_headers.simps [of "CR # LF # body"])
next
  case (2 k v hs)
  let ?rest = "concat (header_buffers hs) @ CR # LF # body"
  have "take_line ((k @ CHR '':'' # SP # v) @ CR # LF # ?rest) = Some (k @ CHR '':'' # SP # v, ?rest)"
    using 2 by (intro take_line_crlf) auto
  with 2 show ?case
    by (simp add: take_headers.simps [of "k @ CHR '':'' # SP # v @ CR # LF # ?rest"] split_header_colon)
qed

lemma status_text_line: "CR \<notin> set (status_text c)"
  by (cases c) simp_all

lemma find_known:
  assumes "c \<in> set known_codes"
  shows "List.find (\<lambda>d. status_buffer d = status_buffer c) known_codes = Some c"
proof -
  have "list_all (\<lambda>c. List.find (\<lambda>d. status_buffer d = status_buffer c) known_codes = Some c) known_codes"
    by code_simp
  with assms show ?thesis by (simp add: list_all_iff)
qed

lemma read_wire:
  assumes "sendable r"
  shows "read_response (wire r) = Some r"
proof -
  define l where "l = status_text (rsp_code r)"
  have l: "status_buffer (rsp_code r) = l @ crlf" "CR \<notin> set l"
    by (simp_all add: l_def status_buffer_def status_text_line)
  let ?rest = "concat (header_buffers (rsp_headers r)) @ CR # LF # rsp_body r"
  have wire: "wire r = l @ CR # LF # ?rest"
    using assms by (simp add: wire_framed sendable_def l(1))
  have "take_line (wire r) = Some (l, ?rest)"
    unfolding wire using l(2) by (rule take_line_crlf)
  moreover have "take_headers ?rest = Some (rsp_headers r, rsp_body r)"
    using assms take_headers_buffers [of "rsp_headers r" "rsp_body r"] by (simp add: sendable_def)
  moreover have "List.find (\<lambda>d. status_buffer d = l @ crlf) known_codes = Some (rsp_code r)"
    using find_known [of "rsp_code r"] assms by (simp add: sendable_def l(1))
  ultimately show ?thesis
    using assms by (cases r) (simp add: read_response_def Let_def)
qed

lemma read_response_sendable: "read_response s = Some r \<Longrightarrow> sendable r"
  by (auto simp: read_response_def Let_def split: option.splits prod.splits if_splits)

interpretation message: codec wire read_response sendable
  by unfold_locales (auto simp: read_wire read_response_sendable)

section \<open>Properties\<close>



text \<open>
  Every stock response is framed: whatever the status (also one that is no enumerator), its
  \<open>Content-Length\<close> is the length of its body and it has a content type; and what is sent for it
  is one status line, the two headers, an empty line and that body.
\<close>

theorem stock_response_on_wire:
  "framed (stock_response s) \<and>
   wire (stock_response s) = status_buffer s @
     ''Content-Length: '' @ to_string (length (stock_body s)) @ crlf @
     ''Content-Type: text/html'' @ crlf @ crlf @ stock_body s"
proof -
  have "rsp_headers (stock_response s) =
      [(''Content-Length'', to_string (length (stock_body s))), (''Content-Type'', ''text/html'')]"
    by (simp add: stock_response_def Let_def smap_put_def)
  moreover have "smap_ok (rsp_headers (stock_response s))"
    using stock_response_framed [of s] by (simp add: framed_def del: stock_response_framed)
  ultimately show ?thesis by (simp add: wire_framed)
qed

end
