(* ===== verification/Request_Handler.thy ===== *)
theory Request_Handler
  imports Http_Response
begin

text \<open>
  The interface of \<open>include/request_handler.h\<close>.  A handler answers a request and may change the
  state \<open>'w\<close> it shares with the rest of the server.  Every handler keeps the invariant of that
  state and answers with a header map in order; the handlers of the second locale also announce
  the length of the body they send.
\<close>

type_synonym 'w handle = "'w \<Rightarrow> request \<Rightarrow> (response \<times> 'w) outcome"

text \<open>The answers to a sequence of requests; an outcome that is no response ends the run.\<close>

fun serve_all :: "'w handle \<Rightarrow> 'w \<Rightarrow> request list \<Rightarrow> (response list \<times> 'w) outcome" where
  "serve_all handle w [] = Inr ([], w)"
| "serve_all handle w (r # rs) =
     and_then (handle w r) (\<lambda>(rsp, w).
       and_then (serve_all handle w rs) (\<lambda>(rsps, w). Inr (rsp # rsps, w)))"

locale request_handler =
  fixes handle :: "'w handle" and inv :: "'w \<Rightarrow> bool"
  assumes handle_inv: "inv w \<Longrightarrow> handle w req = Inr (rsp, w') \<Longrightarrow> inv w'"
    and handle_headers: "inv w \<Longrightarrow> handle w req = Inr (rsp, w') \<Longrightarrow> smap_ok (rsp_headers rsp)"
begin

lemma serve_all_inv:
  "inv w \<Longrightarrow> serve_all handle w reqs = Inr (rsps, w') \<Longrightarrow>
     inv w' \<and> list_all (\<lambda>r. smap_ok (rsp_headers r)) rsps \<and> length rsps = length reqs"
proof (induction reqs arbitrary: w rsps)
  case Nil
  then show ?case by simp
next
  case (Cons r rs)
  from Cons.prems(2) obtain rsp w1 rest where
    step: "handle w r = Inr (rsp, w1)" "serve_all handle w1 rs = Inr (rest, w')" "rsps = rsp # rest"
    by (auto simp: and_then_Inr_iff split: prod.splits)
  with Cons.IH [OF handle_inv [OF Cons.prems(1) step(1)] step(2)]
    handle_headers [OF Cons.prems(1) step(1)]
  show ?case by simp
qed

lemma answer_on_wire:
  "inv w \<Longrightarrow> handle w req = Inr (rsp, w') \<Longrightarrow>
     wire rsp = status_buffer (rsp_code rsp) @ concat (header_buffers (rsp_headers rsp)) @ crlf @ rsp_body rsp"
  by (rule wire_framed) (rule handle_headers)

end

locale framing_handler = request_handler +
  assumes handle_framed: "inv w \<Longrightarrow> handle w req = Inr (rsp, w') \<Longrightarrow> framed rsp"
begin

text \<open>The announced number of bytes, counted from the end of what is sent, is the body.\<close>

lemma answer_framed:
  assumes "inv w" and "handle w req = Inr (rsp, w')"
  shows "\<exists>n head. smap_find (rsp_headers rsp) ''Content-Length'' = Some (to_string n) \<and>
    wire rsp = head @ crlf @ rsp_body rsp \<and> length (rsp_body rsp) = n"
  using answer_on_wire [OF assms] handle_framed [OF assms] by (auto simp: framed_def)

lemma serve_all_framed:
  "inv w \<Longrightarrow> serve_all handle w reqs = Inr (rsps, w') \<Longrightarrow> list_all framed rsps"
proof (induction reqs arbitrary: w rsps)
  case Nil
  then show ?case by simp
next
  case (Cons r rs)
  from Cons.prems(2) obtain rsp w1 rest where
    step: "handle w r = Inr (rsp, w1)" "serve_all handle w1 rs = Inr (rest, w')" "rsps = rsp # rest"
    by (auto simp: and_then_Inr_iff split: prod.splits)
  with Cons.IH [OF handle_inv [OF Cons.prems(1) step(1)] step(2)] handle_framed [OF Cons.prems(1) step(1)]
  show ?case by simp
qed

end

end
