(* ===== verification/Data_Collector.thy ===== *)
theory Data_Collector
  imports Http_Response "HOL-Library.Multiset" "HOL-Library.Word"
begin

text \<open>
  The data collector (\<open>src/data_collector.cc\<close>): how often each URI was answered with each status,
  and which handler serves which path.  \<open>increment_request\<close> runs under a mutex, so the calls of
  all sessions are one sequence of updates; the order of that sequence is up to the scheduler.
\<close>

section \<open>State and operations\<close>

text \<open>
  A counter is an \<open>int\<close>: 32 bits, read as a signed number by \<open>sint\<close>.  C++ leaves the increment
  past \<open>2 ^ 31 - 1\<close> undefined; the model wraps there, and the theorems about the value of a counter
  stay below it.
\<close>

type_synonym count = "32 word"

record collector =
  status_map :: "count smap smap"
  uri_request_handler :: "string smap"

definition new_collector :: collector where
  "new_collector = \<lparr>status_map = [], uri_request_handler = []\<rparr>"

text \<open>The singleton pointer: null until the first call.\<close>

definition get_instance :: "collector option \<Rightarrow> collector" where
  "get_instance singleton = (case singleton of None \<Rightarrow> new_collector | Some c \<Rightarrow> c)"

fun map_status_to_string :: "status_code \<Rightarrow> string" where
  "map_status_to_string ok = ''200''"
| "map_status_to_string created = ''201''"
| "map_status_to_string accepted = ''202''"
| "map_status_to_string no_content = ''204''"
| "map_status_to_string multiple_choices = ''300''"
| "map_status_to_string moved_permanently = ''301''"
| "map_status_to_string moved_temporarily = ''302''"
| "map_status_to_string not_modified = ''304''"
| "map_status_to_string bad_request = ''400''"
| "map_status_to_string unauthorized = ''401''"
| "map_status_to_string forbidden = ''403''"
| "map_status_to_string not_found = ''404''"
| "map_status_to_string internal_server_error = ''500''"
| "map_status_to_string not_implemented = ''501''"
| "map_status_to_string bad_gateway = ''502''"
| "map_status_to_string service_unavailable = ''503''"
| "map_status_to_string (other_status n) = ''500''"

definition increment_request :: "string \<Rightarrow> status_code \<Rightarrow> collector \<Rightarrow> collector" where
  "increment_request uri code c =
     (let status = map_status_to_string code; m = status_map c in
      c\<lparr>status_map :=
        (case smap_find m uri of
           Some inner \<Rightarrow>
             (if smap_find inner status \<noteq> None
              then smap_modify [] (smap_modify 0 (\<lambda>n. n + 1) status) uri m
              else smap_modify [] (smap_put status 1) uri m)
         | None \<Rightarrow> smap_modify [] (smap_put status 1) uri m)\<rparr>)"

definition add_handler :: "string \<Rightarrow> string \<Rightarrow> collector \<Rightarrow> collector" where
  "add_handler path name c = c\<lparr>uri_request_handler := smap_put path name (uri_request_handler c)\<rparr>"

section \<open>One call\<close>

definition collector_ok :: "collector \<Rightarrow> bool" where
  "collector_ok c \<longleftrightarrow> smap_ok (status_map c) \<and> list_all (\<lambda>(u, inner). smap_ok inner) (status_map c) \<and>
     smap_ok (uri_request_handler c)"

definition bump :: "string \<Rightarrow> count smap \<Rightarrow> count smap" where
  "bump status inner = smap_modify 0 (\<lambda>n. n + 1) status inner"

lemma smap_modify_cong:
  "f (or_default d (smap_find m k)) = g (or_default d (smap_find m k)) \<Longrightarrow> smap_ok m \<Longrightarrow>
     smap_modify d f k m = smap_modify d g k m"
  by (rule smap_eqI) (auto simp: smap.find_modify fun_eq_iff)

lemma put_fresh: "smap_ok inner \<Longrightarrow> smap_find inner s = None \<Longrightarrow> smap_put s 1 inner = bump s inner"
  unfolding bump_def
  by (rule smap_eqI) (auto simp: smap.find_modify fun_eq_iff)

lemma inner_ok:
  "list_all (\<lambda>(u, inner). smap_ok inner) m \<Longrightarrow> smap_ok (or_default [] (smap_find m u))"
  by (auto simp: smap_find_def or_default_def list_all_iff split: option.splits dest!: map_of_SomeD)

lemma increment_request_bump:
  assumes "collector_ok c"
  shows "status_map (increment_request uri code c) =
    smap_modify [] (bump (map_status_to_string code)) uri (status_map c)"
proof -
  let ?s = "map_status_to_string code" and ?m = "status_map c"
  have m: "smap_ok ?m" and inner: "smap_ok (or_default [] (smap_find ?m uri))"
    using assms inner_ok by (auto simp: collector_ok_def)
  have "smap_modify [] (smap_put ?s 1) uri ?m = smap_modify [] (bump ?s) uri ?m"
    if "smap_find (or_default [] (smap_find ?m uri)) ?s = None"
    by (rule smap_modify_cong [OF _ m]) (rule put_fresh [OF inner that])
  then show ?thesis
    by (auto simp: increment_request_def Let_def bump_def [abs_def] split: option.splits)
qed

lemma increment_request_handlers [simp]:
  "uri_request_handler (increment_request uri code c) = uri_request_handler c"
  by (simp add: increment_request_def Let_def)

lemma increment_request_ok:
  assumes "collector_ok c"
  shows "collector_ok (increment_request uri code c)"
proof -
  have "list_all (\<lambda>(u, inner). smap_ok inner)
      (smap_modify [] (bump (map_status_to_string code)) uri (status_map c))"
    using assms unfolding collector_ok_def
    by (intro list_all_smap_modify) (auto simp: bump_def)
  with assms show ?thesis
    by (simp add: collector_ok_def increment_request_bump)
qed

section \<open>A run of calls\<close>

text \<open>The calls made under the mutex, in the order in which the sessions obtained it.\<close>

type_synonym event = "string \<times> status_code"

definition record_all :: "event list \<Rightarrow> collector \<Rightarrow> collector" where
  "record_all es c = foldl (\<lambda>c (uri, code). increment_request uri code c) c es"

definition count_of :: "collector \<Rightarrow> string \<Rightarrow> string \<Rightarrow> count" where
  "count_of c uri status =
     or_default 0 (smap_find (or_default [] (smap_find (status_map c) uri)) status)"

definition occurrences :: "string \<Rightarrow> string \<Rightarrow> event list \<Rightarrow> nat" where
  "occurrences uri status es =
     length (filter (\<lambda>(u, code). u = uri \<and> map_status_to_string code = status) es)"

lemma record_all_simps [simp]:
  "record_all [] c = c"
  "record_all ((uri, code) # es) c = record_all es (increment_request uri code c)"
  by (simp_all add: record_all_def)

lemma record_all_handlers [simp]: "uri_request_handler (record_all es c) = uri_request_handler c"
  by (induction es arbitrary: c) auto

lemma record_all_ok: "collector_ok c \<Longrightarrow> collector_ok (record_all es c)"
  by (induction es arbitrary: c) (auto simp: increment_request_ok)

lemma new_collector_ok [simp]: "collector_ok new_collector"
  by (simp add: collector_ok_def new_collector_def)

lemma collector_okD:
  "collector_ok c \<Longrightarrow> smap_ok (status_map c)"
  "collector_ok c \<Longrightarrow> smap_ok (or_default [] (smap_find (status_map c) uri))"
  by (simp_all add: collector_ok_def inner_ok)

lemma add_handler_ok: "collector_ok c \<Longrightarrow> collector_ok (add_handler path name c)"
  by (simp add: collector_ok_def add_handler_def)

lemma count_of_increment:
  assumes "collector_ok c"
  shows "count_of (increment_request uri code c) u s =
    count_of c u s + (if uri = u \<and> map_status_to_string code = s then 1 else 0)"
  using collector_okD [OF assms]
  by (simp add: count_of_def increment_request_bump [OF assms] smap.find_modify bump_def)

lemma count_of_record_all:
  assumes "collector_ok c"
  shows "count_of (record_all es c) u status = count_of c u status + of_nat (occurrences u status es)"
  using assms
proof (induction es arbitrary: c)
  case Nil
  then show ?case by (simp add: occurrences_def)
next
  case (Cons e es)
  obtain u' code where e: "e = (u', code)" by (cases e)
  show ?case
    using Cons.IH [OF increment_request_ok [OF Cons.prems]] Cons.prems
    by (simp add: e count_of_increment occurrences_def)
qed



lemma bump_runs_agree:
  assumes "smap_ok inner" and "mset ss = mset ss'"
  shows "foldl (\<lambda>m s. bump s m) inner ss = foldl (\<lambda>m s. bump s m) inner ss'"
proof -
  have run: "foldl (\<lambda>m s. bump s m) inner xs =
      foldl (\<lambda>m e. smap_modify 0 ((\<lambda>_ n. n + 1) (snd e)) (fst e) m) inner (map (\<lambda>s. (s, ())) xs)" for xs
    by (induction xs arbitrary: inner) (simp_all add: bump_def)
  have adds: "foldl (\<lambda>v x. v + 1) n (xs :: unit list) = n + of_nat (length xs)" for n :: count and xs
    by (induction xs arbitrary: n) simp_all
  have len: "length (filter (\<lambda>s. s = k) ss) = length (filter (\<lambda>s. s = k) ss')" for k
    using assms(2) by (metis mset_filter size_mset)
  have nil: "filter (\<lambda>s. s = k) ss = [] \<longleftrightarrow> filter (\<lambda>s. s = k) ss' = []" for k
    using len [of k] by (metis length_0_conv)
  let ?ins = "(\<lambda>_ n. n + 1) :: unit \<Rightarrow> count \<Rightarrow> count"
  show ?thesis
    unfolding run
  proof (rule smap_eqI)
    show "smap_find (foldl (\<lambda>m e. smap_modify 0 (?ins (snd e)) (fst e) m) inner (map (\<lambda>s. (s, ())) ss)) =
      smap_find (foldl (\<lambda>m e. smap_modify 0 (?ins (snd e)) (fst e) m) inner (map (\<lambda>s. (s, ())) ss'))"
      unfolding fun_eq_iff smap.find_group [OF assms(1), where ins = ?ins]
      by (simp add: Let_def adds filter_map comp_def len nil)
  qed (use assms(1) smap.ok_group [where ins = ?ins] in simp_all)
qed

lemma status_map_record_all:
  assumes "collector_ok c"
  shows "status_map (record_all es c) =
    foldl (\<lambda>m e. smap_modify [] (bump (snd e)) (fst e) m) (status_map c)
      (map (\<lambda>(u, code). (u, map_status_to_string code)) es)"
  using assms
  by (induction es arbitrary: c) (auto simp: increment_request_bump increment_request_ok)

text \<open>
  The collector does not depend on the order in which the sessions obtained the mutex: two runs
  that make the same calls, as multisets, leave equal collectors.
\<close>

theorem collector_order_irrelevant:
  assumes "collector_ok c" and "mset es = mset es'"
  shows "record_all es c = record_all es' c"
proof -
  let ?key = "\<lambda>(u, code). (u, map_status_to_string code)"
  let ?run = "foldl (\<lambda>m e. smap_modify [] (bump (snd e)) (fst e) m) (status_map c)"
  note ok = collector_okD [OF assms(1)]
  have at: "mset (map snd (filter (\<lambda>e. fst e = u) (map ?key es))) =
      mset (map snd (filter (\<lambda>e. fst e = u) (map ?key es')))" for u
    by (simp only: mset_map mset_filter assms(2))
  have nil: "filter (\<lambda>e. fst e = u) (map ?key es) = [] \<longleftrightarrow>
      filter (\<lambda>e. fst e = u) (map ?key es') = []" for u
    using at [of u] by (metis map_is_Nil_conv mset_zero_iff)
  have "smap_find (?run (map ?key es)) u = smap_find (?run (map ?key es')) u" for u
    unfolding smap.find_group [OF ok(1)] Let_def
    by (simp only: map_is_Nil_conv nil [of u] bump_runs_agree [OF ok(2) at])
  then have "?run (map ?key es) = ?run (map ?key es')"
    by (intro smap_eqI smap.ok_group ok(1) ext)
  then have "status_map (record_all es c) = status_map (record_all es' c)"
    by (simp add: status_map_record_all [OF assms(1)])
  then show ?thesis
    by (intro collector.equality) simp_all
qed

theorem collector_order_irrelevant_witness:
  "record_all [(''/b'', ok), (''/a'', not_found), (''/a'', ok)] new_collector =
   record_all [(''/a'', ok), (''/b'', ok), (''/a'', not_found)] new_collector"
  by (rule collector_order_irrelevant) simp_all

end
