(* ===== verification/World.thy ===== *)
theory World
  imports Request_Handler Data_Collector Config
begin

text \<open>
  The state the handlers share: the data collector, the files the process can open, the clock,
  a counter that stands for the system's source of random bytes, and the user database (\<open>'db\<close>, kept
  by the SQLite library).  Also what several handlers
  do with it: reading a file (the loop over a 512 byte buffer of
  \<open>src/static_request_handler.cc\<close> and \<open>src/login_request_handler.cc\<close>) and reading an argument of
  a configuration block.
\<close>

record 'db world =
  w_collector :: collector
  w_files :: "string \<Rightarrow> string option"
  w_now :: int
  w_entropy :: nat
  w_db :: 'db

definition world_ok :: "'db world \<Rightarrow> bool" where
  "world_ok w \<longleftrightarrow> collector_ok (w_collector w)"

text \<open>A world without files, for concrete runs.\<close>

definition quiet_world :: "unit world" where
  "quiet_world = \<lparr>w_collector = new_collector, w_files = (\<lambda>_. None), w_now = 0, w_entropy = 0, w_db = ()\<rparr>"

section \<open>Files\<close>

text \<open>
  \<open>std::ifstream is(path.c_str())\<close>: the system call sees the path up to its first NUL.  A stream
  that did not open is \<open>None\<close>.
\<close>

definition open_file :: "'db world \<Rightarrow> string \<Rightarrow> string option" where
  "open_file w path = w_files w (takeWhile (\<lambda>c. c \<noteq> NUL) path)"

text \<open>\<open>while (is.read(buf, sizeof(buf)).gcount() > 0) body.append(buf, is.gcount())\<close>\<close>

function read_blocks :: "string \<Rightarrow> string \<Rightarrow> string" where
  "read_blocks body stream =
     (let buf = take 512 stream in
      if 0 < length buf then read_blocks (body @ buf) (drop 512 stream) else body)"
  by pat_completeness auto

termination by (relation "measure (\<lambda>(body, stream). length stream)") auto

declare read_blocks.simps [simp del]

lemma read_blocks_all [simp]: "read_blocks body stream = body @ stream"
proof (induction body stream rule: read_blocks.induct)
  case (1 body stream)
  show ?case
  proof (cases "stream = []")
    case True
    then show ?thesis by (subst read_blocks.simps) simp
  next
    case False
    then have "read_blocks body stream = read_blocks (body @ take 512 stream) (drop 512 stream)"
      by (simp add: read_blocks.simps [of body stream])
    also have "\<dots> = (body @ take 512 stream) @ drop 512 stream"
      using False by (intro "1.IH") auto
    finally show ?thesis by simp
  qed
qed

definition file_response :: "string \<Rightarrow> string \<Rightarrow> response" where
  "file_response media stream =
     (let response = empty_response\<lparr>rsp_code := ok, rsp_body := read_blocks [] stream\<rparr>;
          content_length = to_string (length (rsp_body response))
      in set_header ''Content-Type'' media (set_header ''Content-Length'' content_length response))"

lemma file_response_simps [simp]:
  "rsp_code (file_response m s) = ok" "rsp_body (file_response m s) = s"
  "smap_find (rsp_headers (file_response m s)) ''Content-Type'' = Some m"
  by (simp_all add: file_response_def Let_def)

lemma file_response_framed [simp]: "framed (file_response m s)"
  by (simp add: framed_def file_response_def Let_def)

section \<open>Arguments of a block\<close>

text \<open>
  The loop of the \<open>Init\<close> functions: the token after the last statement that has the keyword.
  When the keyword is the last token of its statement the iterator points at the end.
\<close>

fun find_argument :: "string \<Rightarrow> string \<Rightarrow> config \<Rightarrow> string outcome" where
  "find_argument k found [] = Inr found"
| "find_argument k found (Statement ts block # ss) =
     (let i = token_index k ts in
      if i \<noteq> length ts
      then and_then (token_at ts (i + 1)) (\<lambda>t. find_argument k t ss)
      else find_argument k found ss)"

end
