(* ===== verification/Accounts.thy ===== *)
theory Accounts
  imports World
begin

text \<open>
  Passwords and the user table (\<open>src/password.cc\<close>, \<open>include/bcrypt/BCrypt.hpp\<close>,
  \<open>src/database.cc\<close>).  The C functions of the bcrypt and SQLite libraries are parameters; what
  the properties need of them is collected in \<open>bcrypt_law\<close> and \<open>sqlite_law\<close>.
\<close>

section \<open>Passwords\<close>

text \<open>
  \<open>gensalt\<close> turns random bytes and a workload into a salt, \<open>hashpw\<close> hashes a C string; \<open>None\<close>
  stands for a result code other than 0.  \<open>checkpw\<close> returns the result code itself.
\<close>

record bcrypt =
  bcrypt_gensalt :: "nat \<Rightarrow> nat \<Rightarrow> string option"
  bcrypt_hashpw :: "string \<Rightarrow> string \<Rightarrow> string option"
  bcrypt_checkpw :: "string \<Rightarrow> string \<Rightarrow> int"

abbreviation c_str :: "string \<Rightarrow> string" where
  "c_str s \<equiv> takeWhile (\<lambda>c. c \<noteq> NUL) s"

definition bcrypt_generateHash :: "bcrypt \<Rightarrow> nat \<Rightarrow> string \<Rightarrow> nat \<Rightarrow> string outcome" where
  "bcrypt_generateHash bc entropy password workload =
     (case bcrypt_gensalt bc entropy workload of
        None \<Rightarrow> Inl StdRuntimeError
      | Some salt \<Rightarrow>
          (case bcrypt_hashpw bc (c_str password) salt of
             None \<Rightarrow> Inl StdRuntimeError
           | Some hash \<Rightarrow> Inr hash))"

definition bcrypt_validatePassword :: "bcrypt \<Rightarrow> string \<Rightarrow> string \<Rightarrow> bool" where
  "bcrypt_validatePassword bc password hash \<longleftrightarrow> bcrypt_checkpw bc (c_str password) (c_str hash) = 0"

definition WORKLOAD :: nat where
  "WORKLOAD = 12"

definition generate_hash :: "bcrypt \<Rightarrow> string \<Rightarrow> 'db world \<Rightarrow> (string \<times> 'db world) outcome" where
  "generate_hash bc password w =
     and_then (bcrypt_generateHash bc (w_entropy w) password WORKLOAD)
       (\<lambda>hash. Inr (hash, w\<lparr>w_entropy := Suc (w_entropy w)\<rparr>))"

definition check_password :: "bcrypt \<Rightarrow> string \<Rightarrow> string \<Rightarrow> bool" where
  "check_password bc password hash =
     (if bcrypt_validatePassword bc password hash then True else False)"

section \<open>The database\<close>

text \<open>
  \<open>prepare\<close> gives the result code of \<open>sqlite3_prepare_v2\<close>; \<open>run\<close> steps a prepared statement with
  its bound texts to its end: the texts in the first column of the rows, the code of the last
  step, and the database after it.
\<close>

record 'db sqlite =
  sqlite_prepare :: "'db \<Rightarrow> string \<Rightarrow> int"
  sqlite_run :: "'db \<Rightarrow> string \<Rightarrow> string list \<Rightarrow> string list \<times> int \<times> 'db"

definition SQLITE_OK :: int where "SQLITE_OK = 0"
definition SQLITE_CONSTRAINT :: int where "SQLITE_CONSTRAINT = 19"
definition SQLITE_DONE :: int where "SQLITE_DONE = 101"

definition create_text :: string where
  "create_text = ''CREATE TABLE IF NOT EXISTS AUTH('' @ ''USER TEXT NOT NULL,'' @ ''PASS TEXT NOT NULL,'' @
     ''PRIMARY KEY (USER));''"

definition insert_text :: string where
  "insert_text = ''INSERT INTO AUTH(user,pass) '' @ ''VALUES (?1, ?2);''"

definition select_text :: string where
  "select_text = ''SELECT pass from AUTH WHERE user=?1''"

definition db_create :: "'db sqlite \<Rightarrow> 'db world \<Rightarrow> int \<times> 'db world" where
  "db_create sq w =
     (let rc = sqlite_prepare sq (w_db w) create_text in
      if rc \<noteq> SQLITE_OK then (rc, w)
      else case sqlite_run sq (w_db w) create_text [] of
        (rows, rc, db) \<Rightarrow> (if rc = SQLITE_DONE then SQLITE_OK else rc, w\<lparr>w_db := db\<rparr>))"

definition db_insert ::
    "bcrypt \<Rightarrow> 'db sqlite \<Rightarrow> string \<Rightarrow> string \<Rightarrow> 'db world \<Rightarrow> (int \<times> 'db world) outcome" where
  "db_insert bc sq user pass w =
     and_then (generate_hash bc pass w) (\<lambda>(hashed_password, w).
       let rc = sqlite_prepare sq (w_db w) insert_text in
       if rc \<noteq> SQLITE_OK then Inr (rc, w)
       else case sqlite_run sq (w_db w) insert_text [user, hashed_password] of
         (rows, rc, db) \<Rightarrow> Inr (rc, w\<lparr>w_db := db\<rparr>))"

text \<open>\<open>pass\<close> is written only when the statement was prepared; the last row wins.\<close>

definition db_select_pass :: "'db sqlite \<Rightarrow> string \<Rightarrow> string \<Rightarrow> 'db world \<Rightarrow> int \<times> string \<times> 'db world" where
  "db_select_pass sq user pass w =
     (let rc = sqlite_prepare sq (w_db w) select_text in
      if rc \<noteq> SQLITE_OK then (rc, pass, w)
      else case sqlite_run sq (w_db w) select_text [user] of
        (rows, rc, db) \<Rightarrow> (rc, foldl (\<lambda>data row. row) [] rows, w\<lparr>w_db := db\<rparr>))"

section \<open>What the libraries promise\<close>

text \<open>
  \<open>sqlite_law sq tab\<close>: the statements prepare, and on the table \<open>tab db\<close> (user to hash) the
  insertion of a new key succeeds with \<open>SQLITE_DONE\<close>, of a present key fails with
  \<open>SQLITE_CONSTRAINT\<close> and changes nothing, and the query returns the row of the key, if any.
\<close>

definition sqlite_law :: "'db sqlite \<Rightarrow> ('db \<Rightarrow> string \<Rightarrow> string option) \<Rightarrow> bool" where
  "sqlite_law sq tab \<longleftrightarrow>
     (\<forall>db. sqlite_prepare sq db insert_text = SQLITE_OK \<and> sqlite_prepare sq db select_text = SQLITE_OK \<and>
       (\<forall>u h rows rc db'. sqlite_run sq db insert_text [u, h] = (rows, rc, db') \<longrightarrow>
          (if tab db u = None then rc = SQLITE_DONE \<and> tab db' = (tab db)(u \<mapsto> h)
           else rc = SQLITE_CONSTRAINT \<and> tab db' = tab db)) \<and>
       (\<forall>u rows rc db'. sqlite_run sq db select_text [u] = (rows, rc, db') \<longrightarrow>
          tab db' = tab db \<and> rows = (case tab db u of None \<Rightarrow> [] | Some h \<Rightarrow> [h])))"

text \<open>
  \<open>bcrypt_law bc\<close>: hashing succeeds, the hash is a C string, a password matches its own hash, and
  nothing matches the empty string, which is no hash.
\<close>

definition bcrypt_law :: "bcrypt \<Rightarrow> bool" where
  "bcrypt_law bc \<longleftrightarrow>
     (\<forall>p entropy. \<exists>salt hash. bcrypt_gensalt bc entropy WORKLOAD = Some salt \<and>
        bcrypt_hashpw bc p salt = Some hash \<and> NUL \<notin> set hash \<and> bcrypt_checkpw bc p hash = 0) \<and>
     (\<forall>p. bcrypt_checkpw bc p [] \<noteq> 0)"

lemma generated_hash:
  assumes "bcrypt_law bc"
  shows "\<exists>h. generate_hash bc p w = Inr (h, w\<lparr>w_entropy := Suc (w_entropy w)\<rparr>) \<and> check_password bc p h"
proof -
  obtain salt hash where h: "bcrypt_gensalt bc (w_entropy w) WORKLOAD = Some salt"
    "bcrypt_hashpw bc (c_str p) salt = Some hash" "NUL \<notin> set hash" "bcrypt_checkpw bc (c_str p) hash = 0"
    using assms unfolding bcrypt_law_def by blast
  then show ?thesis
    by (simp add: takeWhile_clean generate_hash_def bcrypt_generateHash_def check_password_def bcrypt_validatePassword_def)
qed

lemma no_password_for_empty_hash: "bcrypt_law bc \<Longrightarrow> \<not> check_password bc p []"
  by (simp add: bcrypt_law_def check_password_def bcrypt_validatePassword_def)

lemma sqlite_prepared:
  "sqlite_law sq tab \<Longrightarrow> sqlite_prepare sq db insert_text = SQLITE_OK"
  "sqlite_law sq tab \<Longrightarrow> sqlite_prepare sq db select_text = SQLITE_OK"
  by (simp_all add: sqlite_law_def)

lemma sqlite_insert:
  "sqlite_law sq tab \<Longrightarrow> sqlite_run sq db insert_text [u, h] = (rows, rc, db') \<Longrightarrow>
     if tab db u = None then rc = SQLITE_DONE \<and> tab db' = (tab db)(u \<mapsto> h)
     else rc = SQLITE_CONSTRAINT \<and> tab db' = tab db"
  unfolding sqlite_law_def by blast

lemma sqlite_select:
  "sqlite_law sq tab \<Longrightarrow> sqlite_run sq db select_text [u] = (rows, rc, db') \<Longrightarrow>
     tab db' = tab db \<and> rows = (case tab db u of None \<Rightarrow> [] | Some h \<Rightarrow> [h])"
  unfolding sqlite_law_def by blast

lemma db_insert_result:
  assumes "bcrypt_law bc" and "sqlite_law sq tab"
  obtains h db' where "check_password bc pass h"
    and "db_insert bc sq user pass w =
      Inr (if tab (w_db w) user = None then SQLITE_DONE else SQLITE_CONSTRAINT,
           w\<lparr>w_entropy := Suc (w_entropy w), w_db := db'\<rparr>)"
    and "tab db' = (if tab (w_db w) user = None then (tab (w_db w))(user \<mapsto> h) else tab (w_db w))"
proof -
  obtain h where h: "generate_hash bc pass w = Inr (h, w\<lparr>w_entropy := Suc (w_entropy w)\<rparr>)"
    "check_password bc pass h" using generated_hash [OF assms(1)] by blast
  obtain rows rc db where run: "sqlite_run sq (w_db w) insert_text [user, h] = (rows, rc, db)"
    by (metis surj_pair)
  note law = sqlite_insert [OF assms(2) run]
  show ?thesis
    by (rule that [of h db])
      (use law h run in \<open>auto simp: db_insert_def sqlite_prepared [OF assms(2)] split: option.splits\<close>)
qed

lemma db_select_result:
  assumes "sqlite_law sq tab"
  obtains rc db' where "db_select_pass sq user [] w =
      (rc, case tab (w_db w) user of None \<Rightarrow> [] | Some h \<Rightarrow> h, w\<lparr>w_db := db'\<rparr>)"
    and "tab db' = tab (w_db w)"
proof -
  obtain rows rc db where run: "sqlite_run sq (w_db w) select_text [user] = (rows, rc, db)"
    by (metis surj_pair)
  note law = sqlite_select [OF assms run]
  show ?thesis
    by (rule that [of rc db])
      (use law run in \<open>auto simp: db_select_pass_def sqlite_prepared [OF assms] split: option.splits\<close>)
qed

section \<open>Libraries that keep the promises\<close>

text \<open>A table as a map, and a hash that is a tag and a fingerprint of the C string.\<close>

definition map_sqlite :: "(string \<Rightarrow> string option) sqlite" where
  "map_sqlite = \<lparr>sqlite_prepare = (\<lambda>db text. SQLITE_OK),
     sqlite_run = (\<lambda>db text args.
       if text = insert_text then
         (case db (hd args) of None \<Rightarrow> ([], SQLITE_DONE, db(hd args \<mapsto> hd (tl args)))
          | Some h \<Rightarrow> ([], SQLITE_CONSTRAINT, db))
       else (case db (hd args) of None \<Rightarrow> ([], SQLITE_DONE, db) | Some h \<Rightarrow> ([h], SQLITE_DONE, db)))\<rparr>"

lemma map_sqlite_law: "sqlite_law map_sqlite (\<lambda>db. db)"
proof -
  have "select_text \<noteq> insert_text" by code_simp
  then show ?thesis by (auto simp: sqlite_law_def map_sqlite_def split: option.splits)
qed

definition length_bcrypt :: bcrypt where
  "length_bcrypt = \<lparr>bcrypt_gensalt = (\<lambda>entropy workload. Some (to_string entropy)),
     bcrypt_hashpw = (\<lambda>p salt. Some (CHR ''$'' # to_string (length p))),
     bcrypt_checkpw = (\<lambda>p h. if h = CHR ''$'' # to_string (length p) then 0 else -1)\<rparr>"

lemma length_bcrypt_law: "bcrypt_law length_bcrypt"
proof -
  have "NUL \<notin> set (to_string n)" for n
    using to_string_digits [of n] by (auto simp: list_all_iff c_isdigit_iff)
  then show ?thesis by (simp add: bcrypt_law_def length_bcrypt_def)
qed

end
