(* ===== verification/Cookie.thy ===== *)
theory Cookie
  imports Foxy_Prelude
begin

text \<open>
  Session cookies (\<open>src/cookie.cc\<close>).  The tokens are made and checked by a token library, which is
  a parameter here: signing, decoding (\<open>None\<close> when \<open>jwt::decode\<close> throws) and verifying (false
  when \<open>verify\<close> throws), with a clock in seconds.  The theory \<open>Cookie_Tokens\<close> supplies it, on the
  model of jwt-cpp.
\<close>

record jwt_claims =
  issuer :: string
  issued_at :: int
  expires_at :: int
  username_claim :: string

record 'd jwt_library =
  jwt_sign :: "string \<Rightarrow> jwt_claims \<Rightarrow> string"
  jwt_decode :: "string \<Rightarrow> 'd option"
  jwt_verify :: "string \<Rightarrow> string \<Rightarrow> int \<Rightarrow> 'd \<Rightarrow> bool"

definition TIME_TO_LIVE :: int where
  "TIME_TO_LIVE = 2 * 60 * 60"

definition SECRET :: string where
  "SECRET = ''1uXX4cW#00&xCZPY@IQ*Lf#cAYj#45q~''"

definition cookie_claims :: "int \<Rightarrow> string \<Rightarrow> jwt_claims" where
  "cookie_claims now username = \<lparr>issuer = ''foxy-4'', issued_at = now,
     expires_at = now + TIME_TO_LIVE, username_claim = username\<rparr>"

definition generate_cookie :: "'d jwt_library \<Rightarrow> int \<Rightarrow> string \<Rightarrow> string" where
  "generate_cookie jwt now username = jwt_sign jwt SECRET (cookie_claims now username)"

definition verify_cookie :: "'d jwt_library \<Rightarrow> int \<Rightarrow> string \<Rightarrow> bool" where
  "verify_cookie jwt now cookie =
     (case jwt_decode jwt cookie of
        None \<Rightarrow> False
      | Some decoded \<Rightarrow> jwt_verify jwt SECRET ''foxy-4'' now decoded)"

text \<open>
  What jwt-cpp documents of a token signed with HS256: base64url parts joined by dots, so no
  separator of a Cookie header occurs in it; it decodes; and it verifies under the same secret
  exactly when the issuer is the expected one and the clock is between issue and expiry.
\<close>

definition cookie_separator :: "char \<Rightarrow> bool" where
  "cookie_separator c \<longleftrightarrow> c = CHR '';'' \<or> c = SP"

definition jwt_law :: "'d jwt_library \<Rightarrow> string \<Rightarrow> jwt_claims \<Rightarrow> bool" where
  "jwt_law jwt secret claims \<longleftrightarrow>
     list_all (\<lambda>c. \<not> cookie_separator c) (jwt_sign jwt secret claims) \<and>
     (\<exists>d. jwt_decode jwt (jwt_sign jwt secret claims) = Some d \<and>
       (\<forall>iss now. jwt_verify jwt secret iss now d \<longleftrightarrow>
          issuer claims = iss \<and> issued_at claims \<le> now \<and> now \<le> expires_at claims))"

lemma generated_cookie_verifies:
  assumes "jwt_law jwt SECRET (cookie_claims t username)"
  shows "verify_cookie jwt now (generate_cookie jwt t username) \<longleftrightarrow> t \<le> now \<and> now \<le> t + TIME_TO_LIVE"
proof -
  from assms obtain d where
    d: "jwt_decode jwt (generate_cookie jwt t username) = Some d" and
    v: "jwt_verify jwt SECRET ''foxy-4'' now d \<longleftrightarrow> issuer (cookie_claims t username) = ''foxy-4'' \<and>
      issued_at (cookie_claims t username) \<le> now \<and> now \<le> expires_at (cookie_claims t username)"
    unfolding jwt_law_def generate_cookie_def by blast
  show ?thesis
    by (simp only: verify_cookie_def d option.case v) (simp add: cookie_claims_def)
qed

lemma generated_cookie_clean:
  "jwt_law jwt SECRET (cookie_claims t username) \<Longrightarrow>
     list_all (\<lambda>c. \<not> cookie_separator c) (generate_cookie jwt t username)"
  by (simp add: jwt_law_def generate_cookie_def)

end
