(* ===== verification/Scanner.thy ===== *)
theory Scanner
  imports Foxy_Prelude
begin

text \<open>
  The contract of a scanner that is fed one character at a time and may stop early: the loop
  over the input is determined by the step, and what it does not consume is returned.  The
  request parser's loop satisfies it; what is proved here once is what a server relies on when
  a request arrives in several reads.
\<close>

locale scanner =
  fixes step :: "'s \<Rightarrow> 'c \<Rightarrow> 'r \<times> 's"
    and stops :: "'r \<Rightarrow> bool"
    and more :: 'r
    and run :: "'s \<Rightarrow> 'c list \<Rightarrow> ('r \<times> 'c list) \<times> 's"
  assumes run_Nil: "run s [] = ((more, []), s)"
    and run_Cons: "run s (c # cs) =
          (case step s c of (r, s') \<Rightarrow> if stops r then ((r, cs), s') else run s' cs)"
    and more_goes_on: "\<not> stops more"
begin

lemma run_append:
  "run s (xs @ ys) =
     (case run s xs of ((r, rest), s') \<Rightarrow>
        if stops r then ((r, rest @ ys), s') else run s' ys)"
  by (induction xs arbitrary: s) (auto simp: run_Nil run_Cons more_goes_on split: prod.splits)

lemma run_goes_on: "run s xs = ((r, rest), s') \<Longrightarrow> \<not> stops r \<Longrightarrow> r = more \<and> rest = []"
  by (induction xs arbitrary: s) (auto simp: run_Nil run_Cons split: prod.splits if_splits)

lemma run_consumes:
  assumes "run s xs = ((r, rest), s')"
  shows "\<exists>used. xs = used @ rest \<and> run s used = ((r, []), s')"
  using assms
proof (induction xs arbitrary: s)
  case Nil
  then show ?case by (auto simp: run_Nil)
next
  case (Cons c cs)
  obtain r1 s1 where step: "step s c = (r1, s1)" by force
  show ?case
  proof (cases "stops r1")
    case True
    with Cons.prems step have "c # cs = [c] @ rest \<and> run s [c] = ((r, []), s')"
      by (auto simp: run_Cons)
    then show ?thesis by blast
  next
    case False
    with Cons.prems step have "run s1 cs = ((r, rest), s')" by (simp add: run_Cons)
    then obtain used where "cs = used @ rest" "run s1 used = ((r, []), s')"
      using Cons.IH by blast
    with step False have "c # cs = (c # used) @ rest \<and> run s (c # used) = ((r, []), s')"
      by (simp add: run_Cons)
    then show ?thesis by blast
  qed
qed

text \<open>What follows the point where the scanner stopped has no influence on the result.\<close>

lemma run_local:
  assumes "run s (used @ rest) = ((r, rest), s')" and "stops r"
  shows "run s (used @ rest') = ((r, rest'), s')"
proof -
  from run_consumes [OF assms(1)] have "run s used = ((r, []), s')" by auto
  with assms(2) show ?thesis by (simp add: run_append)
qed

text \<open>Two reads in a row: the first ends undecided, the second goes on from its state.\<close>

lemma run_two_reads:
  "run s xs = ((more, []), s') \<Longrightarrow> run s (xs @ ys) = run s' ys"
  by (simp add: run_append more_goes_on)

lemma run_invariant:
  assumes "\<And>s c r s'. I s \<Longrightarrow> step s c = (r, s') \<Longrightarrow> I s'"
    and "I s" and "run s xs = ((r, rest), s')"
  shows "I s'"
  using assms(2,3)
proof (induction xs arbitrary: s)
  case Nil
  then show ?case by (simp add: run_Nil)
next
  case (Cons c cs)
  obtain r1 s1 where step: "step s c = (r1, s1)" by force
  with assms(1) Cons.prems(1) have "I s1" by blast
  with Cons step show ?case by (auto simp: run_Cons split: if_splits)
qed

lemma run_count:
  fixes count :: "'s \<Rightarrow> int"
  assumes "\<And>s c r s'. step s c = (r, s') \<Longrightarrow> count s' = count s + 1"
    and "run s xs = ((r, rest), s')"
  shows "count s' = count s + int (length xs) - int (length rest)"
  using assms(2)
proof (induction xs arbitrary: s)
  case Nil
  then show ?case by (simp add: run_Nil)
next
  case (Cons c cs)
  obtain r1 s1 where step: "step s c = (r1, s1)" by force
  with assms(1) have "count s1 = count s + 1" by blast
  with Cons step show ?case by (fastforce simp: run_Cons split: if_splits)
qed

end

end
