(* ===== verification/Request_Parser.thy ===== *)
theory Request_Parser
  imports Http_Request Scanner
begin

text \<open>
  The character-by-character HTTP request parser (\<open>src/request_parser.cc\<close>,
  \<open>include/request_parser.h\<close>): the character classes, the 20-state machine \<open>consume\<close>, the
  loop \<open>parse\<close> and \<open>parse_data\<close>, which also cuts the body out of the read buffer.
\<close>

section \<open>Character classes\<close>

text \<open>The functions take the \<open>int\<close> a \<open>char\<close> is promoted to.\<close>

definition is_char :: "int \<Rightarrow> bool" where
  "is_char c \<longleftrightarrow> 0 \<le> c \<and> c \<le> 127"

definition is_ctl :: "int \<Rightarrow> bool" where
  "is_ctl c \<longleftrightarrow> (0 \<le> c \<and> c \<le> 31) \<or> c = 127"

definition is_tspecial :: "int \<Rightarrow> bool" where
  "is_tspecial c \<longleftrightarrow> c \<in> set (map c_int
     [CHR ''('', CHR '')'', CHR ''<'', CHR ''>'', CHR ''@'', CHR '','', CHR '';'', CHR '':'',
      CHR 0x5C, DQUOTE, SLASH, CHR ''['', CHR '']'', CHR ''?'', CHR ''='', CHR ''{'', CHR ''}'',
      SP, HT])"

definition is_digit :: "int \<Rightarrow> bool" where
  "is_digit c \<longleftrightarrow> c_int (CHR ''0'') \<le> c \<and> c \<le> c_int (CHR ''9'')"

section \<open>The state machine\<close>

datatype parse_state =
    method_start | in_method | uri
  | http_version_h | http_version_t_1 | http_version_t_2 | http_version_p | http_version_slash
  | http_version_major_start | http_version_major | http_version_minor_start | http_version_minor
  | expecting_newline_1 | header_line_start | header_lws | header_name
  | space_before_header_value | header_value | expecting_newline_2 | expecting_newline_3

datatype result_type = good | bad | indeterminate | missing_data

text \<open>
  \<open>major\<close> and \<open>minor\<close> are not set by the constructor (\<open>None\<close>); they are written and never
  read.  \<open>n_char_parsed\<close> counts the characters of all calls: \<open>reset\<close> keeps it.
\<close>

record parser =
  pstate :: parse_state
  major :: "int option"
  minor :: "int option"
  method_helper :: string
  header_helper :: string
  n_char_parsed :: int

definition new_parser :: parser where
  "new_parser = \<lparr>pstate = method_start, major = None, minor = None, method_helper = [],
     header_helper = [], n_char_parsed = 0\<rparr>"

definition get_char_amount :: "parser \<Rightarrow> int" where
  "get_char_amount p = n_char_parsed p"

definition reset :: "parser \<Rightarrow> parser" where
  "reset p = p\<lparr>major := Some 0, minor := Some 0, method_helper := [], header_helper := [],
     pstate := method_start\<rparr>"

definition method_of :: "string \<Rightarrow> http_method" where
  "method_of s = (if s = ''POST'' then POST else if s = ''PUT'' then PUT
     else if s = ''GET'' then GET else UNKNOWN)"

definition not_token :: "char \<Rightarrow> bool" where
  "not_token c \<longleftrightarrow> \<not> is_char (c_int c) \<or> is_ctl (c_int c) \<or> is_tspecial (c_int c)"

type_synonym parse_step = "result_type \<times> parser \<times> request"

text \<open>A state that accepts one fixed character and moves on.\<close>

definition expect_char :: "char \<Rightarrow> parse_state \<Rightarrow> parser \<Rightarrow> request \<Rightarrow> char \<Rightarrow> parse_step" where
  "expect_char c next p r input =
     (if input = c then (indeterminate, p\<lparr>pstate := next\<rparr>, r) else (bad, p, r))"

definition push_version :: "char \<Rightarrow> request \<Rightarrow> request" where
  "push_version c r = r\<lparr>req_version := req_version r @ [c]\<rparr>"

text \<open>The states of the header section; any other state is the \<open>default\<close> of the switch.\<close>

definition consume_headers :: "parser \<Rightarrow> request \<Rightarrow> char \<Rightarrow> parse_step" where
  "consume_headers p r input = (case pstate p of
     header_line_start \<Rightarrow>
       if input = CR then (indeterminate, p\<lparr>pstate := expecting_newline_3\<rparr>, r)
       else if req_headers r \<noteq> [] \<and> (input = SP \<or> input = HT) then
         (indeterminate, p\<lparr>pstate := header_lws\<rparr>, r)
       else if not_token input then (bad, p, r)
       else (indeterminate, p\<lparr>header_helper := header_helper p @ [input], pstate := header_name\<rparr>, r)
   | header_lws \<Rightarrow>
       if input = CR then (indeterminate, p\<lparr>pstate := expecting_newline_2\<rparr>, r)
       else if input = SP \<or> input = HT then (indeterminate, p, r)
       else if is_ctl (c_int input) then (bad, p, r)
       else (indeterminate, p\<lparr>pstate := header_value, header_helper := header_helper p @ [input]\<rparr>, r)
   | header_name \<Rightarrow>
       if input = CHR '':'' then (indeterminate, p\<lparr>pstate := space_before_header_value\<rparr>, r)
       else if not_token input then (bad, p, r)
       else (indeterminate, p\<lparr>header_helper := header_helper p @ [input]\<rparr>, r)
   | space_before_header_value \<Rightarrow>
       if input = SP then
         (indeterminate, p\<lparr>pstate := header_value\<rparr>,
          r\<lparr>req_headers := smap_insert (header_helper p) [] (req_headers r)\<rparr>)
       else (bad, p, r)
   | header_value \<Rightarrow>
       if input = CR then
         (indeterminate, p\<lparr>header_helper := [], pstate := expecting_newline_2\<rparr>, r)
       else if is_ctl (c_int input) then (bad, p, r)
       else (indeterminate, p,
         r\<lparr>req_headers := smap_modify [] (\<lambda>v. v @ [input]) (header_helper p) (req_headers r)\<rparr>)
   | expecting_newline_2 \<Rightarrow> expect_char LF header_line_start p r input
   | expecting_newline_3 \<Rightarrow> (if input = LF then good else bad, p, r)
   | _ \<Rightarrow> (bad, p, r))"

text \<open>
  One character: the states of the request line are written out, the header states are
  \<open>consume_headers\<close>.
\<close>

definition consume :: "parser \<Rightarrow> request \<Rightarrow> char \<Rightarrow> parse_step" where
  "consume p r input = (case pstate p of
     method_start \<Rightarrow>
       if not_token input then (bad, p, r)
       else (indeterminate, p\<lparr>pstate := in_method, method_helper := method_helper p @ [input]\<rparr>, r)
   | in_method \<Rightarrow>
       if input = SP then
         (indeterminate, p\<lparr>pstate := uri\<rparr>, r\<lparr>req_method := method_of (method_helper p)\<rparr>)
       else if not_token input then (bad, p, r)
       else (indeterminate, p\<lparr>method_helper := method_helper p @ [input]\<rparr>, r)
   | uri \<Rightarrow>
       if input = SP then (indeterminate, p\<lparr>pstate := http_version_h\<rparr>, r)
       else if is_ctl (c_int input) then (bad, p, r)
       else (indeterminate, p, r\<lparr>req_uri := req_uri r @ [input]\<rparr>)
   | http_version_h \<Rightarrow> expect_char (CHR ''H'') http_version_t_1 p r input
   | http_version_t_1 \<Rightarrow> expect_char (CHR ''T'') http_version_t_2 p r input
   | http_version_t_2 \<Rightarrow> expect_char (CHR ''T'') http_version_p p r input
   | http_version_p \<Rightarrow> expect_char (CHR ''P'') http_version_slash p r input
   | http_version_slash \<Rightarrow>
       if input = SLASH then
         (indeterminate, p\<lparr>major := Some 0, minor := Some 0, pstate := http_version_major_start\<rparr>,
          r\<lparr>req_version := []\<rparr>)
       else (bad, p, r)
   | http_version_major_start \<Rightarrow>
       if is_digit (c_int input) then
         (indeterminate, p\<lparr>pstate := http_version_major\<rparr>, push_version input r)
       else (bad, p, r)
   | http_version_major \<Rightarrow>
       if input = CHR ''.'' then
         (indeterminate, p\<lparr>pstate := http_version_minor_start\<rparr>, push_version (CHR ''.'') r)
       else if is_digit (c_int input) then (indeterminate, p, push_version input r)
       else (bad, p, r)
   | http_version_minor_start \<Rightarrow>
       if is_digit (c_int input) then
         (indeterminate, p\<lparr>pstate := http_version_minor\<rparr>, push_version input r)
       else (bad, p, r)
   | http_version_minor \<Rightarrow>
       if input = CR then (indeterminate, p\<lparr>pstate := expecting_newline_1\<rparr>, r)
       else if is_digit (c_int input) then (indeterminate, p, push_version input r)
       else (bad, p, r)
   | expecting_newline_1 \<Rightarrow> expect_char LF header_line_start p r input
   | _ \<Rightarrow> consume_headers p r input)"

lemmas consume_defs = consume_def consume_headers_def

section \<open>The parse loop\<close>

text \<open>
  \<open>parse\<close> stops at the first \<open>good\<close> or \<open>bad\<close> and returns what is left of the input (the
  iterator of the source).
\<close>

fun parse :: "parser \<Rightarrow> request \<Rightarrow> char list \<Rightarrow> (result_type \<times> char list) \<times> parser \<times> request" where
  "parse p r [] = ((indeterminate, []), p, r)"
| "parse p r (c # cs) =
     (case consume p r c of (result, p1, r1) \<Rightarrow>
        let p2 = p1\<lparr>n_char_parsed := n_char_parsed p1 + 1\<rparr>
        in if result = good \<or> result = bad then ((result, cs), p2, r1) else parse p2 r1 cs)"

text \<open>
  \<open>parse_data\<close> gets the read buffer as memory \<open>data\<close> and the number of bytes received.  The
  comparison \<open>char_amount == strlen(data)\<close> and the subtraction
  \<open>data_helper.length() - content_length\<close> are made in \<open>size_t\<close>, 64 bits wide.
\<close>

type_synonym size_t = "64 word"

definition parse_data :: "parser \<Rightarrow> request \<Rightarrow> char list \<Rightarrow> nat \<Rightarrow> parse_step outcome" where
  "parse_data p r data bytes_transferred =
     (if length data < bytes_transferred then Inl Undefined
      else case parse p r (take bytes_transferred data) of ((result, _), p1, r1) \<Rightarrow>
        and_then (get_content_length r1) (\<lambda>(content_length, r2).
        and_then (c_string data) (\<lambda>data_helper.
          if content_length > 0 \<and>
             (of_int (get_char_amount p1) :: size_t) = of_nat (length data_helper)
          then Inr (missing_data, p1, r2)
          else and_then
            (substr data_helper
               (unat ((of_nat (length data_helper) :: size_t) - of_int content_length)))
            (\<lambda>body. Inr (result, p1, r2\<lparr>req_body := body\<rparr>)))))"

section \<open>The loop as a scanner\<close>

definition consume_counted :: "parser \<times> request \<Rightarrow> char \<Rightarrow> result_type \<times> parser \<times> request" where
  "consume_counted s c = (case s of (p, r) \<Rightarrow> case consume p r c of (result, p1, r1) \<Rightarrow>
     (result, p1\<lparr>n_char_parsed := n_char_parsed p1 + 1\<rparr>, r1))"

definition decided :: "result_type \<Rightarrow> bool" where
  "decided result \<longleftrightarrow> result = good \<or> result = bad"

lemma decided_simps [simp]:
  "decided good" "decided bad" "\<not> decided indeterminate" "\<not> decided missing_data"
  by (simp_all add: decided_def)

interpretation scan: scanner consume_counted decided indeterminate "\<lambda>(p, r). parse p r"
  by unfold_locales (auto simp: consume_counted_def decided_def Let_def split: prod.splits)

lemma consume_keeps_count: "consume p r c = (result, p', r') \<Longrightarrow> n_char_parsed p' = n_char_parsed p"
  by (cases "pstate p") (auto simp: consume_defs expect_char_def split: if_splits)

section \<open>Character classes of the grammar\<close>

abbreviation token_char :: "char \<Rightarrow> bool" where
  "token_char c \<equiv> \<not> not_token c"

definition text_char :: "char \<Rightarrow> bool" where
  "text_char c \<longleftrightarrow> \<not> is_ctl (c_int c)"

definition uri_char :: "char \<Rightarrow> bool" where
  "uri_char c \<longleftrightarrow> text_char c \<and> c \<noteq> SP"

lemma is_digit_c_int [simp]: "is_digit (c_int c) = c_isdigit c"
  by (auto simp: is_digit_def c_int_def c_isdigit_iff split: if_splits)
    (use nat_of_char_less_256 [of c] in linarith)

lemma class_consts [simp, char_class]:
  "not_token SP" "not_token CR" "not_token LF" "not_token HT" "not_token (CHR '':'')"
  "\<not> text_char CR" "\<not> text_char LF" "\<not> text_char HT" "text_char SP"
  "\<not> c_isdigit (CHR ''.'')" "\<not> c_isdigit CR"
  by (simp_all add: not_token_def is_char_def is_ctl_def is_tspecial_def text_char_def c_int_def c_isdigit_def)

lemma is_ctl_text [simp]: "is_ctl (c_int c) \<longleftrightarrow> \<not> text_char c"
  by (simp add: text_char_def)

section \<open>The grammar of a request\<close>

text \<open>
  A header line is a field, or a continuation line: white space and then, possibly, text that
  starts with a non-blank character.
\<close>

datatype header_line = Field string string | Fold string "(char \<times> string) option"

fun render_line :: "header_line \<Rightarrow> string" where
  "render_line (Field n v) = n @ '': '' @ v @ crlf"
| "render_line (Fold ws None) = ws @ crlf"
| "render_line (Fold ws (Some (c, v))) = ws @ c # v @ crlf"

fun wf_line :: "header_line \<Rightarrow> bool" where
  "wf_line (Field n v) \<longleftrightarrow> n \<noteq> [] \<and> list_all token_char n \<and> list_all text_char v"
| "wf_line (Fold ws x) \<longleftrightarrow> ws \<noteq> [] \<and> list_all (\<lambda>c. c = SP \<or> c = HT) ws \<and>
     (case x of None \<Rightarrow> True | Some (c, v) \<Rightarrow> uri_char c \<and> list_all text_char v)"

fun wf_lines :: "header_line list \<Rightarrow> bool" where
  "wf_lines (Fold ws x # ls) \<longleftrightarrow> False"
| "wf_lines ls \<longleftrightarrow> list_all wf_line ls"

text \<open>What a line does to the header map.\<close>

definition append_value :: "string \<Rightarrow> string \<Rightarrow> string smap \<Rightarrow> string smap" where
  "append_value k v hs = (if v = [] then hs else smap_modify [] (\<lambda>x. x @ v) k hs)"

fun apply_line :: "string smap \<Rightarrow> header_line \<Rightarrow> string smap" where
  "apply_line hs (Field n v) = smap_modify [] (\<lambda>x. x @ v) n hs"
| "apply_line hs (Fold ws None) = hs"
| "apply_line hs (Fold ws (Some (c, v))) = append_value [c] v hs"

lemma smap_modify_twice:
  "smap_modify d f k (smap_modify d g k m) = smap_modify d (\<lambda>x. f (g x)) k m"
  by (induction d g k m rule: smap_modify.induct) auto

lemma append_value_Nil [simp]: "append_value k [] hs = hs"
  by (simp add: append_value_def)

lemma append_value_Cons:
  "append_value k v (smap_modify [] (\<lambda>x. x @ [c]) k hs) = append_value k (c # v) hs"
  by (simp add: append_value_def smap_modify_twice)

lemma append_value_insert:
  "append_value k v (smap_insert k [] hs) = smap_modify [] (\<lambda>x. x @ v) k hs"
  by (simp add: append_value_def smap_insert_def smap_modify_twice)

section \<open>Every text of the grammar is accepted\<close>

lemma parse_method:
  "pstate p = in_method \<Longrightarrow> list_all token_char m \<Longrightarrow>
   parse p r (m @ SP # ys) =
     parse (p\<lparr>pstate := uri, method_helper := method_helper p @ m,
              n_char_parsed := n_char_parsed p + int (length m) + 1\<rparr>)
       (r\<lparr>req_method := method_of (method_helper p @ m)\<rparr>) ys"
proof (induction m arbitrary: p)
  case Nil
  then show ?case by (simp add: consume_defs)
next
  case (Cons c m)
  then have "c \<noteq> SP" by auto
  with Cons show ?case by (simp add: consume_defs algebra_simps)
qed

lemma parse_uri:
  "pstate p = uri \<Longrightarrow> list_all uri_char u \<Longrightarrow>
   parse p r (u @ SP # ys) =
     parse (p\<lparr>pstate := http_version_h, n_char_parsed := n_char_parsed p + int (length u) + 1\<rparr>)
       (r\<lparr>req_uri := req_uri r @ u\<rparr>) ys"
proof (induction u arbitrary: p r)
  case Nil
  then show ?case by (simp add: consume_defs)
next
  case (Cons c m)
  then show ?case by (simp add: consume_defs uri_char_def algebra_simps)
qed

lemma parse_major:
  "pstate p = http_version_major \<Longrightarrow> list_all c_isdigit a \<Longrightarrow>
   parse p r (a @ CHR ''.'' # ys) =
     parse (p\<lparr>pstate := http_version_minor_start, n_char_parsed := n_char_parsed p + int (length a) + 1\<rparr>)
       (r\<lparr>req_version := req_version r @ a @ ''.''\<rparr>) ys"
proof (induction a arbitrary: p r)
  case Nil
  then show ?case by (simp add: consume_defs push_version_def)
next
  case (Cons c m)
  then have "c \<noteq> CHR ''.''" by auto
  with Cons show ?case by (simp add: consume_defs push_version_def algebra_simps)
qed

lemma parse_minor:
  "pstate p = http_version_minor \<Longrightarrow> list_all c_isdigit b \<Longrightarrow>
   parse p r (b @ CR # LF # ys) =
     parse (p\<lparr>pstate := header_line_start, n_char_parsed := n_char_parsed p + int (length b) + 2\<rparr>)
       (r\<lparr>req_version := req_version r @ b\<rparr>) ys"
proof (induction b arbitrary: p r)
  case Nil
  then show ?case by (cases p) (simp add: consume_defs expect_char_def algebra_simps)
next
  case (Cons c m)
  then have "c \<noteq> CR" by auto
  with Cons show ?case by (simp add: consume_defs push_version_def algebra_simps)
qed

lemma parse_version:
  assumes "pstate p = http_version_h" and "list_all c_isdigit a" "a \<noteq> []"
    and "list_all c_isdigit b" "b \<noteq> []"
  shows "parse p r (''HTTP/'' @ a @ CHR ''.'' # b @ CR # LF # ys) =
     parse (p\<lparr>pstate := header_line_start, major := Some 0, minor := Some 0,
              n_char_parsed := n_char_parsed p + int (length a) + int (length b) + 8\<rparr>)
       (r\<lparr>req_version := a @ CHR ''.'' # b\<rparr>) ys"
proof -
  obtain d a' where a: "a = d # a'" using assms by (cases a) auto
  obtain e b' where b: "b = e # b'" using assms by (cases b) auto
  show ?thesis
    using assms
    by (cases p) (simp add: a b consume_defs expect_char_def push_version_def parse_major parse_minor algebra_simps)
qed

lemma parse_name:
  "pstate p = header_name \<Longrightarrow> list_all token_char n \<Longrightarrow>
   parse p r (n @ CHR '':'' # ys) =
     parse (p\<lparr>pstate := space_before_header_value, header_helper := header_helper p @ n,
              n_char_parsed := n_char_parsed p + int (length n) + 1\<rparr>) r ys"
proof (induction n arbitrary: p)
  case Nil
  then show ?case by (simp add: consume_defs)
next
  case (Cons c m)
  then have "c \<noteq> CHR '':''" by auto
  with Cons show ?case by (simp add: consume_defs algebra_simps)
qed

lemma parse_value:
  "pstate p = header_value \<Longrightarrow> list_all text_char v \<Longrightarrow>
   parse p r (v @ CR # LF # ys) =
     parse (p\<lparr>pstate := header_line_start, header_helper := [],
              n_char_parsed := n_char_parsed p + int (length v) + 2\<rparr>)
       (r\<lparr>req_headers := append_value (header_helper p) v (req_headers r)\<rparr>) ys"
proof (induction v arbitrary: p r)
  case Nil
  then show ?case by (cases p) (simp add: consume_defs expect_char_def algebra_simps)
next
  case (Cons c m)
  then have "c \<noteq> CR" by auto
  with Cons show ?case by (simp add: consume_defs append_value_Cons algebra_simps)
qed

lemma parse_blanks:
  "pstate p = header_lws \<Longrightarrow> list_all (\<lambda>c. c = SP \<or> c = HT) ws \<Longrightarrow>
   parse p r (ws @ ys) = parse (p\<lparr>n_char_parsed := n_char_parsed p + int (length ws)\<rparr>) r ys"
  by (induction ws arbitrary: p) (auto simp: consume_defs algebra_simps)

lemma parse_line:
  assumes "pstate p = header_line_start" and "header_helper p = []" and "wf_line l"
    and "case l of Fold ws x \<Rightarrow> req_headers r \<noteq> [] | _ \<Rightarrow> True"
  shows "parse p r (render_line l @ ys) =
     parse (p\<lparr>n_char_parsed := n_char_parsed p + int (length (render_line l))\<rparr>)
       (r\<lparr>req_headers := apply_line (req_headers r) l\<rparr>) ys"
proof (cases l)
  case (Field n v)
  with assms obtain c n' where n: "n = c # n'" by (cases n) auto
  with assms Field have "c \<noteq> CR" "c \<noteq> SP" "c \<noteq> HT" by auto
  with assms Field n show ?thesis
    by (cases p) (simp add: consume_defs parse_name parse_value append_value_insert algebra_simps)
next
  case (Fold ws x)
  with assms obtain w ws' where ws: "ws = w # ws'" by (cases ws) auto
  show ?thesis
  proof (cases x)
    case None
    with assms Fold ws show ?thesis
      by (cases p) (auto simp add: consume_defs parse_blanks expect_char_def algebra_simps)
  next
    case (Some cv)
    obtain c v where cv: "cv = (c, v)" by force
    with assms Fold Some have "c \<noteq> CR" "c \<noteq> SP" "c \<noteq> HT" by (auto simp: uri_char_def)
    with assms Fold ws Some cv show ?thesis
      by (cases p) (auto simp add: consume_defs parse_blanks parse_value uri_char_def algebra_simps)
  qed
qed


lemma parse_lines:
  assumes "pstate p = header_line_start" and "header_helper p = []"
    and "list_all wf_line ls" and "req_headers r = [] \<longrightarrow> wf_lines ls"
  shows "parse p r (concat (map render_line ls) @ ys) =
     parse (p\<lparr>n_char_parsed := n_char_parsed p + int (length (concat (map render_line ls)))\<rparr>)
       (r\<lparr>req_headers := foldl apply_line (req_headers r) ls\<rparr>) ys"
  using assms
proof (induction ls arbitrary: p r)
  case Nil
  then show ?case by simp
next
  case (Cons l ls)
  have nonempty: "apply_line (req_headers r) l \<noteq> []"
    using Cons.prems by (cases l rule: render_line.cases) (auto simp: append_value_def)
  have "case l of Fold ws x \<Rightarrow> req_headers r \<noteq> [] | _ \<Rightarrow> True"
    using Cons.prems by (cases l) auto
  with Cons.prems have "parse p r (render_line l @ concat (map render_line ls) @ ys) =
     parse (p\<lparr>n_char_parsed := n_char_parsed p + int (length (render_line l))\<rparr>)
       (r\<lparr>req_headers := apply_line (req_headers r) l\<rparr>) (concat (map render_line ls) @ ys)"
    by (intro parse_line) auto
  then show ?case
    using Cons nonempty by (simp add: add.assoc)
qed

record request_text =
  rt_method :: string
  rt_uri :: string
  rt_major :: string
  rt_minor :: string
  rt_lines :: "header_line list"

definition wf_text :: "request_text \<Rightarrow> bool" where
  "wf_text t \<longleftrightarrow> rt_method t \<noteq> [] \<and> list_all token_char (rt_method t) \<and> list_all uri_char (rt_uri t) \<and>
     rt_major t \<noteq> [] \<and> list_all c_isdigit (rt_major t) \<and>
     rt_minor t \<noteq> [] \<and> list_all c_isdigit (rt_minor t) \<and> wf_lines (rt_lines t)"

definition render_text :: "request_text \<Rightarrow> string" where
  "render_text t = rt_method t @ SP # rt_uri t @ SP # ''HTTP/'' @ rt_major t @ CHR ''.'' # rt_minor t @
     crlf @ concat (map render_line (rt_lines t)) @ crlf"

definition denote :: "request_text \<Rightarrow> request" where
  "denote t = \<lparr>req_method = method_of (rt_method t), req_uri = rt_uri t,
     req_version = rt_major t @ CHR ''.'' # rt_minor t,
     req_headers = foldl apply_line [] (rt_lines t), req_body = []\<rparr>"

text \<open>A parser that has been constructed or reset, whatever it has counted so far.\<close>

definition ready :: "parser \<Rightarrow> bool" where
  "ready p \<longleftrightarrow> pstate p = method_start \<and> method_helper p = [] \<and> header_helper p = []"

definition parsed :: "parser \<Rightarrow> request_text \<Rightarrow> parser" where
  "parsed p t = p\<lparr>pstate := expecting_newline_3, major := Some 0, minor := Some 0,
     method_helper := rt_method t,
     n_char_parsed := n_char_parsed p + int (length (render_text t))\<rparr>"

lemma ready_new [simp]: "ready new_parser"
  by (simp add: ready_def new_parser_def)

lemma ready_reset [simp]: "ready (reset p)"
  by (simp add: ready_def reset_def)

lemma wf_lines_all: "wf_lines ls \<Longrightarrow> list_all wf_line ls"
  by (cases ls rule: wf_lines.cases) auto

definition render_head :: "request_text \<Rightarrow> string" where
  "render_head t = rt_method t @ SP # rt_uri t @ SP # ''HTTP/'' @ rt_major t @ CHR ''.'' # rt_minor t @ crlf"

definition after_head :: "parser \<Rightarrow> request_text \<Rightarrow> parser" where
  "after_head p t = p\<lparr>pstate := header_line_start, major := Some 0, minor := Some 0,
     method_helper := rt_method t, n_char_parsed := n_char_parsed p + int (length (render_head t))\<rparr>"

lemma parse_head:
  assumes "ready p" and "wf_text t"
  shows "parse p empty_request (render_head t @ rest) =
     parse (after_head p t) ((denote t)\<lparr>req_headers := []\<rparr>) rest"
proof -
  obtain c m where m: "rt_method t = c # m" "token_char c" "list_all token_char m"
    using assms by (cases "rt_method t") (auto simp: wf_text_def)
  define n1 where "n1 = n_char_parsed p + 1"
  define n2 where "n2 = n1 + int (length m) + 1"
  define n3 where "n3 = n2 + int (length (rt_uri t)) + 1"
  define q where "q st n = p\<lparr>pstate := st, method_helper := c # m, n_char_parsed := n\<rparr>" for st n
  have "parse p empty_request (render_head t @ rest) =
      parse (p\<lparr>pstate := in_method, method_helper := [c], n_char_parsed := n1\<rparr>) empty_request
        (m @ SP # rt_uri t @ SP # ''HTTP/'' @ rt_major t @ CHR ''.'' # rt_minor t @ CR # LF # rest)"
    using assms m by (simp add: render_head_def ready_def consume_defs n1_def)
  also have "\<dots> = parse (q uri n2) (empty_request\<lparr>req_method := method_of (c # m)\<rparr>)
        (rt_uri t @ SP # ''HTTP/'' @ rt_major t @ CHR ''.'' # rt_minor t @ CR # LF # rest)"
    using m by (cases p, subst parse_method) (simp_all add: q_def n2_def del: parse.simps)
  also have "\<dots> = parse (q http_version_h n3)
        (empty_request\<lparr>req_method := method_of (c # m), req_uri := rt_uri t\<rparr>)
        (''HTTP/'' @ rt_major t @ CHR ''.'' # rt_minor t @ CR # LF # rest)"
    using assms by (cases p, subst parse_uri) (simp_all add: q_def n3_def wf_text_def del: parse.simps)
  also have "\<dots> = parse (after_head p t) ((denote t)\<lparr>req_headers := []\<rparr>) rest"
    using assms m
    by (cases p, subst parse_version)
      (simp_all add: q_def n1_def n2_def n3_def after_head_def render_head_def wf_text_def denote_def
        empty_request_def algebra_simps del: parse.simps)
  finally show ?thesis .
qed

lemma after_head_simps [simp]:
  "pstate (after_head p t) = header_line_start" "header_helper (after_head p t) = header_helper p"
  by (simp_all add: after_head_def)

lemma render_text_head:
  "render_text t = render_head t @ concat (map render_line (rt_lines t)) @ crlf"
  by (simp add: render_text_def render_head_def)

lemma parse_text:
  assumes "ready p" and "wf_text t"
  shows "parse p empty_request (render_text t @ rest) = ((good, rest), parsed p t, denote t)"
proof -
  have "parse p empty_request (render_text t @ rest) =
      parse (after_head p t) ((denote t)\<lparr>req_headers := []\<rparr>)
        (concat (map render_line (rt_lines t)) @ crlf @ rest)"
    using parse_head [OF assms] by (simp add: render_text_head)
  also have "\<dots> = parse ((after_head p t)\<lparr>n_char_parsed := n_char_parsed (after_head p t) +
          int (length (concat (map render_line (rt_lines t))))\<rparr>) (denote t) (crlf @ rest)"
    by (subst parse_lines)
      (use assms in \<open>simp_all add: ready_def wf_text_def wf_lines_all denote_def del: parse.simps\<close>)
  also have "\<dots> = ((good, rest), parsed p t, denote t)"
    by (simp add: consume_defs after_head_def parsed_def render_text_head)
  finally show ?thesis .
qed

section \<open>Every accepted text is of the grammar\<close>

definition accepts :: "parser \<Rightarrow> request \<Rightarrow> string \<Rightarrow> bool" where
  "accepts p r xs \<longleftrightarrow> fst (fst (parse p r xs)) = good"

lemma accepts_Nil [simp]: "\<not> accepts p r []"
  by (simp add: accepts_def)

lemma accepts_Cons:
  "accepts p r (c # cs) \<longleftrightarrow>
     (case consume p r c of (result, p1, r1) \<Rightarrow>
        result = good \<or>
        result \<noteq> bad \<and> accepts (p1\<lparr>n_char_parsed := n_char_parsed p1 + 1\<rparr>) r1 cs)"
  by (auto simp: accepts_def Let_def split: prod.splits)

definition accepts_at :: "parse_state \<Rightarrow> string \<Rightarrow> bool" where
  "accepts_at st xs \<longleftrightarrow> (\<exists>p r. pstate p = st \<and> accepts p r xs)"

lemma accepts_atI: "pstate p = st \<Longrightarrow> accepts p r xs \<Longrightarrow> accepts_at st xs"
  by (auto simp: accepts_at_def)

lemma accepts_at_Nil [simp]: "\<not> accepts_at st []"
  by (simp add: accepts_at_def)

text \<open>
  A state that loops on the characters of a class \<open>ok\<close> until a delimiter \<open>d\<close> arrives: an
  accepted input has the delimiter, and only characters of the class before it.
\<close>

lemma accepts_loop:
  assumes step: "\<And>p r c result p1 r1. \<lbrakk> pstate p = st; c \<noteq> d; consume p r c = (result, p1, r1) \<rbrakk> \<Longrightarrow>
       result = bad \<or> ok c \<and> result \<noteq> good \<and> pstate p1 = st"
    and "accepts_at st xs"
  shows "\<exists>m ys. xs = m @ d # ys \<and> list_all ok m \<and> accepts_at st (d # ys)"
  using assms(2)
proof (induction xs)
  case Nil
  then show ?case by simp
next
  case (Cons c cs)
  then obtain p r where p: "pstate p = st" "accepts p r (c # cs)" by (auto simp: accepts_at_def)
  show ?case
  proof (cases "c = d")
    case True
    with Cons.prems have "c # cs = [] @ d # cs \<and> list_all ok [] \<and> accepts_at st (d # cs)" by simp
    then show ?thesis by blast
  next
    case False
    obtain result p1 r1 where consume: "consume p r c = (result, p1, r1)" by (cases "consume p r c")
    with p step [OF _ False consume]
    have ok: "ok c" "pstate p1 = st"
      and "accepts (p1\<lparr>n_char_parsed := n_char_parsed p1 + 1\<rparr>) r1 cs"
      by (auto simp: accepts_Cons)
    then have "accepts_at st cs" by (intro accepts_atI) auto
    then obtain m ys where "cs = m @ d # ys" "list_all ok m" "accepts_at st (d # ys)"
      using Cons.IH by blast
    with ok have "c # cs = (c # m) @ d # ys \<and> list_all ok (c # m) \<and> accepts_at st (d # ys)" by simp
    then show ?thesis by blast
  qed
qed

text \<open>The states that leave on one character.\<close>

lemma accepts_next:
  assumes step: "\<And>p r result p1 r1. \<lbrakk> pstate p = st; consume p r c = (result, p1, r1) \<rbrakk> \<Longrightarrow>
       result = bad \<or> result \<noteq> good \<and> pstate p1 = st'"
    and "accepts_at st (c # cs)"
  shows "accepts_at st' cs"
proof -
  obtain p r where p: "pstate p = st" "accepts p r (c # cs)" using assms(2) by (auto simp: accepts_at_def)
  obtain result p1 r1 where consume: "consume p r c = (result, p1, r1)" by (cases "consume p r c")
  with p step [OF _ consume] show ?thesis
    by (intro accepts_atI [of "p1\<lparr>n_char_parsed := n_char_parsed p1 + 1\<rparr>" _ r1])
      (auto simp: accepts_Cons)
qed

lemma accepts_expect:
  assumes "\<And>p r c. pstate p = st \<Longrightarrow> consume p r c = expect_char d st' p r c"
    and "accepts_at st xs"
  shows "\<exists>ys. xs = d # ys \<and> accepts_at st' ys"
proof -
  obtain p r where p: "pstate p = st" "accepts p r xs" using assms(2) by (auto simp: accepts_at_def)
  with assms(1) obtain ys where ys: "xs = d # ys"
    by (cases xs) (auto simp: accepts_Cons expect_char_def split: if_splits)
  have "accepts_at st' ys"
    by (rule accepts_next [where st = st and c = d])
      (use assms ys in \<open>auto simp: expect_char_def\<close>)
  with ys show ?thesis by blast
qed

lemma split_method:
  "accepts_at in_method xs \<Longrightarrow>
     \<exists>m ys. xs = m @ SP # ys \<and> list_all token_char m \<and> accepts_at in_method (SP # ys)"
  by (rule accepts_loop) (auto simp: consume_defs split: if_splits)

lemma split_uri:
  "accepts_at uri xs \<Longrightarrow>
     \<exists>u ys. xs = u @ SP # ys \<and> list_all uri_char u \<and> accepts_at uri (SP # ys)"
  by (rule accepts_loop) (auto simp: consume_defs uri_char_def split: if_splits)

lemma split_major:
  "accepts_at http_version_major xs \<Longrightarrow>
     \<exists>a ys. xs = a @ CHR ''.'' # ys \<and> list_all c_isdigit a \<and>
       accepts_at http_version_major (CHR ''.'' # ys)"
  by (rule accepts_loop) (auto simp: consume_defs split: if_splits)

lemma split_minor:
  "accepts_at http_version_minor xs \<Longrightarrow>
     \<exists>b ys. xs = b @ CR # ys \<and> list_all c_isdigit b \<and> accepts_at http_version_minor (CR # ys)"
  by (rule accepts_loop) (auto simp: consume_defs split: if_splits)

lemma split_name:
  "accepts_at header_name xs \<Longrightarrow>
     \<exists>n ys. xs = n @ CHR '':'' # ys \<and> list_all token_char n \<and> accepts_at header_name (CHR '':'' # ys)"
  by (rule accepts_loop) (auto simp: consume_defs split: if_splits)

lemma split_value:
  assumes "accepts_at header_value xs"
  shows "\<exists>v ys. xs = v @ crlf @ ys \<and> list_all text_char v"
proof -
  have "\<exists>v ys. xs = v @ CR # ys \<and> list_all text_char v \<and> accepts_at header_value (CR # ys)"
    by (rule accepts_loop [OF _ assms]) (auto simp: consume_defs split: if_splits)
  then obtain v ys where xs: "xs = v @ CR # ys" "list_all text_char v" "accepts_at header_value (CR # ys)"
    by blast
  have "accepts_at expecting_newline_2 ys"
    by (rule accepts_next [OF _ xs(3)]) (auto simp: consume_defs split: if_splits)
  then have "\<exists>zs. ys = LF # zs \<and> accepts_at header_line_start zs"
    by (rule accepts_expect [rotated]) (simp add: consume_defs)
  with xs show ?thesis by auto
qed

lemma split_version:
  assumes "accepts_at http_version_h xs"
  shows "\<exists>a b ys. xs = ''HTTP/'' @ a @ CHR ''.'' # b @ CR # LF # ys \<and>
           a \<noteq> [] \<and> list_all c_isdigit a \<and> b \<noteq> [] \<and> list_all c_isdigit b"
proof -
  obtain xs1 where 1: "xs = CHR ''H'' # xs1" "accepts_at http_version_t_1 xs1"
    using accepts_expect [OF _ assms, where d = "CHR ''H''" and st' = http_version_t_1]
    by (auto simp: consume_defs)
  obtain xs2 where 2: "xs1 = CHR ''T'' # xs2" "accepts_at http_version_t_2 xs2"
    using accepts_expect [OF _ 1(2), where d = "CHR ''T''" and st' = http_version_t_2]
    by (auto simp: consume_defs)
  obtain xs3 where 3: "xs2 = CHR ''T'' # xs3" "accepts_at http_version_p xs3"
    using accepts_expect [OF _ 2(2), where d = "CHR ''T''" and st' = http_version_p]
    by (auto simp: consume_defs)
  obtain xs4 where 4: "xs3 = CHR ''P'' # xs4" "accepts_at http_version_slash xs4"
    using accepts_expect [OF _ 3(2), where d = "CHR ''P''" and st' = http_version_slash]
    by (auto simp: consume_defs)
  obtain xs5 where 5: "xs4 = SLASH # xs5"
    using 4(2) by (cases xs4) (auto simp: accepts_at_def accepts_Cons consume_defs split: if_splits)
  have "accepts_at http_version_major_start xs5"
    by (rule accepts_next [OF _ 4(2) [unfolded 5]]) (auto simp: consume_defs split: if_splits)
  then obtain d xs6 where 6: "xs5 = d # xs6" "c_isdigit d" "accepts_at http_version_major_start (d # xs6)"
    by (cases xs5) (auto simp: accepts_at_def accepts_Cons consume_defs split: if_splits)
  have "accepts_at http_version_major xs6"
    by (rule accepts_next [OF _ 6(3)]) (auto simp: consume_defs split: if_splits)
  then obtain a xs7 where 7: "xs6 = a @ CHR ''.'' # xs7" "list_all c_isdigit a"
      "accepts_at http_version_major (CHR ''.'' # xs7)"
    using split_major by blast
  have "accepts_at http_version_minor_start xs7"
    by (rule accepts_next [OF _ 7(3)]) (auto simp: consume_defs split: if_splits)
  then obtain e xs8 where 8: "xs7 = e # xs8" "c_isdigit e" "accepts_at http_version_minor_start (e # xs8)"
    by (cases xs7) (auto simp: accepts_at_def accepts_Cons consume_defs split: if_splits)
  have "accepts_at http_version_minor xs8"
    by (rule accepts_next [OF _ 8(3)]) (auto simp: consume_defs split: if_splits)
  then obtain b xs9 where 9: "xs8 = b @ CR # xs9" "list_all c_isdigit b"
      "accepts_at http_version_minor (CR # xs9)"
    using split_minor by blast
  have "accepts_at expecting_newline_1 xs9"
    by (rule accepts_next [OF _ 9(3)]) (auto simp: consume_defs split: if_splits)
  then obtain ys where "xs9 = LF # ys"
    using accepts_expect [of expecting_newline_1 LF header_line_start xs9] by (auto simp: consume_defs)
  with 1 2 3 4 5 6 7 8 9 show ?thesis
    by (intro exI [of _ "d # a"] exI [of _ "e # b"] exI [of _ ys]) simp
qed


lemma split_fold:
  assumes "accepts_at header_lws xs"
  shows "\<exists>ws x ys. xs = render_line (Fold ws x) @ ys \<and> list_all (\<lambda>c. c = SP \<or> c = HT) ws \<and>
     (case x of None \<Rightarrow> True | Some (c, v) \<Rightarrow> uri_char c \<and> list_all text_char v)"
proof -
  define ws where "ws = takeWhile (\<lambda>c. c = SP \<or> c = HT) xs"
  define zs where "zs = dropWhile (\<lambda>c. c = SP \<or> c = HT) xs"
  have xs: "xs = ws @ zs" by (simp add: ws_def zs_def)
  have ws: "list_all (\<lambda>c. c = SP \<or> c = HT) ws"
    by (auto simp: ws_def list_all_iff dest: set_takeWhileD)
  obtain p r where p: "pstate p = header_lws" "accepts p r xs" using assms by (auto simp: accepts_at_def)
  define p1 where "p1 = p\<lparr>n_char_parsed := n_char_parsed p + int (length ws)\<rparr>"
  have acc: "accepts p1 r zs" and st: "pstate p1 = header_lws"
    using p parse_blanks [OF p(1) ws, of r zs] by (simp_all add: accepts_def xs p1_def)
  then obtain c cs where zs: "zs = c # cs" by (cases zs) auto
  then have nb: "\<not> (c = SP \<or> c = HT)"
    using zs_def dropWhile_eq_Cons_conv [of "\<lambda>c. c = SP \<or> c = HT" xs c cs] by simp
  show ?thesis
  proof (cases "c = CR")
    case True
    have "accepts_at expecting_newline_2 cs"
      by (rule accepts_next [OF _ accepts_atI [OF st acc [unfolded zs True]]])
        (auto simp: consume_defs split: if_splits)
    then obtain ys where "cs = LF # ys"
      using accepts_expect [of expecting_newline_2 LF header_line_start cs] by (auto simp: consume_defs)
    with True ws xs zs show ?thesis
      by (intro exI [of _ ws] exI [of _ None] exI [of _ ys]) simp
  next
    case False
    with acc st nb zs have c: "uri_char c" by (auto simp: accepts_Cons consume_defs uri_char_def split: if_splits)
    have "accepts_at header_value cs"
      using acc st nb zs False
      by (intro accepts_atI [of "p1\<lparr>pstate := header_value, header_helper := header_helper p1 @ [c],
            n_char_parsed := n_char_parsed p1 + 1\<rparr>" _ r])
        (auto simp: accepts_Cons consume_defs split: if_splits)
    then obtain v ys where "cs = v @ crlf @ ys" "list_all text_char v" using split_value by blast
    with c ws xs zs show ?thesis
      by (intro exI [of _ ws] exI [of _ "Some (c, v)"] exI [of _ ys]) simp
  qed
qed

lemma split_field:
  assumes "accepts_at header_name xs"
  shows "\<exists>n v ys. xs = n @ '': '' @ v @ crlf @ ys \<and> list_all token_char n \<and> list_all text_char v"
proof -
  obtain n ys where xs: "xs = n @ CHR '':'' # ys" "list_all token_char n"
      "accepts_at header_name (CHR '':'' # ys)"
    using split_name [OF assms] by blast
  have 1: "accepts_at space_before_header_value ys"
    by (rule accepts_next [OF _ xs(3)]) (auto simp: consume_defs split: if_splits)
  then obtain zs where ys: "ys = SP # zs"
    by (cases ys) (auto simp: accepts_at_def accepts_Cons consume_defs split: if_splits)
  have "accepts_at header_value zs"
    by (rule accepts_next [OF _ 1 [unfolded ys]]) (auto simp: consume_defs split: if_splits)
  then obtain v us where "zs = v @ crlf @ us" "list_all text_char v" using split_value by blast
  with xs ys show ?thesis
    by (intro exI [of _ n] exI [of _ v] exI [of _ us]) simp
qed

lemma split_line:
  assumes "pstate p = header_line_start" and "accepts p r xs"
  shows "(\<exists>ys. xs = crlf @ ys) \<or>
    (\<exists>l ys. xs = render_line l @ ys \<and> wf_line l \<and>
       (case l of Fold ws x \<Rightarrow> req_headers r \<noteq> [] | _ \<Rightarrow> True))"
proof -
  obtain c cs where xs: "xs = c # cs" using assms by (cases xs) auto
  consider (ends) "c = CR" | (folds) "c = SP \<or> c = HT" "req_headers r \<noteq> []" | (name) "token_char c"
    using assms xs by (auto simp: accepts_Cons consume_defs split: if_splits)
  then show ?thesis
  proof cases
    case ends
    with assms xs show ?thesis
      by (cases cs) (auto simp: accepts_Cons consume_defs split: if_splits)
  next
    case folds
    with assms xs have "accepts_at header_lws cs"
      by (intro accepts_atI [of "p\<lparr>pstate := header_lws, n_char_parsed := n_char_parsed p + 1\<rparr>" _ r])
        (auto simp: accepts_Cons consume_defs split: if_splits)
    then obtain ws x ys where l: "cs = render_line (Fold ws x) @ ys"
        "list_all (\<lambda>c. c = SP \<or> c = HT) ws"
        "case x of None \<Rightarrow> True | Some (c, v) \<Rightarrow> uri_char c \<and> list_all text_char v"
      using split_fold by blast
    then have "xs = render_line (Fold (c # ws) x) @ ys"
      using xs by (cases "Fold ws x" rule: render_line.cases) auto
    with l folds show ?thesis
      by (intro disjI2 exI [of _ "Fold (c # ws) x"] exI [of _ ys]) auto
  next
    case name
    then have "c \<noteq> CR" "c \<noteq> SP" "c \<noteq> HT" by auto
    with name assms xs have "accepts_at header_name cs"
      by (intro accepts_atI [of "p\<lparr>header_helper := header_helper p @ [c], pstate := header_name,
            n_char_parsed := n_char_parsed p + 1\<rparr>" _ r])
        (auto simp: accepts_Cons consume_defs split: if_splits)
    then obtain n v ys where "cs = n @ '': '' @ v @ crlf @ ys" "list_all token_char n" "list_all text_char v"
      using split_field by blast
    with name xs show ?thesis
      by (intro disjI2 exI [of _ "Field (c # n) v"] exI [of _ ys]) simp
  qed
qed

lemma render_line_nonempty [simp]: "render_line l \<noteq> []"
  by (cases l rule: render_line.cases) auto

lemma split_lines:
  assumes "pstate p = header_line_start" and "header_helper p = []" and "accepts p r xs"
  shows "\<exists>ls ys. xs = concat (map render_line ls) @ crlf @ ys \<and> list_all wf_line ls \<and>
           (req_headers r = [] \<longrightarrow> wf_lines ls)"
  using assms
proof (induction "length xs" arbitrary: p r xs rule: less_induct)
  case less
  consider (ends) ys where "xs = crlf @ ys"
    | (line) l ys where "xs = render_line l @ ys" "wf_line l"
        "case l of Fold ws x \<Rightarrow> req_headers r \<noteq> [] | _ \<Rightarrow> True"
    using split_line [OF less.prems(1,3)] by blast
  then show ?case
  proof cases
    case ends
    then show ?thesis by (intro exI [of _ "[]"] exI [of _ ys]) simp
  next
    case line
    define p1 where "p1 = p\<lparr>n_char_parsed := n_char_parsed p + int (length (render_line l))\<rparr>"
    define r1 where "r1 = r\<lparr>req_headers := apply_line (req_headers r) l\<rparr>"
    have "accepts p1 r1 ys"
      using less.prems parse_line [OF less.prems(1,2) line(2,3), of ys]
      by (simp add: accepts_def line(1) p1_def r1_def)
    moreover have "length ys < length xs" using line(1) by simp
    ultimately obtain ls zs where ls: "ys = concat (map render_line ls) @ crlf @ zs" "list_all wf_line ls"
      using less.hyps [of ys p1 r1] less.prems by (auto simp: p1_def)
    have "req_headers r = [] \<longrightarrow> wf_lines (l # ls)"
      using line ls by (cases l) auto
    with line ls show ?thesis
      by (intro exI [of _ "l # ls"] exI [of _ zs]) simp
  qed
qed

lemma split_text:
  assumes "ready p" and "accepts p empty_request xs"
  shows "\<exists>t rest. wf_text t \<and> xs = render_text t @ rest"
proof -
  have st: "pstate p = method_start" and hh: "method_helper p = []" "header_helper p = []"
    using assms(1) by (simp_all add: ready_def)
  then obtain c xs1 where xs: "xs = c # xs1" "token_char c"
    using assms(2) by (cases xs) (auto simp: accepts_Cons consume_defs split: if_splits)
  have a1: "accepts_at in_method xs1"
    by (rule accepts_next [OF _ accepts_atI [OF st assms(2) [unfolded xs(1)]]])
      (auto simp: consume_defs split: if_splits)
  obtain m xs2 where 1: "xs1 = m @ SP # xs2" "list_all token_char m" "accepts_at in_method (SP # xs2)"
    using split_method [OF a1] by blast
  have "accepts_at uri xs2"
    by (rule accepts_next [OF _ 1(3)]) (auto simp: consume_defs split: if_splits)
  then obtain u xs3 where 2: "xs2 = u @ SP # xs3" "list_all uri_char u" "accepts_at uri (SP # xs3)"
    using split_uri by blast
  have "accepts_at http_version_h xs3"
    by (rule accepts_next [OF _ 2(3)]) (auto simp: consume_defs split: if_splits)
  then obtain a b xs4 where 3: "xs3 = ''HTTP/'' @ a @ CHR ''.'' # b @ CR # LF # xs4"
      "a \<noteq> []" "list_all c_isdigit a" "b \<noteq> []" "list_all c_isdigit b"
    using split_version by blast
  define t where "t ls = \<lparr>rt_method = c # m, rt_uri = u, rt_major = a, rt_minor = b, rt_lines = ls\<rparr>" for ls
  have "wf_text (t [])" and head: "xs = render_head (t []) @ xs4"
    using xs 1 2 3 by (simp_all add: t_def wf_text_def render_head_def)
  then have "accepts (after_head p (t [])) ((denote (t []))\<lparr>req_headers := []\<rparr>) xs4"
    using assms parse_head [of p "t []" xs4] by (simp add: accepts_def)
  then obtain ls ys where ls: "xs4 = concat (map render_line ls) @ crlf @ ys" "wf_lines ls"
    using split_lines [of "after_head p (t [])" "(denote (t []))\<lparr>req_headers := []\<rparr>" xs4] hh by auto
  then have "wf_text (t ls)" "xs = render_text (t ls) @ ys"
    using \<open>wf_text (t [])\<close> head by (simp_all add: t_def wf_text_def render_text_head render_head_def)
  then show ?thesis by blast
qed

text \<open>Accepted texts are exactly those of the grammar, and the result is what the text denotes.\<close>

lemma parse_good_iff:
  assumes "ready p"
  shows "parse p empty_request xs = ((good, rest), p', r) \<longleftrightarrow>
    (\<exists>t. wf_text t \<and> xs = render_text t @ rest \<and> p' = parsed p t \<and> r = denote t)"
proof
  assume parse: "parse p empty_request xs = ((good, rest), p', r)"
  then obtain t rest' where "wf_text t" "xs = render_text t @ rest'"
    using split_text [OF assms, of xs] by (auto simp: accepts_def)
  with parse parse_text [OF assms, of t rest'] show
    "\<exists>t. wf_text t \<and> xs = render_text t @ rest \<and> p' = parsed p t \<and> r = denote t" by auto
next
  assume "\<exists>t. wf_text t \<and> xs = render_text t @ rest \<and> p' = parsed p t \<and> r = denote t"
  then show "parse p empty_request xs = ((good, rest), p', r)"
    using parse_text [OF assms] by auto
qed

section \<open>What an accepted request contains\<close>

text \<open>No control character (so no line break and no NUL) gets into a parsed request.\<close>

definition clean_header :: "string \<times> string \<Rightarrow> bool" where
  "clean_header h \<longleftrightarrow> fst h \<noteq> [] \<and> list_all text_char (fst h) \<and> list_all text_char (snd h)"

definition clean_request :: "request \<Rightarrow> bool" where
  "clean_request r \<longleftrightarrow> list_all uri_char (req_uri r) \<and> list_all text_char (req_version r) \<and>
     smap_ok (req_headers r) \<and> list_all clean_header (req_headers r)"

lemma token_text_char: "token_char c \<Longrightarrow> text_char c"
  by (simp add: not_token_def)

lemma token_text: "list_all token_char s \<Longrightarrow> list_all text_char s"
  by (auto simp: list_all_iff token_text_char)

lemma digit_text_char: "c_isdigit c \<Longrightarrow> text_char c"
  by (auto simp: c_isdigit_iff text_char_def is_ctl_def c_int_def split: if_splits)

lemma digits_text: "list_all c_isdigit s \<Longrightarrow> list_all text_char s"
  by (auto simp: list_all_iff digit_text_char)

lemma text_char_no_nul: "list_all text_char s \<Longrightarrow> NUL \<notin> set s"
  by (auto simp: list_all_iff text_char_def is_ctl_def c_int_def)

lemma uri_text: "list_all uri_char s \<Longrightarrow> list_all text_char s"
  by (auto simp: list_all_iff uri_char_def)

lemma clean_append_value:
  "list_all clean_header hs \<Longrightarrow> k \<noteq> [] \<Longrightarrow> list_all text_char k \<Longrightarrow> list_all text_char v \<Longrightarrow>
     list_all clean_header (smap_modify [] (\<lambda>x. x @ v) k hs)"
  by (rule list_all_smap_modify) (auto simp: clean_header_def)

lemma clean_apply_line:
  "list_all clean_header hs \<Longrightarrow> wf_line l \<Longrightarrow> list_all clean_header (apply_line hs l)"
  by (induction hs l rule: apply_line.induct)
    (auto simp: append_value_def uri_char_def dest: token_text intro!: clean_append_value)

lemma smap_ok_apply_line: "smap_ok hs \<Longrightarrow> smap_ok (apply_line hs l)"
  by (induction hs l rule: apply_line.induct) (auto simp: append_value_def)

lemma clean_apply_lines:
  "smap_ok hs \<Longrightarrow> list_all clean_header hs \<Longrightarrow> list_all wf_line ls \<Longrightarrow>
     smap_ok (foldl apply_line hs ls) \<and> list_all clean_header (foldl apply_line hs ls)"
  by (induction ls arbitrary: hs) (auto simp: clean_apply_line smap_ok_apply_line)

lemma clean_denote: "wf_text t \<Longrightarrow> clean_request (denote t)"
  using clean_apply_lines [of "[]" "rt_lines t"] wf_lines_all [of "rt_lines t"]
  by (auto simp: clean_request_def denote_def wf_text_def intro: digits_text)
    (simp add: text_char_def is_ctl_def c_int_def)

lemma nul_classes [simp, char_class]:
  "not_token NUL" "\<not> text_char NUL" "\<not> uri_char NUL" "\<not> c_isdigit NUL"
  by (simp_all add: not_token_def is_char_def is_ctl_def text_char_def uri_char_def c_int_def c_isdigit_def)

lemma list_all_notin: "list_all P s \<Longrightarrow> \<not> P x \<Longrightarrow> x \<notin> set s"
  by (auto simp: list_all_iff)

lemma render_line_no_nul:
  assumes "wf_line l"
  shows "NUL \<notin> set (render_line l)"
proof (cases l rule: render_line.cases)
  case (1 n v)
  with assms have "NUL \<notin> set n" "NUL \<notin> set v"
    using list_all_notin [of token_char n NUL] list_all_notin [of text_char v NUL] by simp_all
  with 1 show ?thesis by simp
next
  case (2 ws)
  with assms have "NUL \<notin> set ws" using list_all_notin [of _ ws NUL] by fastforce
  with 2 show ?thesis by simp
next
  case (3 ws c v)
  with assms have "NUL \<notin> set ws" "NUL \<notin> set v" "c \<noteq> NUL"
    using list_all_notin [of "\<lambda>c. c = SP \<or> c = HT" ws NUL] list_all_notin [of text_char v NUL] by auto
  with 3 show ?thesis by simp
qed

lemma render_text_no_nul:
  assumes "wf_text t"
  shows "NUL \<notin> set (render_text t)"
proof -
  have "NUL \<notin> set (rt_method t)" "NUL \<notin> set (rt_uri t)"
    "NUL \<notin> set (rt_major t)" "NUL \<notin> set (rt_minor t)"
    using assms list_all_notin [where x = NUL] by (fastforce simp: wf_text_def)+
  moreover have "list_all wf_line (rt_lines t)"
    using assms by (simp add: wf_text_def wf_lines_all)
  ultimately show ?thesis
    using render_line_no_nul by (auto simp: render_text_def list_all_iff)
qed

section \<open>Cutting out the body\<close>

lemma smap_modify_present:
  "smap_find m k = Some v \<Longrightarrow> smap_ok m \<Longrightarrow> smap_modify d (\<lambda>x. x) k m = m"
  by (rule smap_eqI) (auto simp: smap.find_modify fun_eq_iff)

lemma smap_touch_present: "smap_find m k = Some v \<Longrightarrow> smap_ok m \<Longrightarrow> smap_touch d k m = m"
  by (simp add: smap_touch_def smap_modify_present)

text \<open>
  The position \<open>data_helper.length() - content_length\<close> in \<open>size_t\<close>: within the text exactly when
  the content length is neither negative nor larger than the text.
\<close>

lemma body_position:
  assumes "n < 2 ^ 30" and "int_range cl"
  shows "unat ((of_nat n :: size_t) - of_int cl) =
    (if 0 \<le> cl \<and> cl \<le> int n then n - nat cl else nat ((int n - cl) mod 2 ^ 64))"
proof -
  have "(of_nat n :: size_t) - of_int cl = of_int (int n - cl)" by simp
  then have *: "unat ((of_nat n :: size_t) - of_int cl) = nat ((int n - cl) mod 2 ^ 64)"
    by (simp only: unsigned_of_int nat_take_bit_eq take_bit_eq_mod flip: nat_uint_eq) (simp add: uint_word_of_int)
  show ?thesis
  proof (cases "0 \<le> cl \<and> cl \<le> int n")
    case True
    then have "(int n - cl) mod 2 ^ 64 = int n - cl"
      using assms(1) by (intro mod_pos_pos_trivial) auto
    with * True show ?thesis by (simp add: nat_diff_distrib)
  qed (use * in auto)
qed

lemma substr_body:
  assumes "length s < 2 ^ 30" and "int_range cl"
  shows "substr s (unat ((of_nat (length s) :: size_t) - of_int cl)) =
    (if 0 \<le> cl \<and> cl \<le> int (length s) then Inr (drop (length s - nat cl) s) else Inl StdOutOfRange)"
proof -
  have "\<not> nat ((int (length s) - cl) mod 2 ^ 64) \<le> length s" if "\<not> (0 \<le> cl \<and> cl \<le> int (length s))"
  proof (cases "cl < 0")
    case True
    then have "(int (length s) - cl) mod 2 ^ 64 = int (length s) - cl"
      using assms by (intro mod_pos_pos_trivial) (auto simp: int_range_def)
    with True show ?thesis by simp
  next
    case False
    with that have less: "int (length s) < cl" by simp
    have "(int (length s) - cl) mod 2 ^ 64 = (int (length s) - cl + 2 ^ 64) mod 2 ^ 64" by simp
    also have "\<dots> = int (length s) - cl + 2 ^ 64"
      using assms less by (intro mod_pos_pos_trivial) (auto simp: int_range_def)
    finally show ?thesis using assms less by (simp add: int_range_def)
  qed
  then show ?thesis
    using assms by (auto simp: substr_def body_position)
qed

lemma size_t_eq_iff:
  assumes "0 \<le> a" "a < 2 ^ 63" "n < 2 ^ 63"
  shows "(of_int a :: size_t) = of_nat n \<longleftrightarrow> a = int n"
proof -
  have "(of_int a :: size_t) = of_nat n \<longleftrightarrow> (of_int a :: size_t) = of_int (int n)" by simp
  also have "\<dots> \<longleftrightarrow> a mod 2 ^ 64 = int n mod 2 ^ 64"
    by (simp only: word_of_int_eq_iff take_bit_eq_mod) simp
  finally show ?thesis using assms by simp
qed

text \<open>
  What \<open>parse_data\<close> does with a buffer that holds an accepted header section and \<open>extra\<close>
  characters after it, NUL-terminated, when \<open>n\<close> characters were transferred: at least the header
  section and at most what is there.
\<close>

lemma parse_data_within:
  assumes "ready p" and "wf_text t" and "NUL \<notin> set extra"
    and "length (render_text t @ extra) < 2 ^ 30"
    and "0 \<le> n_char_parsed p" "n_char_parsed p < 2 ^ 30"
    and cl: "get_content_length (denote t) = Inr (cl, r)"
    and "length (render_text t) \<le> n" and "n \<le> length (render_text t @ extra)"
  shows "parse_data p empty_request (render_text t @ extra @ NUL # junk) n =
    (if 0 < cl \<and> n_char_parsed p = int (length extra) then Inr (missing_data, parsed p t, r)
     else if 0 \<le> cl \<and> cl \<le> int (length (render_text t @ extra))
     then Inr (good, parsed p t,
       r\<lparr>req_body := drop (length (render_text t @ extra) - nat cl) (render_text t @ extra)\<rparr>)
     else Inl StdOutOfRange)"
proof -
  define s where "s = render_text t @ extra"
  have nul: "NUL \<notin> set s" using assms(2,3) render_text_no_nul by (simp add: s_def)
  have len: "length s < 2 ^ 30" using assms(4) by (simp add: s_def)
  have "take n (s @ NUL # junk) = render_text t @ take (n - length (render_text t)) extra"
    using assms(8,9) by (simp add: s_def)
  moreover have "parse p empty_request (render_text t @ take (n - length (render_text t)) extra) =
      ((good, take (n - length (render_text t)) extra), parsed p t, denote t)"
    by (rule parse_text) (use assms in auto)
  ultimately have parse: "parse p empty_request (take n (s @ NUL # junk)) =
      ((good, take (n - length (render_text t)) extra), parsed p t, denote t)"
    by simp
  have amount: "get_char_amount (parsed p t) = n_char_parsed p + int (length (render_text t))"
    by (simp add: get_char_amount_def parsed_def)
  have "(of_int (get_char_amount (parsed p t)) :: size_t) = of_nat (length s) \<longleftrightarrow>
      n_char_parsed p = int (length extra)"
    using assms len by (subst size_t_eq_iff) (auto simp: amount s_def)
  moreover have "\<not> length (s @ NUL # junk) < n" using assms(9) by (simp add: s_def)
  ultimately have "parse_data p empty_request (s @ NUL # junk) n =
    (if 0 < cl \<and> n_char_parsed p = int (length extra) then Inr (missing_data, parsed p t, r)
     else if 0 \<le> cl \<and> cl \<le> int (length s)
     then Inr (good, parsed p t, r\<lparr>req_body := drop (length s - nat cl) s\<rparr>)
     else Inl StdOutOfRange)"
    using substr_body [OF len get_content_length_range [OF cl]] cl
    by (simp add: parse_data_def parse c_string_terminated [OF nul] del: take_append length_append)
  then show ?thesis by (simp add: s_def)
qed

lemma parse_data_text:
  assumes "ready p" and "wf_text t" and "NUL \<notin> set extra"
    and "length (render_text t @ extra) < 2 ^ 30"
    and "0 \<le> n_char_parsed p" "n_char_parsed p < 2 ^ 30"
    and "get_content_length (denote t) = Inr (cl, r)"
  shows "parse_data p empty_request (render_text t @ extra @ NUL # junk) (length (render_text t @ extra)) =
    (if 0 < cl \<and> n_char_parsed p = int (length extra) then Inr (missing_data, parsed p t, r)
     else if 0 \<le> cl \<and> cl \<le> int (length (render_text t @ extra))
     then Inr (good, parsed p t,
       r\<lparr>req_body := drop (length (render_text t @ extra) - nat cl) (render_text t @ extra)\<rparr>)
     else Inl StdOutOfRange)"
  by (rule parse_data_within [OF assms]) simp_all

section \<open>Properties\<close>

text \<open>The request of the examples: a POST with one header, which announces three bytes.\<close>

definition example_post :: request_text where
  "example_post = \<lparr>rt_method = ''POST'', rt_uri = ''/a'', rt_major = ''1'', rt_minor = ''1'',
     rt_lines = [Field ''Content-Length'' ''3'']\<rparr>"

lemma example_post_wf [simp]: "wf_text example_post"
  by code_simp

lemma example_post_length [simp]:
  "get_content_length (denote example_post) = Inr (3, denote example_post)"
  by code_simp

lemma example_post_size [simp]: "length (render_text example_post) = 39"
  by code_simp

text \<open>
  C1: The parser accepts exactly the requests of the grammar: from a constructed or reset
  parser, \<open>parse\<close> returns \<open>good\<close> if and only if what it consumed is the text of a well-formed
  request (method token, URI, \<open>HTTP/\<close> version, header fields with continuation lines, blank
  line), and the request it built is the one the text denotes.
\<close>

theorem parse_accepts_grammar:
  assumes "ready p"
  shows "parse p empty_request xs = ((good, rest), p', r) \<longleftrightarrow>
    (\<exists>t. wf_text t \<and> xs = render_text t @ rest \<and> p' = parsed p t \<and> r = denote t)"
  using assms by (rule parse_good_iff)

theorem parse_accepts_grammar_witness:
  "\<exists>p' r. parse new_parser empty_request (render_text example_post @ ''abc'') = ((good, ''abc''), p', r) \<and>
     req_method r = POST \<and> req_uri r = ''/a''"
proof -
  have "parse new_parser empty_request (render_text example_post @ ''abc'') =
      ((good, ''abc''), parsed new_parser example_post, denote example_post)"
    unfolding parse_accepts_grammar [OF ready_new]
    by (intro exI [of _ example_post]) simp
  then show ?thesis by (simp add: denote_def example_post_def method_of_def)
qed

text \<open>
  C24: An accepted request has no control character in its URI, its version, and its header
  names and values (and no blank in the URI): no line break gets past the parser.
\<close>

theorem parsed_request_clean:
  assumes "ready p" and "parse p empty_request xs = ((good, rest), p', r)"
  shows "clean_request r"
  using assms parse_good_iff [OF assms(1)] clean_denote by auto

theorem parsed_request_clean_witness: "clean_request (denote example_post)"
  by (rule parsed_request_clean [OF ready_new parse_text [OF ready_new example_post_wf, of "[]"]])

text \<open>
  A request may arrive in two reads: parsing the concatenation is parsing the first part
  and, if it was not decided there, going on with the second from the state reached.
\<close>

theorem parse_split_reads:
  "parse p r (xs @ ys) =
     (case parse p r xs of ((result, rest), p', r') \<Rightarrow>
        if result = good \<or> result = bad then ((result, rest @ ys), p', r') else parse p' r' ys)"
  using scan.run_append [of "(p, r)" xs ys] by (auto simp: decided_def split: prod.splits)

lemma consume_counted_count:
  "consume_counted s c = (result, s') \<Longrightarrow> n_char_parsed (fst s') = n_char_parsed (fst s) + 1"
  by (auto simp: consume_counted_def dest: consume_keeps_count split: prod.splits)

text \<open>
  \<open>parse\<close> consumes a prefix of its input and adds its length to the character count, which
  \<open>reset\<close> does not set back.
\<close>

theorem parse_counts:
  "case parse p r xs of ((result, rest), p', r') \<Rightarrow>
     suffix rest xs \<and>
     get_char_amount p' = get_char_amount p + int (length xs) - int (length rest) \<and>
     get_char_amount (reset p') = get_char_amount p'"
proof -
  obtain result rest p' r' where parse: "parse p r xs = ((result, rest), p', r')"
    by (metis prod.exhaust)
  have "n_char_parsed p' = n_char_parsed p + int (length xs) - int (length rest)"
    using scan.run_count [where count = "\<lambda>s. n_char_parsed (fst s)" and s = "(p, r)" and xs = xs,
        OF consume_counted_count] parse by auto
  moreover have "suffix rest xs"
    using scan.run_consumes [of "(p, r)" xs] parse by (auto simp: suffix_def)
  ultimately show ?thesis by (simp add: parse get_char_amount_def reset_def)
qed

text \<open>
  C25: What \<open>parse_data\<close> returns for a buffer with an accepted header section and some text after it
  up to a NUL, whatever part of that text was transferred and whatever was in the buffer before:
  \<open>missing_data\<close> when a body is announced and the count of the parser is the length of the C string;
  otherwise the last \<open>Content-Length\<close> characters of the C string as the body, or
  \<open>std::out_of_range\<close> when the length is negative or larger than the string.
\<close>

theorem parse_data_outcome:
  assumes "ready p" and "wf_text t" and "NUL \<notin> set extra"
    and "length (render_text t @ extra) < 2 ^ 30"
    and "0 \<le> n_char_parsed p" and "n_char_parsed p < 2 ^ 30"
    and "get_content_length (denote t) = Inr (cl, r)"
    and "length (render_text t) \<le> n" and "n \<le> length (render_text t @ extra)"
  shows "parse_data p empty_request (render_text t @ extra @ NUL # junk) n =
    (if 0 < cl \<and> n_char_parsed p = int (length extra) then Inr (missing_data, parsed p t, r)
     else if 0 \<le> cl \<and> cl \<le> int (length (render_text t @ extra))
     then Inr (good, parsed p t,
       r\<lparr>req_body := drop (length (render_text t @ extra) - nat cl) (render_text t @ extra)\<rparr>)
     else Inl StdOutOfRange)"
  using assms by (rule parse_data_within)

theorem parse_data_outcome_witness:
  "parse_data new_parser empty_request (render_text example_post @ ''abcold'' @ NUL # ''junk'') 42 =
   Inr (good, parsed new_parser example_post, (denote example_post)\<lparr>req_body := ''old''\<rparr>)"
  by (subst parse_data_outcome [where cl = 3 and r = "denote example_post"])
    (simp_all add: new_parser_def, simp_all flip: new_parser_def)

text \<open>
  What the buffer held before gets into the body: when the announced body has been transferred and
  the buffer goes on with other characters up to a NUL, the body is the end of those.
\<close>

theorem parse_data_stale_buffer:
  assumes "ready p" and "wf_text t" and "NUL \<notin> set (body @ old)"
    and "length (render_text t @ body @ old) < 2 ^ 30"
    and "0 \<le> n_char_parsed p" and "n_char_parsed p < 2 ^ 30"
    and "get_content_length (denote t) = Inr (int (length body), r)"
    and "n_char_parsed p \<noteq> int (length (body @ old))"
  shows "parse_data p empty_request (render_text t @ (body @ old) @ NUL # junk) (length (render_text t @ body)) =
    Inr (good, parsed p t, r\<lparr>req_body := drop (length old) (body @ old)\<rparr>)"
  by (subst parse_data_within [OF assms(1-3) _ assms(5-7)]) (use assms(4,8) in simp_all)

theorem parse_data_stale_buffer_witness:
  "parse_data new_parser empty_request (render_text example_post @ (''abc'' @ ''old'') @ NUL # [])
     (length (render_text example_post @ ''abc'')) =
   Inr (good, parsed new_parser example_post, (denote example_post)\<lparr>req_body := ''old''\<rparr>)"
  by (subst parse_data_stale_buffer [OF ready_new example_post_wf, where r = "denote example_post"])
    (simp_all add: new_parser_def)

text \<open>
  A parser that has counted characters before never reports missing data for a header
  section that announces a body: the body it returns is the end of the header section itself.
\<close>

theorem parse_data_reused_parser:
  assumes "ready p" and "wf_text t" and "0 < n_char_parsed p" and "n_char_parsed p < 2 ^ 30"
    and "get_content_length (denote t) = Inr (cl, r)"
    and "0 < cl" and "cl \<le> int (length (render_text t))" and "length (render_text t) < 2 ^ 30"
  shows "parse_data p empty_request (render_text t @ NUL # junk) (length (render_text t)) =
    Inr (good, parsed p t,
      r\<lparr>req_body := drop (length (render_text t) - nat cl) (render_text t)\<rparr>)"
  using assms parse_data_text [of p t "[]" cl r junk] by simp

theorem parse_data_reused_parser_witness:
  "\<exists>p. ready p \<and> (\<exists>q. parse_data p empty_request (render_text example_post @ [NUL])
     (length (render_text example_post)) =
   Inr (good, q, (denote example_post)\<lparr>req_body := LF # CR # [LF]\<rparr>))"
proof (intro exI conjI)
  show "ready (new_parser\<lparr>n_char_parsed := 39\<rparr>)" by (simp add: ready_def new_parser_def)
  show "parse_data (new_parser\<lparr>n_char_parsed := 39\<rparr>) empty_request (render_text example_post @ [NUL])
     (length (render_text example_post)) = Inr (good, parsed (new_parser\<lparr>n_char_parsed := 39\<rparr>) example_post,
       (denote example_post)\<lparr>req_body := LF # CR # [LF]\<rparr>)"
    by (subst parse_data_reused_parser [where cl = 3 and r = "denote example_post"])
      (simp_all add: ready_def new_parser_def, code_simp)
qed

text \<open>
  A negative content length makes \<open>parse_data\<close> throw \<open>std::out_of_range\<close>, although the
  header section is accepted.
\<close>

theorem parse_data_bad_length:
  assumes "ready p" and "wf_text t" and "NUL \<notin> set extra"
    and "length (render_text t @ extra) < 2 ^ 30"
    and "0 \<le> n_char_parsed p" and "n_char_parsed p < 2 ^ 30"
    and "get_content_length (denote t) = Inr (cl, r)"
    and "cl < 0"
  shows "parse_data p empty_request (render_text t @ extra @ NUL # junk)
     (length (render_text t @ extra)) = Inl StdOutOfRange"
  using assms parse_data_text [of p t extra cl r junk] by simp

theorem parse_data_bad_length_witness:
  "parse_data new_parser empty_request
     (render_text (example_post\<lparr>rt_lines := [Field ''Content-Length'' ''-1'']\<rparr>) @ ''abc'' @ [NUL])
     (length (render_text (example_post\<lparr>rt_lines := [Field ''Content-Length'' ''-1'']\<rparr>) @ ''abc'')) =
   Inl StdOutOfRange"
proof -
  let ?t = "example_post\<lparr>rt_lines := [Field ''Content-Length'' ''-1'']\<rparr>"
  have wf: "wf_text ?t" and cl: "get_content_length (denote ?t) = Inr (-1, denote ?t)"
    and len: "length (render_text ?t) = 40"
    by code_simp+
  show ?thesis
    by (rule parse_data_bad_length [OF ready_new wf _ _ _ _ cl])
      (simp_all add: len new_parser_def)
qed

end
