(* ===== verification/Simple_Handlers.thy ===== *)
theory Simple_Handlers
  imports Request_Handler Data_Collector Request_Parser
begin

text \<open>
  The handlers that read nothing but the request and the data collector: echo, health, 404 and
  status (\<open>src/echo_request_handler.cc\<close>, \<open>health_request_handler.cc\<close>,
  \<open>not_found_request_handler.cc\<close>, \<open>status_request_handler.cc\<close>).  Their shared state is the
  collector.
\<close>

section \<open>Echo\<close>

definition echo_init :: "string \<Rightarrow> collector \<Rightarrow> collector" where
  "echo_init location_path c = add_handler location_path ''Echo Request Handler'' c"

fun echo_method :: "http_method \<Rightarrow> string" where
  "echo_method GET = ''GET''"
| "echo_method POST = ''POST''"
| "echo_method PUT = ''PUT''"
| "echo_method UNKNOWN = ''UNKNOWN''"

fun echo_headers :: "string smap \<Rightarrow> string" where
  "echo_headers [] = []"
| "echo_headers ((k, v) # hs) =
     (if v \<noteq> [] then k @ '': '' @ v @ crlf else []) @ echo_headers hs"

definition convert_to_rawbody :: "request \<Rightarrow> string" where
  "convert_to_rawbody r = echo_method (req_method r) @ '' '' @ req_uri r @ '' HTTP'' @ ''/'' @
     req_version r @ crlf @ echo_headers (req_headers r) @ crlf @ req_body r"

definition plain_response :: "string \<Rightarrow> string \<Rightarrow> response" where
  "plain_response media body =
     (let response = empty_response\<lparr>rsp_code := ok, rsp_body := body\<rparr>
      in set_header ''Content-Type'' media
           (set_header ''Content-Length'' (to_string (length (rsp_body response))) response))"

definition echo_handle :: "collector handle" where
  "echo_handle c request = Inr (plain_response ''text/plain'' (convert_to_rawbody request), c)"

section \<open>Health and not found\<close>

definition health_init :: "string \<Rightarrow> collector \<Rightarrow> collector" where
  "health_init location_path c = add_handler location_path ''Health Request Handler'' c"

definition health_handle :: "collector handle" where
  "health_handle c request = Inr (plain_response ''text/plain'' ''OK'', c)"

definition not_found_init :: "string \<Rightarrow> collector \<Rightarrow> collector" where
  "not_found_init location_path c = add_handler location_path ''404 Not Found Request Handler'' c"

definition not_found_handle :: "collector handle" where
  "not_found_handle c request = Inr (stock_response not_found, c)"

section \<open>Status\<close>

definition status_init :: "string \<Rightarrow> collector \<Rightarrow> collector" where
  "status_init location_path c = add_handler location_path ''Status Request Handler'' c"

definition count_line :: "string \<Rightarrow> string \<Rightarrow> count \<Rightarrow> string" where
  "count_line u status n = ''<p>Number of request received from URI '' @ u @
     '' with status code '' @ status @ '' : '' @ int_to_string (sint n) @ ''</p>''"

definition handler_line :: "string \<Rightarrow> string \<Rightarrow> string" where
  "handler_line path name = ''<p>URI prefix for '' @ name @ '' : '' @ path @ ''</p>''"

fun count_lines :: "string \<Rightarrow> count smap \<Rightarrow> string" where
  "count_lines u [] = []"
| "count_lines u ((status, n) # inner) = count_line u status n @ count_lines u inner"

fun status_lines :: "count smap smap \<Rightarrow> string" where
  "status_lines [] = []"
| "status_lines ((u, inner) # m) = count_lines u inner @ status_lines m"

fun handler_lines :: "string smap \<Rightarrow> string" where
  "handler_lines [] = []"
| "handler_lines ((path, name) # m) = handler_line path name @ handler_lines m"

definition create_body :: "collector \<Rightarrow> string" where
  "create_body c = ''<!DOCTYPE html><html><body>'' @ ''<head><title>Server Status</title></head>'' @
     ''<h1>Count for server's request and response</h1>'' @ status_lines (status_map c) @
     ''<h1>Path to RequestHandler</h1>'' @ handler_lines (uri_request_handler c) @ ''</body></html>''"

definition status_handle :: "collector handle" where
  "status_handle c request = Inr (plain_response ''text/html'' (create_body c), c)"

section \<open>Every handler announces its body\<close>

lemma plain_response_simps [simp]:
  "rsp_code (plain_response m b) = ok" "rsp_body (plain_response m b) = b"
  by (simp_all add: plain_response_def Let_def)

lemma plain_response_framed [simp]: "framed (plain_response m b)"
  by (simp add: framed_def plain_response_def Let_def)

lemma framed_headers [simp]: "framed r \<Longrightarrow> smap_ok (rsp_headers r)"
  by (simp add: framed_def)

interpretation echo: framing_handler echo_handle collector_ok
  by unfold_locales (auto simp: echo_handle_def)

interpretation health: framing_handler health_handle collector_ok
  by unfold_locales (auto simp: health_handle_def)

interpretation not_found: framing_handler not_found_handle collector_ok
  by unfold_locales (auto simp: not_found_handle_def)

interpretation status: framing_handler status_handle collector_ok
  by unfold_locales (auto simp: status_handle_def)

section \<open>The status page\<close>

lemma count_lines_contain:
  "smap_find inner s = Some n \<Longrightarrow> contains (count_line u s n) (count_lines u inner)"
  by (induction inner) (auto simp: smap_find_Cons split: if_splits)

lemma status_lines_contain:
  "smap_find m u = Some inner \<Longrightarrow> smap_find inner s = Some n \<Longrightarrow>
     contains (count_line u s n) (status_lines m)"
  by (induction m) (auto simp: smap_find_Cons count_lines_contain split: if_splits)

lemma handler_lines_contain:
  "smap_find m path = Some name \<Longrightarrow> contains (handler_line path name) (handler_lines m)"
  by (induction m) (auto simp: smap_find_Cons split: if_splits)

lemma create_body_contains:
  "contains p (status_lines (status_map c)) \<Longrightarrow> contains p (create_body c)"
  "contains p (handler_lines (uri_request_handler c)) \<Longrightarrow> contains p (create_body c)"
  unfolding create_body_def by (blast intro: contains_append)+

text \<open>A counter that was incremented has an entry.\<close>

lemma recorded_entry:
  assumes "collector_ok c"
  shows "(\<exists>inner n. smap_find (status_map c) u = Some inner \<and> smap_find inner s = Some n) \<or>
    occurrences u s es > 0 \<Longrightarrow>
    \<exists>inner n. smap_find (status_map (record_all es c)) u = Some inner \<and> smap_find inner s = Some n"
  using assms
proof (induction es arbitrary: c)
  case Nil
  then show ?case by (simp add: occurrences_def)
next
  case (Cons e es)
  obtain u' code where e: "e = (u', code)" by (cases e)
  note ok = collector_okD [OF Cons.prems(2)]
  have "(\<exists>inner n. smap_find (status_map (increment_request u' code c)) u = Some inner \<and>
      smap_find inner s = Some n) \<or> occurrences u s es > 0"
    using Cons.prems(1) ok
    by (cases "u' = u"; cases "map_status_to_string code = s")
      (auto simp: e increment_request_bump [OF Cons.prems(2)] smap.find_modify bump_def occurrences_def)
  from Cons.IH [OF this increment_request_ok [OF Cons.prems(2)]] show ?case by (simp add: e)
qed



section \<open>The echoed text\<close>

lemma smap_modify_append:
  "smap_ok (m @ [(k, v)]) \<Longrightarrow> smap_modify d f k m = m @ [(k, f d)]"
  by (induction d f k m rule: smap_modify.induct) (auto simp: smap_ok_def)

lemma smap_ok_take: "smap_ok (m @ hs) \<Longrightarrow> smap_ok m"
  by (auto simp: smap_ok_def sorted_wrt_append)

lemma apply_fields_append:
  "smap_ok (m @ hs) \<Longrightarrow> foldl apply_line m (map (\<lambda>(k, v). Field k v) hs) = m @ hs"
proof (induction hs arbitrary: m)
  case Nil
  then show ?case by simp
next
  case (Cons h hs)
  obtain k v where h: "h = (k, v)" by force
  have "smap_ok (m @ [(k, v)])"
    using Cons.prems smap_ok_take [of "m @ [(k, v)]" hs] by (simp add: h)
  then have "apply_line m (Field k v) = m @ [(k, v)]"
    by (simp add: smap_modify_append)
  with Cons.IH [of "m @ [(k, v)]"] Cons.prems show ?case by (simp add: h)
qed

lemma echo_headers_lines:
  "echo_headers hs = concat (map render_line (map (\<lambda>(k, v). Field k v) (filter (\<lambda>(k, v). v \<noteq> []) hs)))"
  by (induction hs rule: echo_headers.induct) auto

lemma smap_ok_filter: "smap_ok m \<Longrightarrow> smap_ok (filter P m)"
  by (auto simp: smap_ok_def sorted_wrt_map intro: sorted_wrt_filter)

lemma method_of_echo [simp]: "method_of (echo_method x) = x"
  by (cases x) (simp_all add: method_of_def)

lemma echo_method_token [simp]: "echo_method x \<noteq> []" "list_all token_char (echo_method x)"
proof -
  have "list_all (\<lambda>x. echo_method x \<noteq> [] \<and> list_all token_char (echo_method x)) [GET, PUT, POST, UNKNOWN]"
    by code_simp
  then show "echo_method x \<noteq> []" "list_all token_char (echo_method x)"
    by (cases x; simp)+
qed

text \<open>What the parser guarantees of a header written on one line.\<close>

definition token_header :: "string \<times> string \<Rightarrow> bool" where
  "token_header h \<longleftrightarrow> fst h \<noteq> [] \<and> list_all token_char (fst h) \<and> list_all text_char (snd h)"

fun is_field :: "header_line \<Rightarrow> bool" where
  "is_field (Field n v) \<longleftrightarrow> True"
| "is_field (Fold ws x) \<longleftrightarrow> False"

lemma fields_headers:
  "smap_ok hs \<Longrightarrow> list_all token_header hs \<Longrightarrow> list_all wf_line ls \<Longrightarrow> list_all is_field ls \<Longrightarrow>
     smap_ok (foldl apply_line hs ls) \<and> list_all token_header (foldl apply_line hs ls)"
proof (induction ls arbitrary: hs)
  case Nil
  then show ?case by simp
next
  case (Cons l ls)
  obtain n v where l: "l = Field n v" using Cons.prems by (cases l) auto
  have "list_all token_header (smap_modify [] (\<lambda>x. x @ v) n hs)"
    by (rule list_all_smap_modify [OF Cons.prems(2)]) (use Cons.prems in \<open>auto simp: l token_header_def\<close>)
  with Cons.IH [of "smap_modify [] (\<lambda>x. x @ v) n hs"] Cons.prems show ?case by (simp add: l)
qed

lemma fields_wf:
  assumes "list_all token_header hs"
  shows "wf_lines (map (\<lambda>(k, v). Field k v) (filter P hs))"
proof -
  have "list_all wf_line (map (\<lambda>(k, v). Field k v) (filter P hs))"
    using assms by (induction hs) (auto simp: token_header_def)
  moreover have "wf_lines (map (\<lambda>(k, v). Field k v) hs') = list_all wf_line (map (\<lambda>(k, v). Field k v) hs')" for hs'
    by (cases hs') auto
  ultimately show ?thesis by simp
qed

text \<open>
  C32: the body of the echo response is the request again.  For a request whose headers each stand
  on one line, parsing the echoed text with a fresh parser succeeds, leaves exactly the echoed body
  unread, and gives the same method, URI and version and the same headers, except that headers
  with an empty value are dropped.
\<close>

theorem echo_roundtrip:
  assumes "wf_text t" and "list_all is_field (rt_lines t)"
  shows "\<exists>rsp p. echo_handle c ((denote t)\<lparr>req_body := body\<rparr>) = Inr (rsp, c) \<and> framed rsp \<and>
    parse new_parser empty_request (rsp_body rsp) =
      ((good, body), p, (denote t)\<lparr>req_headers := filter (\<lambda>(k, v). v \<noteq> []) (req_headers (denote t))\<rparr>)"
proof -
  let ?hs = "filter (\<lambda>(k, v). v \<noteq> []) (req_headers (denote t))"
  let ?t = "\<lparr>rt_method = echo_method (method_of (rt_method t)), rt_uri = rt_uri t, rt_major = rt_major t,
      rt_minor = rt_minor t, rt_lines = map (\<lambda>(k, v). Field k v) ?hs\<rparr>"
  have hs: "smap_ok (req_headers (denote t))" "list_all token_header (req_headers (denote t))"
    using fields_headers [of "[]" "rt_lines t"] assms
    by (simp_all add: denote_def wf_text_def wf_lines_all)
  have wf: "wf_text ?t"
    using assms(1) fields_wf [OF hs(2)] by (simp add: wf_text_def)
  have raw: "convert_to_rawbody ((denote t)\<lparr>req_body := body\<rparr>) = render_text ?t @ body"
    by (simp add: convert_to_rawbody_def render_text_def echo_headers_lines denote_def)
  have "denote ?t = (denote t)\<lparr>req_headers := ?hs\<rparr>"
    using apply_fields_append [of "[]" ?hs] smap_ok_filter [OF hs(1)] by (simp add: denote_def)
  with parse_text [OF ready_new wf, of body] show ?thesis
    by (simp add: echo_handle_def raw)
qed

theorem echo_roundtrip_witness:
  "\<exists>rsp p. echo_handle new_collector ((denote example_post)\<lparr>req_body := ''hi''\<rparr>) = Inr (rsp, new_collector) \<and>
     parse new_parser empty_request (rsp_body rsp) = ((good, ''hi''), p, denote example_post)"
proof -
  have "list_all is_field (rt_lines example_post)"
    and "(denote example_post)\<lparr>req_headers := filter (\<lambda>(k, v). v \<noteq> []) (req_headers (denote example_post))\<rparr> =
      denote example_post"
    by code_simp+
  with echo_roundtrip [OF example_post_wf, of new_collector "''hi''"] show ?thesis by auto
qed

end
