(* ===== verification/Static_Handler.thy ===== *)
theory Static_Handler
  imports World Cookie Simple_Handlers
begin

text \<open>
  The static file handler (\<open>src/static_request_handler.cc\<close>): optional cookie check, URI decoding,
  the path check, the replacement of the location by the root, and the file.
\<close>

record static_handler =
  st_root :: string
  st_path :: string
  st_auth_path :: string

section \<open>Construction\<close>

text \<open>\<open>None\<close> is the null pointer.\<close>

definition static_init ::
    "string \<Rightarrow> config \<Rightarrow> collector \<Rightarrow> (static_handler option \<times> collector) outcome" where
  "static_init location_path cfg c =
     (let c = add_handler location_path ''Static Request Handler'' c in
      and_then (find_argument ''root'' [] cfg) (\<lambda>root.
      and_then (find_argument ''auth'' [] cfg) (\<lambda>auth.
      and_then (is_quoted root) (\<lambda>(root_ok, root).
        if \<not> root_ok then Inr (None, c)
        else and_then (is_quoted auth) (\<lambda>(auth_ok, auth).
          let auth = (if auth_ok then auth else []) in
          Inr (Some \<lparr>st_root = root, st_path = location_path, st_auth_path = auth\<rparr>, c))))))"

section \<open>The cookie check\<close>

text \<open>\<open>boost::split\<close> with \<open>is_any_of\<close>: every separator ends a piece, empty pieces are kept.\<close>

fun split_any :: "(char \<Rightarrow> bool) \<Rightarrow> string \<Rightarrow> string list" where
  "split_any P [] = [[]]"
| "split_any P (c # cs) =
     (if P c then [] # split_any P cs
      else (case split_any P cs of [] \<Rightarrow> [[c]] | p # ps \<Rightarrow> (c # p) # ps))"

fun cookie_value :: "string list \<Rightarrow> string" where
  "cookie_value [] = []"
| "cookie_value (cookie # cookies) =
     (if starts_with cookie ''jwt='' then drop 4 cookie else cookie_value cookies)"

definition check_cookie :: "'d jwt_library \<Rightarrow> int \<Rightarrow> string \<Rightarrow> bool" where
  "check_cookie jwt now cookie_string =
     verify_cookie jwt now (cookie_value (split_any (\<lambda>c. c = CHR '';'' \<or> c = SP) cookie_string))"

definition prepare_redirect :: "static_handler \<Rightarrow> response" where
  "prepare_redirect h =
     (let response = empty_response\<lparr>rsp_code := moved_temporarily\<rparr> in
      set_header ''Location'' (st_auth_path h)
       (set_header ''Connection'' ''close''
         (set_header ''Content-Type'' ''text/plain''
           (set_header ''Content-Length'' (to_string (length (rsp_body response))) response))))"

section \<open>Decoding the URI\<close>

text \<open>
  \<open>is >> std::hex >> value\<close> on a stream of the two characters after the percent sign: leading
  white space is skipped, then an optional sign, an optional \<open>0x\<close> and hexadecimal digits are read
  up to the first other character; without a digit the extraction fails.
\<close>

definition hex_value :: "char \<Rightarrow> nat option" where
  "hex_value c =
     (if c_isdigit c then Some (digit_val c)
      else if CHR ''a'' \<le> c \<and> c \<le> CHR ''f'' then Some (of_char c - 87)
      else if CHR ''A'' \<le> c \<and> c \<le> CHR ''F'' then Some (of_char c - 55)
      else None)"

fun hex_digits :: "nat \<Rightarrow> string \<Rightarrow> nat" where
  "hex_digits n [] = n"
| "hex_digits n (c # cs) = (case hex_value c of None \<Rightarrow> n | Some d \<Rightarrow> hex_digits (16 * n + d) cs)"

definition hex_number :: "string \<Rightarrow> nat option" where
  "hex_number s =
     (let s = (case s of c # x # rest \<Rightarrow> if c = CHR ''0'' \<and> (x = CHR ''x'' \<or> x = CHR ''X'') then rest else s
               | _ \<Rightarrow> s)
      in case s of [] \<Rightarrow> None | c # cs \<Rightarrow> if hex_value c = None then None else Some (hex_digits 0 s))"

definition extract_hex :: "string \<Rightarrow> int option" where
  "extract_hex s =
     (case dropWhile c_isspace s of
        [] \<Rightarrow> None
      | c # cs \<Rightarrow>
          if c = CHR ''-'' then map_option (\<lambda>n. - int n) (hex_number cs)
          else if c = CHR ''+'' then map_option int (hex_number cs)
          else map_option int (hex_number (c # cs)))"

definition char_cast :: "int \<Rightarrow> char" where
  "char_cast n = char_of (nat (n mod 256))"

fun url_decode :: "string \<Rightarrow> string option" where
  "url_decode [] = Some []"
| "url_decode (c # cs) =
     (if c = CHR ''%'' then
        (case cs of
           a # b # rest \<Rightarrow>
             (case extract_hex [a, b] of
                Some n \<Rightarrow> map_option (\<lambda>out. char_cast n # out) (url_decode rest)
              | None \<Rightarrow> None)
         | _ \<Rightarrow> None)
      else if c = CHR ''+'' then map_option (\<lambda>out. SP # out) (url_decode cs)
      else map_option (\<lambda>out. c # out) (url_decode cs))"

section \<open>Paths\<close>

definition check_request_path :: "string \<Rightarrow> string option" where
  "check_request_path request_uri =
     (case url_decode request_uri of
        None \<Rightarrow> None
      | Some p \<Rightarrow>
          if p = [] \<or> hd p \<noteq> SLASH \<or> contains ''..'' p then None
          else Some (if last p = SLASH then p @ ''index.html'' else p))"

definition replace_path :: "static_handler \<Rightarrow> string \<Rightarrow> string option" where
  "replace_path h p =
     (case str_find (st_path h) p of
        None \<Rightarrow> None
      | Some start_pos \<Rightarrow> Some (take start_pos p @ st_root h @ drop (start_pos + length (st_path h)) p))"

text \<open>\<open>npos\<close> is the largest value, so without a slash no position is beyond it.\<close>

definition get_extension :: "string \<Rightarrow> string" where
  "get_extension request_path =
     (case (last_of (CHR ''.'') request_path, last_of SLASH request_path) of
        (Some dot, Some slash) \<Rightarrow> if dot > slash then drop (dot + 1) request_path else []
      | _ \<Rightarrow> [])"

section \<open>Handling a request\<close>

definition cookie_header :: "request \<Rightarrow> string" where
  "cookie_header request =
     (case smap_find (req_headers request) ''Cookie'' of None \<Rightarrow> [] | Some v \<Rightarrow> v)"

definition serve_file :: "static_handler \<Rightarrow> 'db world \<Rightarrow> string \<Rightarrow> response" where
  "serve_file h w request_path =
     (case replace_path h request_path of
        None \<Rightarrow> stock_response internal_server_error
      | Some full_path \<Rightarrow>
          (case open_file w full_path of
             None \<Rightarrow> stock_response not_found
           | Some content \<Rightarrow>
               file_response (extension_to_type (get_extension full_path)) content))"

definition static_response :: "'d jwt_library \<Rightarrow> static_handler \<Rightarrow> 'db world \<Rightarrow> request \<Rightarrow> response" where
  "static_response jwt h w request =
     (if st_auth_path h \<noteq> [] \<and> \<not> check_cookie jwt (w_now w) (cookie_header request)
      then prepare_redirect h
      else case check_request_path (req_uri request) of
        None \<Rightarrow> stock_response bad_request
      | Some p \<Rightarrow> serve_file h w (if p = [] then ''/'' else p))"

definition static_handle :: "'d jwt_library \<Rightarrow> static_handler \<Rightarrow> 'db world handle" where
  "static_handle jwt h w request = Inr (static_response jwt h w request, w)"

lemma prepare_redirect_simps [simp]:
  "rsp_code (prepare_redirect h) = moved_temporarily" "rsp_body (prepare_redirect h) = []"
  "smap_find (rsp_headers (prepare_redirect h)) ''Location'' = Some (st_auth_path h)"
  by (simp_all add: prepare_redirect_def Let_def)

lemma prepare_redirect_framed [simp]: "framed (prepare_redirect h)"
  by (simp add: framed_def prepare_redirect_def Let_def)

lemma serve_file_framed [simp]: "framed (serve_file h w p)"
  by (simp add: serve_file_def split: option.splits)

lemma static_response_framed [simp]: "framed (static_response jwt h w request)"
  by (simp add: static_response_def split: option.splits)

interpretation static: framing_handler "static_handle jwt h" world_ok
  by unfold_locales (auto simp: static_handle_def)

section \<open>Decoding undoes percent encoding\<close>

text \<open>A reference encoder: letters, digits and the path characters as they are.\<close>

definition plain_uri_char :: "char \<Rightarrow> bool" where
  "plain_uri_char c \<longleftrightarrow> c_isdigit c \<or> (CHR ''a'' \<le> c \<and> c \<le> CHR ''z'') \<or> (CHR ''A'' \<le> c \<and> c \<le> CHR ''Z'') \<or>
     c \<in> {SLASH, CHR ''.'', CHR ''-'', CHR ''_'', CHR ''~''}"

definition hex_char :: "nat \<Rightarrow> char" where
  "hex_char n = ''0123456789ABCDEF'' ! n"

definition encode_char :: "char \<Rightarrow> string" where
  "encode_char c = (if plain_uri_char c then [c]
     else [CHR ''%'', hex_char (of_char c div 16), hex_char (of_char c mod 16)])"

definition url_encode :: "string \<Rightarrow> string" where
  "url_encode s = concat (map encode_char s)"

definition hex_char_ok :: "nat \<Rightarrow> bool" where
  "hex_char_ok n \<longleftrightarrow> hex_value (hex_char n) = Some n \<and> \<not> c_isspace (hex_char n) \<and>
     hex_char n \<notin> {CHR ''-'', CHR ''+'', CHR ''x'', CHR ''X''}"

lemma hex_chars_ok: "n < 16 \<Longrightarrow> hex_char_ok n"
proof -
  have "list_all hex_char_ok [0 ..< 16]" by code_simp
  then show "n < 16 \<Longrightarrow> hex_char_ok n" by (simp add: list_all_iff)
qed

lemma extract_hex_pair:
  "m < 16 \<Longrightarrow> n < 16 \<Longrightarrow> extract_hex [hex_char m, hex_char n] = Some (int (16 * m + n))"
  using hex_chars_ok [of m] hex_chars_ok [of n]
  by (simp add: extract_hex_def hex_number_def hex_char_ok_def)

lemma char_cast_of_char [simp]: "char_cast (int (of_char c)) = c"
  by (simp add: char_cast_def nat_mod_distrib)

lemma plain_not_escape: "plain_uri_char c \<Longrightarrow> c \<noteq> CHR ''%'' \<and> c \<noteq> CHR ''+''"
proof -
  have "\<not> plain_uri_char (CHR ''%'')" "\<not> plain_uri_char (CHR ''+'')" by code_simp+
  then show "plain_uri_char c \<Longrightarrow> c \<noteq> CHR ''%'' \<and> c \<noteq> CHR ''+''" by blast
qed

lemma url_decode_encode_char: "url_decode (encode_char c @ s) = map_option (\<lambda>out. c # out) (url_decode s)"
proof (cases "plain_uri_char c")
  case True
  then show ?thesis using plain_not_escape [of c] by (simp add: encode_char_def)
next
  case False
  have "(of_char c :: nat) < 256" by simp
  then have "(of_char c :: nat) div 16 < 16" by linarith
  then have "extract_hex [hex_char (of_char c div 16), hex_char (of_char c mod 16)] = Some (int (of_char c))"
    by (simp add: extract_hex_pair)
  with False show ?thesis by (simp add: encode_char_def)
qed

lemma url_decode_encode: "url_decode (url_encode s) = Some s"
  by (induction s) (simp_all add: url_encode_def url_decode_encode_char)

interpretation percent: codec url_encode url_decode "\<lambda>s. True"
  by unfold_locales (simp_all add: url_decode_encode)

section \<open>The file that is opened\<close>

lemma no_dotdot_append:
  "\<not> contains ''..'' p \<Longrightarrow> last p = SLASH \<Longrightarrow> p \<noteq> [] \<Longrightarrow> \<not> contains ''..'' (p @ ''index.html'')"
proof -
  assume p: "\<not> contains ''..'' p" "last p = SLASH" "p \<noteq> []"
  then obtain q where q: "p = q @ [SLASH]" by (metis append_butlast_last_id)
  have ends: "\<not> sublist ''..'' ''index.html''"
    unfolding contains_iff_sublist [symmetric] by code_simp
  show "\<not> contains ''..'' (p @ ''index.html'')"
  proof
    assume "contains ''..'' (p @ ''index.html'')"
    then obtain us vs where split: "''..'' = us @ vs" "us \<noteq> []" "vs \<noteq> []" "suffix us p" "prefix vs ''index.html''"
      using p(1) ends by (fastforce simp: contains_iff_sublist sublist_append)
    then have "us = [CHR ''.'']" by (cases us) (auto simp: Cons_eq_append_conv append_eq_Cons_conv)
    with split(4) q show False by (simp add: suffix_def)
  qed
qed

lemma checked_path:
  assumes "check_request_path u = Some p"
  shows "p \<noteq> [] \<and> hd p = SLASH \<and> \<not> contains ''..'' p \<and>
    (\<exists>d. url_decode u = Some d \<and> prefix d p)"
  using assms no_dotdot_append
  by (auto simp: check_request_path_def split: option.splits if_splits)

lemma no_dotdot_takeWhile_drop:
  "\<not> contains ''..'' p \<Longrightarrow> \<not> contains ''..'' (takeWhile P (drop n p))"
proof -
  have "sublist (takeWhile P (drop n p)) p"
    by (metis sublist_def append_take_drop_id takeWhile_dropWhile_id)
  then show "\<not> contains ''..'' p \<Longrightarrow> \<not> contains ''..'' (takeWhile P (drop n p))"
    unfolding contains_iff_sublist using sublist_order.order_trans by blast
qed

lemma takeWhile_past: "x \<notin> set a \<Longrightarrow> takeWhile (\<lambda>c. c \<noteq> x) (a @ b) = a @ takeWhile (\<lambda>c. c \<noteq> x) b"
  by (induction a) auto

lemma replace_path_prefix:
  "prefix (st_path h) p \<Longrightarrow> replace_path h p = Some (st_root h @ drop (length (st_path h)) p)"
  by (simp add: replace_path_def str_find_prefix)

lemma open_clean: "NUL \<notin> set p \<Longrightarrow> open_file w p = w_files w p"
  by (simp add: open_file_def takeWhile_clean)

lemma open_under_root:
  "NUL \<notin> set root \<Longrightarrow> open_file w (root @ rest) = w_files w (root @ takeWhile (\<lambda>c. c \<noteq> NUL) rest)"
  by (simp add: open_file_def takeWhile_past)

lemma served_file:
  assumes "rsp_code (serve_file h w p) = ok" and "prefix (st_path h) p" and "NUL \<notin> set (st_root h)"
    and "\<not> contains ''..'' p"
  shows "\<exists>rest. w_files w (st_root h @ rest) = Some (rsp_body (serve_file h w p)) \<and>
    \<not> contains ''..'' rest \<and> NUL \<notin> set rest"
proof -
  let ?rest = "takeWhile (\<lambda>c. c \<noteq> NUL) (drop (length (st_path h)) p)"
  have "NUL \<notin> set ?rest" by (auto dest: set_takeWhileD)
  moreover have "\<not> contains ''..'' ?rest"
    by (rule no_dotdot_takeWhile_drop [OF assms(4)])
  moreover have "w_files w (st_root h @ ?rest) = Some (rsp_body (serve_file h w p))"
    using assms(1-3)
    by (simp add: serve_file_def replace_path_prefix open_under_root split: option.splits)
  ultimately show ?thesis by blast
qed

text \<open>
  C2: no traversal.  When the decoded URI begins with the location of the handler, a request that
  is answered with 200 gets the content of a file whose path is the root followed by a remainder
  without \<open>..\<close> and without NUL, whatever the percent encoding of the URI was.
\<close>

theorem static_confined:
  assumes "NUL \<notin> set (st_root h)"
    and "url_decode (req_uri request) = Some p" and "prefix (st_path h) p"
    and "static_handle jwt h w request = Inr (rsp, w')" and "rsp_code rsp = ok"
  shows "\<exists>rest. w_files w (st_root h @ rest) = Some (rsp_body rsp) \<and>
    \<not> contains ''..'' rest \<and> NUL \<notin> set rest"
proof -
  have rsp: "rsp = static_response jwt h w request" using assms(4) by (auto simp: static_handle_def)
  from assms(5) obtain q where q: "check_request_path (req_uri request) = Some q"
    and served: "rsp = serve_file h w q"
    unfolding rsp static_response_def
    by (auto split: if_splits option.splits dest: checked_path)
  have "prefix (st_path h) q" and "\<not> contains ''..'' q"
    using checked_path [OF q] assms(2,3) by (auto intro: prefix_order.trans)
  with served_file [of h w q] assms(1,5) served show ?thesis by blast
qed

definition example_static :: static_handler where
  "example_static = \<lparr>st_root = ''/srv/'', st_path = ''/static/'', st_auth_path = []\<rparr>"

definition example_world :: "unit world" where
  "example_world = \<lparr>w_collector = new_collector,
     w_files = [''/srv/a.txt'' \<mapsto> ''hello''], w_now = 0, w_entropy = 0, w_db = ()\<rparr>"

definition get_request :: "string \<Rightarrow> request" where
  "get_request u = empty_request\<lparr>req_uri := u, req_version := ''1.1''\<rparr>"

definition no_tokens :: "unit jwt_library" where
  "no_tokens = \<lparr>jwt_sign = (\<lambda>_ _. []), jwt_decode = (\<lambda>_. None), jwt_verify = (\<lambda>_ _ _ _. False)\<rparr>"

theorem static_confined_witness:
  "static_handle no_tokens example_static example_world (get_request ''/static/%61.txt'') =
     Inr (file_response ''text/plain'' ''hello'', example_world) \<and>
   (\<exists>rest. w_files example_world (''/srv/'' @ rest) = Some ''hello'' \<and> \<not> contains ''..'' rest \<and> NUL \<notin> set rest)"
proof -
  let ?r = "get_request ''/static/%61.txt''"
  have run: "static_response no_tokens example_static example_world ?r = file_response ''text/plain'' ''hello''"
    by code_simp
  have dec: "url_decode (req_uri ?r) = Some ''/static/a.txt''" by code_simp
  have pre: "prefix (st_path example_static) ''/static/a.txt''" by code_simp
  have nul: "NUL \<notin> set (st_root example_static)" by code_simp
  have handle: "static_handle no_tokens example_static example_world ?r =
      Inr (file_response ''text/plain'' ''hello'', example_world)"
    by (simp only: static_handle_def run)
  have root: "st_root example_static = ''/srv/''" by (simp add: example_static_def)
  show ?thesis
    using static_confined [OF nul dec pre handle file_response_simps(1)]
    by (simp only: root file_response_simps handle simp_thms)
qed



text \<open>
  percent decoding undoes percent encoding, for every string of bytes.
\<close>

theorem url_decode_roundtrip: "url_decode (url_encode s) = Some s"
  by (rule percent.decode_encode) simp

section \<open>Sessions\<close>

lemma split_any_piece:
  "list_all (\<lambda>c. \<not> P c) piece \<Longrightarrow> split_any P piece = [piece]"
  by (induction piece) auto

lemma split_any_nonempty [simp]: "split_any P s \<noteq> []"
  by (cases s) (auto split: list.splits)

lemma split_any_Cons:
  "list_all (\<lambda>c. \<not> P c) piece \<Longrightarrow> P x \<Longrightarrow> split_any P (piece @ x # rest) = piece # split_any P rest"
  by (induction piece) auto

text \<open>The value of a Cookie header: other cookies first, each followed by a semicolon and a space.\<close>

definition cookie_line :: "string list \<Rightarrow> string \<Rightarrow> string" where
  "cookie_line others token = concat (map (\<lambda>c. c @ ''; '') others) @ ''jwt='' @ token"

definition other_cookie :: "string \<Rightarrow> bool" where
  "other_cookie c \<longleftrightarrow> list_all (\<lambda>c. \<not> cookie_separator c) c \<and> \<not> starts_with c ''jwt=''"

lemma cookie_value_line:
  assumes "list_all other_cookie others" and "list_all (\<lambda>c. \<not> cookie_separator c) token"
  shows "cookie_value (split_any cookie_separator (cookie_line others token)) = token"
  using assms
proof (induction others)
  case Nil
  then have "split_any cookie_separator (''jwt='' @ token) = [''jwt='' @ token]"
    by (intro split_any_piece) (simp add: cookie_separator_def)
  then show ?case by (simp add: cookie_line_def starts_with_def)
next
  case (Cons c others)
  have "cookie_line (c # others) token = c @ CHR '';'' # ([] @ SP # cookie_line others token)"
    by (simp add: cookie_line_def)
  then have "split_any cookie_separator (cookie_line (c # others) token) =
      c # [] # split_any cookie_separator (cookie_line others token)"
    using Cons.prems split_any_Cons [of cookie_separator c "CHR '';''"]
      split_any_Cons [of cookie_separator "[]" SP]
    by (simp add: other_cookie_def) (simp add: cookie_separator_def)
  then show ?case
    using Cons by (simp add: other_cookie_def starts_with_def)
qed

lemma check_cookie_line:
  assumes "list_all other_cookie others" and "jwt_law jwt SECRET (cookie_claims t username)"
  shows "check_cookie jwt now (cookie_line others (generate_cookie jwt t username)) \<longleftrightarrow>
    t \<le> now \<and> now \<le> t + TIME_TO_LIVE"
  using cookie_value_line [OF assms(1) generated_cookie_clean [OF assms(2)]]
    generated_cookie_verifies [OF assms(2)]
  by (simp add: check_cookie_def cookie_separator_def [abs_def])

lemma static_gate:
  assumes "st_auth_path h \<noteq> []"
    and "jwt_law jwt SECRET (cookie_claims t username)"
    and "list_all other_cookie others"
    and "smap_find (req_headers request) ''Cookie'' = Some (cookie_line others (generate_cookie jwt t username))"
  shows "static_handle jwt h w request =
    (if t \<le> w_now w \<and> w_now w \<le> t + 7200
     then static_handle jwt (h\<lparr>st_auth_path := []\<rparr>) w request
     else Inr (prepare_redirect h, w))"
proof -
  have "serve_file (h\<lparr>st_auth_path := []\<rparr>) w p = serve_file h w p" for p
    by (simp add: serve_file_def replace_path_def split: option.splits)
  then show ?thesis
    using assms(1,4) check_cookie_line [OF assms(3,2), of "w_now w"]
    by (auto simp: static_handle_def static_response_def cookie_header_def TIME_TO_LIVE_def
        split: option.splits)
qed

text \<open>
  a login lasts two hours.  A client that sends the token made for it at time \<open>t\<close> back in its
  Cookie header, after any other cookies, gets what the handler without the check would answer
  as long as the clock is between \<open>t\<close> and \<open>t + 7200\<close>; otherwise it gets the redirect to the login
  page, whatever it asked for.
\<close>

theorem static_session:
  assumes "st_auth_path h \<noteq> []"
    and "jwt_law jwt SECRET (cookie_claims t username)"
    and "list_all other_cookie others"
    and "smap_find (req_headers request) ''Cookie'' = Some (cookie_line others (generate_cookie jwt t username))"
  shows "static_handle jwt h w request =
    (if t \<le> w_now w \<and> w_now w \<le> t + 7200
     then static_handle jwt (h\<lparr>st_auth_path := []\<rparr>) w request
     else Inr (prepare_redirect h, w))"
  by (rule static_gate [OF assms])

text \<open>A library that knows one token, made at time 0.\<close>

definition one_token :: "jwt_claims jwt_library" where
  "one_token = \<lparr>jwt_sign = (\<lambda>_ _. ''a.b.c''),
     jwt_decode = (\<lambda>s. if s = ''a.b.c'' then Some (cookie_claims 0 ''fox'') else None),
     jwt_verify = (\<lambda>_ iss now d. issuer d = iss \<and> issued_at d \<le> now \<and> now \<le> expires_at d)\<rparr>"

lemma one_token_law: "jwt_law one_token SECRET (cookie_claims 0 ''fox'')"
  by (simp add: jwt_law_def one_token_def cookie_claims_def TIME_TO_LIVE_def cookie_separator_def)

definition cookie_request :: request where
  "cookie_request = (get_request ''/static/a.txt'')
     \<lparr>req_headers := [(''Cookie'', ''theme=dark; jwt=a.b.c'')]\<rparr>"

theorem static_session_witness:
  "static_handle one_token (example_static\<lparr>st_auth_path := ''/login/''\<rparr>) (example_world\<lparr>w_now := 7200\<rparr>)
       cookie_request = Inr (file_response ''text/plain'' ''hello'', example_world\<lparr>w_now := 7200\<rparr>) \<and>
   static_handle one_token (example_static\<lparr>st_auth_path := ''/login/''\<rparr>) (example_world\<lparr>w_now := 7201\<rparr>)
       cookie_request =
     Inr (prepare_redirect (example_static\<lparr>st_auth_path := ''/login/''\<rparr>), example_world\<lparr>w_now := 7201\<rparr>)"
proof -
  let ?h = "example_static\<lparr>st_auth_path := ''/login/''\<rparr>"
  have auth: "st_auth_path ?h \<noteq> []" by simp
  have others: "list_all other_cookie [''theme=dark'']" by code_simp
  have header: "smap_find (req_headers cookie_request) ''Cookie'' =
      Some (cookie_line [''theme=dark''] (generate_cookie one_token 0 ''fox''))"
    by code_simp
  have run: "static_handle one_token ?h w cookie_request =
      (if 0 \<le> w_now w \<and> w_now w \<le> 0 + 7200
       then static_handle one_token (?h\<lparr>st_auth_path := []\<rparr>) w cookie_request
       else Inr (prepare_redirect ?h, w))" for w :: "unit world"
    by (rule static_session [OF auth one_token_law others header])
  have "static_response one_token (?h\<lparr>st_auth_path := []\<rparr>) (example_world\<lparr>w_now := 7200\<rparr>) cookie_request =
      file_response ''text/plain'' ''hello''"
    by code_simp
  then show ?thesis unfolding run by (simp add: static_handle_def)
qed

section \<open>Where the path check falls short\<close>

text \<open>
  The location is replaced wherever it first occurs, after the check for \<open>..\<close> was made.  When it
  occurs behind a dot and the root starts with a dot, the file that is opened lies behind \<open>..\<close>
  although the checked path had none.
\<close>

theorem static_dotdot_after_check:
  assumes "check_request_path (req_uri request) = Some p" and "p \<noteq> []"
    and "st_auth_path h = []" and "st_root h = CHR ''.'' # r"
    and "str_find (st_path h) p = Some i" and "0 < i" and "p ! (i - 1) = CHR ''.''"
  shows "\<exists>name. contains ''..'' name \<and> \<not> contains ''..'' p \<and>
    static_handle jwt h w request = Inr (case open_file w name of
        None \<Rightarrow> stock_response not_found
      | Some content \<Rightarrow> file_response (extension_to_type (get_extension name)) content, w)"
proof -
  let ?name = "take i p @ st_root h @ drop (i + length (st_path h)) p"
  have "i \<le> length p" using str_find_Some [OF assms(5)] by simp
  then have "take i p = take (i - 1) p @ [CHR ''.'']"
    using assms(6,7) take_Suc_conv_app_nth [of "i - 1" p] by simp
  then have "?name = take (i - 1) p @ ''..'' @ r @ drop (i + length (st_path h)) p"
    using assms(4) by simp
  then have "contains ''..'' ?name"
    unfolding contains_iff_sublist sublist_def by blast
  moreover have "\<not> contains ''..'' p" using checked_path [OF assms(1)] by simp
  moreover have "replace_path h p = Some ?name" using assms(5) by (simp add: replace_path_def)
  ultimately show ?thesis
    using assms(1-3) by (auto simp: static_handle_def static_response_def serve_file_def split: option.splits)
qed

theorem static_dotdot_after_check_witness:
  "let h = example_static\<lparr>st_root := ''./files/''\<rparr> in
   check_request_path ''/x/./static/a'' = Some ''/x/./static/a'' \<and>
   replace_path h ''/x/./static/a'' = Some ''/x/../files/a'' \<and>
   (\<exists>name. contains ''..'' name \<and>
     static_handle no_tokens h example_world (get_request ''/x/./static/a'') =
       Inr (case open_file example_world name of
          None \<Rightarrow> stock_response not_found
        | Some content \<Rightarrow> file_response (extension_to_type (get_extension name)) content, example_world))"
proof -
  let ?h = "example_static\<lparr>st_root := ''./files/''\<rparr>"
  have check: "check_request_path (req_uri (get_request ''/x/./static/a'')) = Some ''/x/./static/a''"
    and auth: "st_auth_path ?h = []" and root: "st_root ?h = CHR ''.'' # ''/files/''"
    and pos: "str_find (st_path ?h) ''/x/./static/a'' = Some 4" and dot: "''/x/./static/a'' ! (4 - 1) = CHR ''.''"
    and repl: "replace_path ?h ''/x/./static/a'' = Some ''/x/../files/a''"
    by code_simp+
  have "check_request_path ''/x/./static/a'' = Some ''/x/./static/a''"
    using check by (simp only: get_request_def) simp
  moreover have "''/x/./static/a'' \<noteq> []" and "0 < (4::nat)" by simp_all
  ultimately show ?thesis
    using repl static_dotdot_after_check [OF check _ auth root pos _ dot, of no_tokens example_world]
    unfolding Let_def by blast
qed

text \<open>
  A NUL in the decoded path cuts the name of the file that is opened, but not the name the
  extension is taken from: a request can have any file below the root served as any media type.
\<close>

theorem static_nul_truncates:
  assumes "st_auth_path h = []" and "NUL \<notin> set (st_root h)" and "NUL \<notin> set p"
    and "req_uri request = url_encode (p @ NUL # q)"
    and "prefix (st_path h) p" and "p \<noteq> []" and "hd p = SLASH"
    and "\<not> contains ''..'' (p @ NUL # q)" and "q \<noteq> []" and "last q \<noteq> SLASH"
  shows "let name = st_root h @ drop (length (st_path h)) p in
    static_handle jwt h w request = Inr (case w_files w name of
        None \<Rightarrow> stock_response not_found
      | Some content \<Rightarrow> file_response (extension_to_type (get_extension (name @ NUL # q))) content, w)"
proof -
  let ?name = "st_root h @ drop (length (st_path h)) p"
  have check: "check_request_path (req_uri request) = Some (p @ NUL # q)"
    using assms by (simp add: check_request_path_def url_decode_encode)
  have "replace_path h (p @ NUL # q) = Some (?name @ NUL # q)"
    using assms(5) prefix_length_le [OF assms(5)] by (simp add: replace_path_prefix)
  moreover have "NUL \<notin> set ?name"
    using assms(2,3) by (auto dest: in_set_dropD)
  then have "takeWhile (\<lambda>c. c \<noteq> NUL) (?name @ NUL # q) = ?name"
    by (rule takeWhile_until)
  then have "open_file w (?name @ NUL # q) = w_files w ?name"
    by (simp only: open_file_def)
  ultimately show ?thesis
    using assms(1,6) check
    by (simp add: static_handle_def static_response_def serve_file_def Let_def split: option.splits)
qed

theorem static_nul_truncates_witness:
  "static_handle no_tokens example_static example_world (get_request (url_encode (''/static/a.txt'' @ NUL # ''x.html''))) =
     Inr (file_response ''text/html'' ''hello'', example_world)"
proof -
  let ?p = "''/static/a.txt''" and ?q = "''x.html''"
  have facts: "st_auth_path example_static = []" "NUL \<notin> set (st_root example_static)" "NUL \<notin> set ?p"
    "prefix (st_path example_static) ?p" "\<not> contains ''..'' (?p @ NUL # ?q)"
    by code_simp+
  have name: "st_root example_static @ drop (length (st_path example_static)) ?p = ''/srv/a.txt''"
    and entry: "w_files example_world ''/srv/a.txt'' = Some ''hello''"
    and media: "extension_to_type (get_extension (''/srv/a.txt'' @ NUL # ?q)) = ''text/html''"
    by code_simp+
  have "static_handle no_tokens example_static example_world r =
      Inr (file_response ''text/html'' ''hello'', example_world)" if "req_uri r = url_encode (?p @ NUL # ?q)" for r
    using static_nul_truncates [OF facts(1-3) that facts(4) _ _ facts(5), of no_tokens example_world]
    unfolding Let_def name entry media by simp
  then show ?thesis by (simp only: get_request_def) simp
qed

end
