(* ===== verification/Login_Handler.thy ===== *)
theory Login_Handler
  imports Accounts Static_Handler
begin

text \<open>
  The login handler (\<open>src/login_request_handler.cc\<close>): GET serves the forms, POST signs a user up
  or logs a user in and sets the session cookie.
\<close>

record login_handler =
  lg_root :: string
  lg_path :: string

record ('d, 'db) login_libs =
  lib_jwt :: "'d jwt_library"
  lib_bcrypt :: bcrypt
  lib_sqlite :: "'db sqlite"

definition login_init ::
    "string \<Rightarrow> config \<Rightarrow> collector \<Rightarrow> (login_handler option \<times> collector) outcome" where
  "login_init location_path cfg c =
     (let c = add_handler location_path ''Login Request Handler'' c in
      and_then (find_argument ''root'' [] cfg) (\<lambda>root.
      and_then (is_quoted root) (\<lambda>(root_ok, root).
        if \<not> root_ok then Inr (None, c)
        else Inr (Some \<lparr>lg_root = root, lg_path = location_path\<rparr>, c))))"

definition prepare_html_response :: "login_handler \<Rightarrow> string \<Rightarrow> 'db world \<Rightarrow> response" where
  "prepare_html_response h name w =
     (case open_file w (lg_root h @ name) of
        None \<Rightarrow> stock_response not_found
      | Some content \<Rightarrow> file_response ''text/html'' content)"

section \<open>The form fields\<close>

text \<open>
  \<open>std::regex_constants::icase\<close> compares lower-cased characters.  The search takes the leftmost
  position where the whole expression matches; \<open>(.*?)\<close> is the shortest text up to an ampersand
  (or, for the password, the end), and the dot matches no line terminator.
\<close>

definition c_tolower :: "char \<Rightarrow> char" where
  "c_tolower c = (if CHR ''A'' \<le> c \<and> c \<le> CHR ''Z'' then char_of (of_char c + 32 :: nat) else c)"

fun match_icase :: "string \<Rightarrow> string \<Rightarrow> string option" where
  "match_icase [] s = Some s"
| "match_icase (p # ps) [] = None"
| "match_icase (p # ps) (c # cs) = (if c_tolower c = p then match_icase ps cs else None)"

fun match_lazy :: "bool \<Rightarrow> string \<Rightarrow> string option" where
  "match_lazy at_end [] = (if at_end then Some [] else None)"
| "match_lazy at_end (c # cs) =
     (if c = CHR ''&'' then Some []
      else if c = LF \<or> c = CR then None
      else map_option (\<lambda>v. c # v) (match_lazy at_end cs))"

fun search_field :: "string \<Rightarrow> bool \<Rightarrow> string \<Rightarrow> string" where
  "search_field key at_end [] = []"
| "search_field key at_end (c # cs) =
     (case match_icase key (c # cs) of
        Some rest \<Rightarrow> (case match_lazy at_end rest of Some v \<Rightarrow> v | None \<Rightarrow> search_field key at_end cs)
      | None \<Rightarrow> search_field key at_end cs)"

definition extract_username :: "string \<Rightarrow> string" where
  "extract_username txt = search_field ''username='' False txt"

definition extract_password :: "string \<Rightarrow> string" where
  "extract_password txt = search_field ''password='' True txt"

section \<open>Accounts\<close>

definition compare_password ::
    "('d, 'db) login_libs \<Rightarrow> string \<Rightarrow> string \<Rightarrow> 'db world \<Rightarrow> bool \<times> 'db world" where
  "compare_password libs username password w =
     (case db_select_pass (lib_sqlite libs) username [] w of
        (rc, hashed_password, w) \<Rightarrow> (check_password (lib_bcrypt libs) password hashed_password, w))"

definition signup ::
    "('d, 'db) login_libs \<Rightarrow> string \<Rightarrow> string \<Rightarrow> 'db world \<Rightarrow> (bool \<times> 'db world) outcome" where
  "signup libs username password w =
     and_then (db_insert (lib_bcrypt libs) (lib_sqlite libs) username password w)
       (\<lambda>(rc, w). Inr (rc \<noteq> SQLITE_CONSTRAINT, w))"

section \<open>Handling a request\<close>

definition login_post_signup ::
    "('d, 'db) login_libs \<Rightarrow> login_handler \<Rightarrow> string \<Rightarrow> string \<Rightarrow> 'db world \<Rightarrow>
     (response \<times> 'db world) outcome" where
  "login_post_signup libs h username password w =
     and_then (signup libs username password w) (\<lambda>(valid_signup, w).
       Inr (if username \<noteq> [] \<and> password \<noteq> [] \<and> valid_signup
            then prepare_html_response h ''signup/signup_success.html'' w
            else prepare_html_response h ''signup/signup_failure.html'' w, w))"

definition login_post_login ::
    "('d, 'db) login_libs \<Rightarrow> login_handler \<Rightarrow> string \<Rightarrow> string \<Rightarrow> 'db world \<Rightarrow> response \<times> 'db world" where
  "login_post_login libs h username password w =
     (let (is_valid_password, w) =
        (if username \<noteq> [] then compare_password libs username password w else (False, w))
      in if is_valid_password
         then let cookie = generate_cookie (lib_jwt libs) (w_now w) username in
           (set_header ''Set-Cookie'' (''jwt='' @ cookie @ ''; Path=/'')
              (prepare_html_response h ''login_success.html'' w), w)
         else (prepare_html_response h ''login_failure.html'' w, w))"

definition login_handle :: "('d, 'db) login_libs \<Rightarrow> login_handler \<Rightarrow> 'db world handle" where
  "login_handle libs h w request =
     (case req_method request of
        GET \<Rightarrow>
          Inr (if contains ''signup'' (req_uri request)
               then prepare_html_response h ''signup/index.html'' w
               else prepare_html_response h ''index.html'' w, w)
      | POST \<Rightarrow>
          (let username = extract_username (req_body request);
               password = extract_password (req_body request) in
           if contains ''signup'' (req_uri request)
           then login_post_signup libs h username password w
           else Inr (login_post_login libs h username password w))
      | _ \<Rightarrow> Inr (stock_response bad_request, w))"

section \<open>The contract\<close>

lemma prepare_html_framed [simp]: "framed (prepare_html_response h f w)"
  by (simp add: prepare_html_response_def split: option.splits)

lemma generate_hash_world:
  "generate_hash bc p w = Inr (hash, w') \<Longrightarrow> w' = w\<lparr>w_entropy := Suc (w_entropy w)\<rparr>"
  by (auto simp: generate_hash_def and_then_Inr_iff)

text \<open>The parts of the world that a login handler leaves alone.\<close>

definition untouched :: "'db world \<Rightarrow> 'db world \<Rightarrow> bool" where
  "untouched w w' \<longleftrightarrow> w_collector w' = w_collector w \<and> w_files w' = w_files w \<and> w_now w' = w_now w"

lemma untouched_refl [simp]: "untouched w w"
  by (simp add: untouched_def)

lemma db_insert_untouched: "db_insert bc sq u p w = Inr (rc, w') \<Longrightarrow> untouched w w'"
  by (auto simp: untouched_def db_insert_def and_then_Inr_iff Let_def dest!: generate_hash_world
      split: if_splits prod.splits)

lemma compare_password_untouched: "untouched w (snd (compare_password libs u p w))"
  by (simp add: untouched_def compare_password_def db_select_pass_def Let_def split: prod.splits if_splits)

lemma login_post_login_untouched: "untouched w (snd (login_post_login libs h u p w))"
  using compare_password_untouched [of w libs u p]
  by (auto simp: login_post_login_def Let_def split: prod.splits if_splits)

lemma login_post_login_framed: "framed (fst (login_post_login libs h u p w))"
  by (auto simp: login_post_login_def Let_def set_header_framed split: prod.splits if_splits)

lemma login_handle_contract:
  assumes "login_handle libs h w request = Inr (rsp, w')"
  shows "framed rsp \<and> untouched w w'"
proof -
  have "framed rsp \<and> untouched w w'"
    if "login_post_signup libs h u p w = Inr (rsp, w')" for u p
    using that by (auto simp: login_post_signup_def signup_def and_then_Inr_iff
        dest!: db_insert_untouched split: if_splits)
  moreover have "framed rsp \<and> untouched w w'"
    if "login_post_login libs h u p w = (rsp, w')" for u p
    using login_post_login_framed [of libs h u p w] login_post_login_untouched [of w libs h u p] that by simp
  ultimately show ?thesis
    using assms by (auto simp: login_handle_def Let_def split: http_method.splits if_splits)
qed

interpretation login: framing_handler "login_handle libs h" world_ok
  by unfold_locales (auto simp: world_ok_def untouched_def dest!: login_handle_contract)

section \<open>Forms\<close>

text \<open>A form field as browsers send it: separators and line ends are percent-encoded.\<close>

definition form_value :: "string \<Rightarrow> bool" where
  "form_value v \<longleftrightarrow> list_all (\<lambda>c. c \<noteq> CHR ''&'' \<and> c \<noteq> CHR ''='' \<and> c \<noteq> LF \<and> c \<noteq> CR) v"

definition credentials :: "string \<Rightarrow> string \<Rightarrow> string" where
  "credentials u p = ''username='' @ u @ ''&password='' @ p"

lemma match_icase_shape: "match_icase key s = Some rest \<Longrightarrow> \<exists>pre. s = pre @ rest \<and> map c_tolower pre = key"
  by (induction key s rule: match_icase.induct) (auto split: if_splits intro: exI [of _ "_ # _"])

lemma match_lazy_value:
  "list_all (\<lambda>c. c \<noteq> CHR ''&'' \<and> c \<noteq> LF \<and> c \<noteq> CR) v \<Longrightarrow> match_lazy e (v @ CHR ''&'' # rest) = Some v"
  "list_all (\<lambda>c. c \<noteq> CHR ''&'' \<and> c \<noteq> LF \<and> c \<noteq> CR) v \<Longrightarrow> match_lazy True v = Some v"
  by (induction v) auto

lemma match_icase_self: "list_all (\<lambda>c. c_tolower c = c) key \<Longrightarrow> match_icase key (key @ s) = Some s"
  by (induction key) auto

lemma search_hit:
  "match_icase key s = Some rest \<Longrightarrow> match_lazy e rest = Some v \<Longrightarrow> s \<noteq> [] \<Longrightarrow> search_field key e s = v"
  by (cases s) auto

lemma search_miss:
  "match_icase key (c # cs) = None \<Longrightarrow> search_field key e (c # cs) = search_field key e cs"
  by simp

lemma extract_username_credentials:
  assumes "form_value u"
  shows "extract_username (credentials u p) = u"
proof -
  have key: "list_all (\<lambda>c. c_tolower c = c) ''username=''" by code_simp
  have "match_lazy False (u @ CHR ''&'' # ''password='' @ p) = Some u"
    using assms by (intro match_lazy_value) (auto simp: form_value_def list_all_iff)
  then have "search_field ''username='' False (''username='' @ u @ CHR ''&'' # ''password='' @ p) = u"
    by (rule search_hit [OF match_icase_self [OF key]]) simp
  then show ?thesis by (simp add: extract_username_def credentials_def)
qed

text \<open>The key can only match where the text up to the next equals sign is short enough.\<close>

lemma c_tolower_eq_sign: "c_tolower c = CHR ''='' \<Longrightarrow> c = CHR ''=''"
proof (rule ccontr)
  assume low: "c_tolower c = CHR ''=''" and "c \<noteq> CHR ''=''"
  then have "CHR ''A'' \<le> c" "c \<le> CHR ''Z''" and eq: "char_of (of_char c + 32 :: nat) = CHR ''=''"
    by (auto simp: c_tolower_def split: if_splits)
  then have "65 \<le> (of_char c :: nat)" "(of_char c :: nat) \<le> 90"
    by (simp_all add: less_eq_char_def)
  moreover have "(of_char c + 32 :: nat) mod 256 = 61"
    using arg_cong [OF eq, of "of_char :: char \<Rightarrow> nat"] by simp
  ultimately show False by simp
qed

lemma takeWhile_bound: "i < length s \<Longrightarrow> \<not> P (s ! i) \<Longrightarrow> length (takeWhile P s) \<le> i"
proof (rule ccontr)
  assume s: "i < length s" "\<not> P (s ! i)" and "\<not> length (takeWhile P s) \<le> i"
  then have i: "i < length (takeWhile P s)" by simp
  then have "takeWhile P s ! i = s ! i" by (rule takeWhile_nth)
  moreover have "takeWhile P s ! i \<in> set (takeWhile P s)" using i by (rule nth_mem)
  then have "P (takeWhile P s ! i)" by (blast dest: set_takeWhileD)
  ultimately show False using s(2) by (simp only:)
qed

lemma match_password_name:
  assumes "match_icase ''password='' s = Some rest"
  shows "length (takeWhile (\<lambda>c. c \<noteq> CHR ''='') s) \<le> 8"
proof -
  obtain pre where s: "s = pre @ rest" and pre: "map c_tolower pre = ''password=''"
    using match_icase_shape [OF assms] by (elim exE conjE that)
  have len: "length pre = 9" using arg_cong [OF pre, of length] by simp
  have "c_tolower (pre ! 8) = CHR ''=''" using arg_cong [OF pre, of "\<lambda>l. l ! 8"] len by simp
  then have "s ! 8 = CHR ''=''" using s len c_tolower_eq_sign by (simp add: nth_append)
  then show ?thesis by (intro takeWhile_bound) (simp_all add: s len)
qed

lemma search_password_value:
  assumes "list_all (\<lambda>c. c \<noteq> CHR ''='') x"
  shows "search_field ''password='' e (x @ CHR ''&'' # ''password='' @ p) = search_field ''password='' e (''password='' @ p)"
  using assms
proof (induction x)
  case Nil
  have "match_icase ''password='' (CHR ''&'' # ''password='' @ p) = None"
    using match_password_name [of "CHR ''&'' # ''password='' @ p"] by fastforce
  then show ?case by (simp only: append.simps search_miss)
next
  case (Cons c x)
  have "8 < length (takeWhile (\<lambda>c. c \<noteq> CHR ''='') ((c # x) @ CHR ''&'' # ''password='' @ p))"
    using Cons.prems by (simp add: takeWhile_append2 list_all_iff)
  then have "match_icase ''password='' (c # x @ CHR ''&'' # ''password='' @ p) = None"
    using match_password_name [of "c # x @ CHR ''&'' # ''password='' @ p"] by fastforce
  then show ?case using Cons by (simp only: append.simps search_miss) simp
qed

lemma extract_password_credentials:
  assumes "form_value u" and "form_value p"
  shows "extract_password (credentials u p) = p"
proof -
  have key: "list_all (\<lambda>c. c_tolower c = c) ''password=''" by code_simp
  have name: "list_all (\<lambda>c. c_tolower c \<noteq> CHR ''p'') ''username=''" by code_simp
  have skip: "search_field ''password='' e (x @ s) = search_field ''password='' e s"
    if "list_all (\<lambda>c. c_tolower c \<noteq> CHR ''p'') x" for x s e
    using that by (induction x) simp_all
  have "match_lazy True p = Some p"
    using assms(2) by (intro match_lazy_value) (auto simp: form_value_def list_all_iff)
  then have "search_field ''password='' True (''password='' @ p) = p"
    by (rule search_hit [OF match_icase_self [OF key]]) simp
  moreover have "list_all (\<lambda>c. c \<noteq> CHR ''='') u"
    using assms(1) by (auto simp: form_value_def list_all_iff)
  ultimately have "search_field ''password='' True (''username='' @ u @ CHR ''&'' # ''password='' @ p) = p"
    by (simp only: skip [OF name] search_password_value)
  then show ?thesis by (simp add: extract_password_def credentials_def)
qed

section \<open>Who gets in\<close>

lemma prepare_html_files:
  "w_files w' = w_files w \<Longrightarrow> prepare_html_response h f w' = prepare_html_response h f w"
  by (simp add: prepare_html_response_def open_file_def)

lemma prepare_html_no_cookie: "smap_find (rsp_headers (prepare_html_response h f w)) ''Set-Cookie'' = None"
  by (simp add: prepare_html_response_def file_response_def stock_response_def Let_def split: option.splits)

lemma login_post_login_result:
  assumes "bcrypt_law (lib_bcrypt libs)" and "sqlite_law (lib_sqlite libs) tab"
  defines "granted u p w \<equiv> u \<noteq> [] \<and> (\<exists>hash. tab (w_db w) u = Some hash \<and> check_password (lib_bcrypt libs) p hash)"
  obtains w' where "login_post_login libs h u p w =
      (if granted u p w
       then set_header ''Set-Cookie'' (''jwt='' @ generate_cookie (lib_jwt libs) (w_now w) u @ ''; Path=/'')
         (prepare_html_response h ''login_success.html'' w)
       else prepare_html_response h ''login_failure.html'' w, w')"
    and "tab (w_db w') = tab (w_db w)" and "w_files w' = w_files w" and "w_now w' = w_now w"
proof -
  obtain rc db' where sel: "db_select_pass (lib_sqlite libs) u [] w =
      (rc, case tab (w_db w) u of None \<Rightarrow> [] | Some h \<Rightarrow> h, w\<lparr>w_db := db'\<rparr>)"
    and db: "tab db' = tab (w_db w)"
    using db_select_result [OF assms(2)] by blast
  have same: "prepare_html_response h f (w\<lparr>w_db := db'\<rparr>) = prepare_html_response h f w" for f
    by (rule prepare_html_files) simp
  show ?thesis
  proof (cases "u = []")
    case True
    show ?thesis by (rule that [of w]) (simp_all add: True login_post_login_def granted_def)
  next
    case False
    show ?thesis
      by (rule that [of "w\<lparr>w_db := db'\<rparr>"])
        (use False no_password_for_empty_hash [OF assms(1)] in
          \<open>auto simp: login_post_login_def compare_password_def sel db same granted_def split: option.splits\<close>)
  qed
qed

lemma login_grants:
  assumes "bcrypt_law (lib_bcrypt libs)" and "sqlite_law (lib_sqlite libs) tab"
    and "req_method request = POST" and "\<not> contains ''signup'' (req_uri request)"
  shows "let u = extract_username (req_body request); p = extract_password (req_body request) in
    \<exists>rsp w'. login_handle libs h w request = Inr (rsp, w') \<and> tab (w_db w') = tab (w_db w) \<and>
      smap_find (rsp_headers rsp) ''Set-Cookie'' =
        (if u \<noteq> [] \<and> (\<exists>hash. tab (w_db w) u = Some hash \<and> check_password (lib_bcrypt libs) p hash)
         then Some (''jwt='' @ generate_cookie (lib_jwt libs) (w_now w) u @ ''; Path=/'') else None)"
proof -
  let ?u = "extract_username (req_body request)" and ?p = "extract_password (req_body request)"
  obtain w' where run: "login_post_login libs h ?u ?p w =
      (if ?u \<noteq> [] \<and> (\<exists>hash. tab (w_db w) ?u = Some hash \<and> check_password (lib_bcrypt libs) ?p hash)
       then set_header ''Set-Cookie'' (''jwt='' @ generate_cookie (lib_jwt libs) (w_now w) ?u @ ''; Path=/'')
         (prepare_html_response h ''login_success.html'' w)
       else prepare_html_response h ''login_failure.html'' w, w')"
    and db: "tab (w_db w') = tab (w_db w)"
    by (rule login_post_login_result [OF assms(1,2), where u = ?u and p = ?p and w = w and h = h]) (erule that)
  have ok: "smap_ok (rsp_headers (prepare_html_response h f w))" for f by simp
  show ?thesis
    using assms(3,4) db ok by (simp add: login_handle_def Let_def run prepare_html_no_cookie)
qed


definition example_libs :: "(jwt_claims, string \<Rightarrow> string option) login_libs" where
  "example_libs = \<lparr>lib_jwt = one_token, lib_bcrypt = length_bcrypt, lib_sqlite = map_sqlite\<rparr>"

definition example_login :: login_handler where
  "example_login = \<lparr>lg_root = ''/srv/'', lg_path = ''/login''\<rparr>"

definition accounts_world :: "(string \<Rightarrow> string option) world" where
  "accounts_world = \<lparr>w_collector = new_collector, w_files = (\<lambda>_. None), w_now = 0, w_entropy = 0,
     w_db = [''fox'' \<mapsto> ''$3'']\<rparr>"

definition post_request :: "string \<Rightarrow> string \<Rightarrow> request" where
  "post_request u body = empty_request\<lparr>req_method := POST, req_uri := u, req_body := body\<rparr>"

lemma post_request_simps [simp]:
  "req_method (post_request u b) = POST" "req_uri (post_request u b) = u" "req_body (post_request u b) = b"
  by (simp_all add: post_request_def)

lemma example_laws:
  "bcrypt_law (lib_bcrypt example_libs)" "sqlite_law (lib_sqlite example_libs) (\<lambda>db. db)"
  by (simp_all add: example_libs_def length_bcrypt_law map_sqlite_law)


lemma login_handle_signup:
  assumes "bcrypt_law (lib_bcrypt libs)" and "sqlite_law (lib_sqlite libs) tab"
    and "req_method request = POST" and "contains ''signup'' (req_uri request)"
  defines "u \<equiv> extract_username (req_body request)" and "p \<equiv> extract_password (req_body request)"
  obtains hash w' where "check_password (lib_bcrypt libs) p hash"
    and "login_handle libs h w request =
      Inr (prepare_html_response h
        (if u \<noteq> [] \<and> p \<noteq> [] \<and> tab (w_db w) u = None then ''signup/signup_success.html''
         else ''signup/signup_failure.html'') w, w')"
    and "tab (w_db w') = (if tab (w_db w) u = None then (tab (w_db w))(u \<mapsto> hash) else tab (w_db w))"
    and "w_now w' = w_now w" and "w_files w' = w_files w"
proof -
  obtain hash db' where hash: "check_password (lib_bcrypt libs) p hash"
    and ins: "db_insert (lib_bcrypt libs) (lib_sqlite libs) u p w =
      Inr (if tab (w_db w) u = None then SQLITE_DONE else SQLITE_CONSTRAINT,
           w\<lparr>w_entropy := Suc (w_entropy w), w_db := db'\<rparr>)"
    and db: "tab db' = (if tab (w_db w) u = None then (tab (w_db w))(u \<mapsto> hash) else tab (w_db w))"
    by (rule db_insert_result [OF assms(1,2), where pass = p and user = u and w = w]) (erule that)
  let ?w = "w\<lparr>w_entropy := Suc (w_entropy w), w_db := db'\<rparr>"
  have same: "prepare_html_response h f ?w = prepare_html_response h f w" for f
    by (rule prepare_html_files) simp
  have codes: "SQLITE_DONE \<noteq> SQLITE_CONSTRAINT" by (simp add: SQLITE_DONE_def SQLITE_CONSTRAINT_def)
  have run: "login_post_signup libs h u p w =
      Inr (prepare_html_response h
        (if u \<noteq> [] \<and> p \<noteq> [] \<and> tab (w_db w) u = None then ''signup/signup_success.html''
         else ''signup/signup_failure.html'') w, ?w)"
    using codes by (simp add: login_post_signup_def signup_def ins same)
  show ?thesis
    by (rule that [OF hash, of ?w])
      (use assms(3,4) run db in \<open>simp_all add: login_handle_def u_def p_def\<close>)
qed

text \<open>
  C29: sign-up and login work together.  A new name and a password, both non-empty form values, that
  are posted to a sign-up URI get the success page; posting the same form to a login URI
  afterwards gets the session cookie for that name.
\<close>

theorem signup_then_login:
  assumes "bcrypt_law (lib_bcrypt libs)" and "sqlite_law (lib_sqlite libs) tab"
    and "form_value u" and "form_value p" and "u \<noteq> []" and "p \<noteq> []" and "tab (w_db w) u = None"
    and "req_method first = POST" and "contains ''signup'' (req_uri first)" and "req_body first = credentials u p"
    and "req_method second = POST" and "\<not> contains ''signup'' (req_uri second)"
    and "req_body second = credentials u p"
  shows "\<exists>rsp w'. serve_all (login_handle libs h) w [first, second] =
      Inr ([prepare_html_response h ''signup/signup_success.html'' w, rsp], w') \<and>
    smap_find (rsp_headers rsp) ''Set-Cookie'' =
      Some (''jwt='' @ generate_cookie (lib_jwt libs) (w_now w) u @ ''; Path=/'')"
proof -
  have u: "extract_username (credentials u p) = u" and p: "extract_password (credentials u p) = p"
    using assms(3,4) by (simp_all only: extract_username_credentials extract_password_credentials)
  obtain hash w1 where hash: "check_password (lib_bcrypt libs) p hash"
    and one: "login_handle libs h w first = Inr (prepare_html_response h ''signup/signup_success.html'' w, w1)"
    and row: "tab (w_db w1) u = Some hash" and now: "w_now w1 = w_now w"
    by (rule login_handle_signup [OF assms(1,2,8,9), where w = w and h = h])
      (use assms(5-7) in \<open>simp add: assms(10) u p that\<close>)
  from login_grants [OF assms(1,2,11,12), of h w1]
  obtain rsp w2 where two: "login_handle libs h w1 second = Inr (rsp, w2)"
    and cookie: "smap_find (rsp_headers rsp) ''Set-Cookie'' =
      Some (''jwt='' @ generate_cookie (lib_jwt libs) (w_now w) u @ ''; Path=/'')"
    using row hash assms(5) by (auto simp: assms(13) u p now Let_def)
  show ?thesis
    using cookie by (simp add: one two)
qed

lemma example_credentials:
  "form_value ''new''" "form_value ''pw''" "contains ''signup'' ''/login/signup''" "\<not> contains ''signup'' ''/login''"
  by code_simp+

theorem signup_then_login_witness:
  "\<exists>rsp w'. serve_all (login_handle example_libs example_login) accounts_world
       [post_request ''/login/signup'' (credentials ''new'' ''pw''), post_request ''/login'' (credentials ''new'' ''pw'')] =
     Inr ([prepare_html_response example_login ''signup/signup_success.html'' accounts_world, rsp], w') \<and>
     smap_find (rsp_headers rsp) ''Set-Cookie'' =
       Some (''jwt='' @ generate_cookie (lib_jwt example_libs) (w_now accounts_world) ''new'' @ ''; Path=/'')"
  by (rule signup_then_login [OF example_laws example_credentials(1,2)])
    (simp_all add: example_credentials(3,4) accounts_world_def)



text \<open>
  Signing up writes before it checks.  When the name or the password is empty the answer is the
  failure page, but the row has been inserted: the name is taken from then on.
\<close>

theorem signup_inserts_rejected:
  assumes "bcrypt_law (lib_bcrypt libs)" and "sqlite_law (lib_sqlite libs) tab"
    and "req_method request = POST" and "contains ''signup'' (req_uri request)"
    and "extract_username (req_body request) = u"
    and "u = [] \<or> extract_password (req_body request) = []" and "tab (w_db w) u = None"
  shows "\<exists>w'. login_handle libs h w request = Inr (prepare_html_response h ''signup/signup_failure.html'' w, w') \<and>
    tab (w_db w') u \<noteq> None"
  by (rule login_handle_signup [OF assms(1-4), where w = w and h = h]) (use assms(5-7) in auto)

theorem signup_inserts_rejected_witness:
  "\<exists>w'. login_handle example_libs example_login accounts_world (post_request ''/signup'' ''username=&password=x'') =
     Inr (prepare_html_response example_login ''signup/signup_failure.html'' accounts_world, w') \<and> w_db w' [] \<noteq> None"
proof -
  have uri: "contains ''signup'' ''/signup''" and u: "extract_username ''username=&password=x'' = []"
    by code_simp+
  show ?thesis
    by (rule signup_inserts_rejected [OF example_laws]) (simp_all add: uri u accounts_world_def)
qed

text \<open>
  Any result code but \<open>SQLITE_CONSTRAINT\<close> counts as a success.  When the insert cannot be
  prepared, because the table is missing or the file is locked, the user is told that the
  account exists while the database is unchanged.
\<close>

theorem signup_reports_false_success:
  assumes "bcrypt_law (lib_bcrypt libs)"
    and "req_method request = POST" and "contains ''signup'' (req_uri request)"
    and "extract_username (req_body request) \<noteq> []" and "extract_password (req_body request) \<noteq> []"
    and "sqlite_prepare (lib_sqlite libs) (w_db w) insert_text \<notin> {SQLITE_OK, SQLITE_CONSTRAINT}"
  shows "\<exists>w'. login_handle libs h w request = Inr (prepare_html_response h ''signup/signup_success.html'' w, w') \<and>
    w_db w' = w_db w"
proof -
  let ?p = "extract_password (req_body request)"
  have same: "prepare_html_response h f (w\<lparr>w_entropy := n\<rparr>) = prepare_html_response h f w" for f n
    by (rule prepare_html_files) simp
  obtain hash where "generate_hash (lib_bcrypt libs) ?p w = Inr (hash, w\<lparr>w_entropy := Suc (w_entropy w)\<rparr>)"
    using generated_hash [OF assms(1)] by blast
  then show ?thesis
    using assms(2-6) by (simp add: login_handle_def login_post_signup_def signup_def db_insert_def same)
qed

text \<open>A database whose table was dropped: code 1, \<open>SQLITE_ERROR\<close>.\<close>

definition no_table_libs :: "(jwt_claims, string \<Rightarrow> string option) login_libs" where
  "no_table_libs = example_libs\<lparr>lib_sqlite := map_sqlite\<lparr>sqlite_prepare := (\<lambda>db txt. 1)\<rparr>\<rparr>"

theorem signup_reports_false_success_witness:
  "\<exists>w'. login_handle no_table_libs example_login accounts_world (post_request ''/signup'' ''username=a&password=x'') =
     Inr (prepare_html_response example_login ''signup/signup_success.html'' accounts_world, w') \<and>
     w_db w' = w_db accounts_world"
proof -
  have law: "bcrypt_law (lib_bcrypt no_table_libs)"
    by (simp add: no_table_libs_def example_libs_def length_bcrypt_law)
  have uri: "contains ''signup'' ''/signup''" and u: "extract_username ''username=a&password=x'' \<noteq> []"
    and p: "extract_password ''username=a&password=x'' \<noteq> []"
    by code_simp+
  show ?thesis
    by (rule signup_reports_false_success [OF law])
      (simp_all add: uri u p no_table_libs_def SQLITE_OK_def SQLITE_CONSTRAINT_def)
qed

end
