(* ===== verification/Proxy_Handler.thy ===== *)
theory Proxy_Handler
  imports World Simple_Handlers
begin

text \<open>
  The proxy handler (\<open>src/proxy_request_handler.cc\<close>).  The network is a parameter: what comes back
  on the n-th connection, as the chunks the socket delivers.  Everything the handler does with
  the bytes is modelled: the stream extractions of the status line, the headers, the redirects,
  the body and the rewriting of links.
\<close>

record proxy_handler =
  px_root :: string
  px_path :: string
  px_port :: int

section \<open>Construction\<close>

fun proxy_arguments :: "string \<Rightarrow> int \<Rightarrow> config \<Rightarrow> (string \<times> int) outcome" where
  "proxy_arguments root port [] = Inr (root, port)"
| "proxy_arguments root port (Statement ts block # ss) =
     (let h = token_index ''host'' ts; p = token_index ''port'' ts in
      and_then (if h \<noteq> length ts then token_at ts (h + 1) else Inr root) (\<lambda>root.
      and_then (if p \<noteq> length ts then and_then (token_at ts (p + 1)) stoi else Inr port) (\<lambda>port.
        proxy_arguments root port ss)))"

definition proxy_init ::
    "string \<Rightarrow> config \<Rightarrow> collector \<Rightarrow> (proxy_handler option \<times> collector) outcome" where
  "proxy_init location_path cfg c =
     (let c = add_handler location_path ''Proxy Request Handler'' c in
      and_then (proxy_arguments [] 0 cfg) (\<lambda>(root, port).
      and_then (is_quoted root) (\<lambda>(root_ok, root).
        if \<not> root_ok then Inr (None, c)
        else Inr (Some \<lparr>px_root = take (length root - 1) root, px_path = location_path, px_port = port\<rparr>, c))))"

section \<open>The request that is forwarded\<close>

text \<open>The header lines, and whether there was a Connection header.\<close>

fun proxy_headers :: "string smap \<Rightarrow> string \<times> bool" where
  "proxy_headers [] = ([], False)"
| "proxy_headers ((k, v) # hs) =
     (case proxy_headers hs of (lines, connection) \<Rightarrow>
        if k = ''Accept-Encoding'' then (lines, connection)
        else if v \<noteq> [] then
          (k @ '': '' @ (if k = ''Connection'' then ''close'' else v) @ crlf @ lines,
           connection \<or> k = ''Connection'')
        else (lines, connection))"

text \<open>\<open>path_.length() - 1\<close> is unsigned: for an empty path it is the largest position.\<close>

definition proxy_uri :: "proxy_handler \<Rightarrow> string \<Rightarrow> string outcome" where
  "proxy_uri h u =
     and_then (substr u (nat ((int (length (px_path h)) - 1) mod 2 ^ 64))) (\<lambda>target.
       Inr (if target = [] \<or> hd target \<noteq> SLASH then SLASH # target else target))"

definition proxy_rawbody :: "proxy_handler \<Rightarrow> request \<Rightarrow> bool \<Rightarrow> string outcome" where
  "proxy_rawbody h r isRedirect =
     and_then (if isRedirect then Inr (req_uri r) else proxy_uri h (req_uri r)) (\<lambda>target.
       case proxy_headers (req_headers r) of (lines, connection) \<Rightarrow>
         Inr (echo_method (req_method r) @ '' '' @ target @ '' HTTP'' @ ''/'' @ ''1.0'' @ crlf @ lines @
           (if \<not> connection then ''Connection: close'' @ crlf else []) @ crlf @ req_body r))"

definition redirect_request :: "proxy_handler \<Rightarrow> string \<Rightarrow> request \<Rightarrow> string outcome" where
  "redirect_request h new_root client_request =
     (let new_root = (if contains [CR] new_root then butlast new_root else new_root);
          pos = length (takeWhile (\<lambda>c. c \<noteq> SLASH) new_root)
      in proxy_rawbody h (client_request\<lparr>req_uri := drop pos new_root\<rparr>) True)"

section \<open>Reading the answer\<close>

text \<open>
  One connection: it fails (resolving, connecting or writing throws), or the socket delivers the
  chunks and then ends, with end of file or with another error.
\<close>

datatype exchange = Unreachable | Received "string list" bool

type_synonym network = "nat \<Rightarrow> string \<Rightarrow> int \<Rightarrow> string \<Rightarrow> exchange"

text \<open>
  \<open>read_until\<close> reads chunks until the delimiter is in the buffer, which may then hold more than
  the text up to it; when the socket ends first it throws.
\<close>

fun read_until :: "string \<Rightarrow> string \<Rightarrow> string list \<Rightarrow> (string \<times> string list) option" where
  "read_until delim buf [] = (if contains delim buf then Some (buf, []) else None)"
| "read_until delim buf (c # cs) =
     (if contains delim buf then Some (buf, c # cs) else read_until delim (buf @ c) cs)"

text \<open>Extractions from a stream; \<open>None\<close> when the stream goes bad.\<close>

definition get_word :: "string \<Rightarrow> (string \<times> string) option" where
  "get_word s = (let t = dropWhile c_isspace s; word = takeWhile (\<lambda>c. \<not> c_isspace c) t in
     if word = [] then None else Some (word, dropWhile (\<lambda>c. \<not> c_isspace c) t))"

text \<open>
  \<open>>>\<close> into an \<open>unsigned int\<close>: a minus sign is accepted and negates modulo \<open>2 ^ 32\<close>; a value that
  does not fit fails.
\<close>

definition get_unsigned :: "string \<Rightarrow> (nat \<times> string) option" where
  "get_unsigned s =
     (case stoi_sign (dropWhile c_isspace s) of (neg, t) \<Rightarrow>
        let ds = takeWhile c_isdigit t; v = digits_val ds in
        if ds = [] \<or> 2 ^ 32 \<le> v then None
        else Some (if neg then nat ((- int v) mod 2 ^ 32) else v, dropWhile c_isdigit t))"

definition get_line :: "string \<Rightarrow> (string \<times> string) option" where
  "get_line s = (if s = [] then None
     else Some (takeWhile (\<lambda>c. c \<noteq> LF) s, drop 1 (dropWhile (\<lambda>c. c \<noteq> LF) s)))"

lemma get_line_shorter: "get_line s = Some (l, rest) \<Longrightarrow> length rest < length s"
  using length_dropWhile_le [of "\<lambda>c. c \<noteq> LF" s] by (cases s) (auto simp: get_line_def)

definition status_of_number :: "nat \<Rightarrow> status_code" where
  "status_of_number n =
     (case List.find (\<lambda>c. status_number c = n) known_codes of Some c \<Rightarrow> c | None \<Rightarrow> other_status n)"

definition read_status :: "string \<Rightarrow> (nat \<times> string) option" where
  "read_status buf =
     (case get_word buf of
        None \<Rightarrow> None
      | Some (http_version, buf) \<Rightarrow>
          (case get_unsigned buf of
             None \<Rightarrow> None
           | Some (status_code, buf) \<Rightarrow>
               (case get_line buf of
                  None \<Rightarrow> None
                | Some (message, buf) \<Rightarrow>
                    if take 5 http_version \<noteq> ''HTTP/'' then None else Some (status_code, buf))))"

text \<open>
  \<open>parse_header\<close> cuts the value two characters behind the colon and drops its last character,
  which it takes for the carriage return; \<open>pop_back\<close> on an empty string is undefined.
\<close>

definition parse_header :: "string \<Rightarrow> response \<Rightarrow> (bool \<times> response) outcome" where
  "parse_header header rsp =
     (case str_find '':'' header of
        None \<Rightarrow> Inr (False, rsp)
      | Some pos \<Rightarrow>
          and_then (substr header (pos + 2)) (\<lambda>val.
            if val = [] then Inl Undefined
            else Inr (True, set_header (take pos header) (butlast val) rsp)))"

text \<open>
  What the body of the try block comes to: a value, a return, an exception that is caught with
  the response as it was then, or undefined behaviour.
\<close>

datatype 'a attempt = Fine 'a | Return response | Caught response | Stuck

fun attempt_bind :: "'a attempt \<Rightarrow> ('a \<Rightarrow> 'b attempt) \<Rightarrow> 'b attempt" where
  "attempt_bind (Fine x) f = f x"
| "attempt_bind (Return r) f = Return r"
| "attempt_bind (Caught r) f = Caught r"
| "attempt_bind Stuck f = Stuck"

function read_headers :: "string \<Rightarrow> response \<Rightarrow> (response \<times> string) attempt" where
  "read_headers buf rsp =
     (case get_line buf of
        None \<Rightarrow> Fine (rsp, buf)
      | Some (header, rest) \<Rightarrow>
          if header = [CR] then Fine (rsp, rest)
          else (case parse_header header rsp of
              Inr (True, rsp) \<Rightarrow> read_headers rest rsp
            | Inr (False, rsp) \<Rightarrow> Return (stock_response internal_server_error)
            | Inl e \<Rightarrow> (if e = Undefined then Stuck else Caught rsp)))"
  by pat_completeness auto

termination
  by (relation "measure (\<lambda>(buf, rsp). length buf)") (auto dest: get_line_shorter)

declare read_headers.simps [simp del]

section \<open>Rewriting links\<close>

text \<open>
  The loop of \<open>clean_html\<close>: \<open>cleaned\<close> and \<open>body\<close> are the two strings it works on, and the result
  is their value when it breaks.
\<close>

definition next_link :: "string \<Rightarrow> nat option" where
  "next_link body =
     (case (str_find ''href'' body, str_find ''src'' body) of
        (None, None) \<Rightarrow> None
      | (None, Some s) \<Rightarrow> Some (s + 3)
      | (Some h, None) \<Rightarrow> Some (h + 4)
      | (Some h, Some s) \<Rightarrow> Some (if h < s then h + 4 else s + 3))"

definition quote_from :: "nat \<Rightarrow> string \<Rightarrow> nat" where
  "quote_from j body = j + length (takeWhile (\<lambda>c. c \<noteq> DQUOTE) (drop j body))"

function clean_loop :: "string \<Rightarrow> string \<Rightarrow> string \<Rightarrow> string \<times> string" where
  "clean_loop path cleaned body =
     (case next_link body of
        None \<Rightarrow> (cleaned, body)
      | Some start \<Rightarrow>
          let j = quote_from start body in
          if length body \<le> j + 1 then (cleaned @ body, body)
          else let j = j + 1 in
            if body ! j \<noteq> SLASH then clean_loop path (cleaned @ take j body) (drop j body)
            else clean_loop path (cleaned @ take j body @ path) (drop j body))"
  by pat_completeness auto

termination by (relation "measure (\<lambda>(path, cleaned, body). length body)") auto

declare clean_loop.simps [simp del]

text \<open>\<open>path.back()\<close> on an empty path is undefined.\<close>

definition clean_html :: "proxy_handler \<Rightarrow> string \<Rightarrow> string outcome" where
  "clean_html h body =
     (let path = px_path h in
      if path = [] then Inl Undefined
      else let path = (if last path = SLASH then butlast path else path) in
        case clean_loop path [] body of (cleaned, rest) \<Rightarrow> Inr (cleaned @ rest))"

section \<open>Handling a request\<close>

definition server_addr :: "request \<Rightarrow> string" where
  "server_addr r =
     (case smap_find (req_headers r) ''Host'' of
        None \<Rightarrow> []
      | Some v \<Rightarrow> (case str_find '':'' v of None \<Rightarrow> v | Some p \<Rightarrow> take p v))"

text \<open>The rest of the buffer and of the socket is the body.\<close>

definition finish_body :: "proxy_handler \<Rightarrow> response \<Rightarrow> string \<Rightarrow> string list \<Rightarrow> bool \<Rightarrow> response attempt" where
  "finish_body h rsp buf chunks clean_end =
     (let body = foldl (\<lambda>b ss. b @ ss) buf chunks;
          headers = smap_touch [] ''Content-Type'' (rsp_headers rsp);
          media = or_default [] (smap_find headers ''Content-Type'')
      in case (if contains ''html'' media then clean_html h body else Inr body) of
          Inl e \<Rightarrow> Stuck
        | Inr body \<Rightarrow>
            (let rsp = set_header ''Content-Length'' (to_string (length body))
                  (rsp\<lparr>rsp_body := body, rsp_headers := headers\<rparr>)
             in if clean_end then Fine rsp else Caught rsp))"

text \<open>
  After the headers of the n-th answer: a redirect to the host the client asked for gives the next
  raw request, anything else is finished.
\<close>

definition follow_or_finish ::
    "proxy_handler \<Rightarrow> request \<Rightarrow> nat \<Rightarrow> response \<Rightarrow> string \<Rightarrow> string list \<Rightarrow> bool \<Rightarrow>
     ((string \<times> response) + response) attempt" where
  "follow_or_finish h req code rsp buf chunks clean_end =
     (if code = 301 \<or> code = 302 then
        (let headers = smap_touch [] ''Location'' (rsp_headers rsp);
             new_root = or_default [] (smap_find headers ''Location'');
             rsp = rsp\<lparr>rsp_headers := headers\<rparr>
         in if contains (server_addr req) new_root then
              (let new_root = (case str_find ''//'' new_root of
                     None \<Rightarrow> new_root | Some pos \<Rightarrow> drop (pos + 2) new_root)
               in case redirect_request h new_root req of
                   Inr raw_req \<Rightarrow> Fine (Inl (raw_req, rsp))
                 | Inl e \<Rightarrow> (if e = Undefined then Stuck else Caught rsp))
            else map_attempt Inr (finish_body h rsp buf chunks clean_end))
      else map_attempt Inr (finish_body h rsp buf chunks clean_end))"

text \<open>One round of the loop: the next raw request, or the response.\<close>

definition proxy_round ::
    "proxy_handler \<Rightarrow> request \<Rightarrow> exchange \<Rightarrow> response \<Rightarrow> ((string \<times> response) + response) attempt" where
  "proxy_round h req ex rsp =
     (case ex of
        Unreachable \<Rightarrow> Caught rsp
      | Received chunks clean_end \<Rightarrow>
          (case read_until crlf [] chunks of
             None \<Rightarrow> Caught rsp
           | Some (buf, chunks) \<Rightarrow>
               (case read_status buf of
                  None \<Rightarrow> Return (stock_response internal_server_error)
                | Some (code, buf) \<Rightarrow>
                    (let rsp = rsp\<lparr>rsp_code := status_of_number code\<rparr> in
                     if code \<noteq> 200 \<and> code \<noteq> 301 \<and> code \<noteq> 302 then Return (stock_response (rsp_code rsp))
                     else case read_until (crlf @ crlf) buf chunks of
                         None \<Rightarrow> Caught rsp
                       | Some (buf, chunks) \<Rightarrow>
                           attempt_bind (read_headers buf rsp) (\<lambda>(rsp, buf).
                             follow_or_finish h req code rsp buf chunks clean_end)))))"

function proxy_loop ::
    "proxy_handler \<Rightarrow> network \<Rightarrow> request \<Rightarrow> nat \<Rightarrow> string \<Rightarrow> response \<Rightarrow> response outcome" where
  "proxy_loop h net req loop_count raw_req rsp =
     (if loop_count < 5 then
        (case proxy_round h req (net loop_count (px_root h) (px_port h) raw_req) rsp of
           Fine (Inl (raw_req, rsp)) \<Rightarrow> proxy_loop h net req (loop_count + 1) raw_req rsp
         | Fine (Inr rsp) \<Rightarrow> Inr rsp
         | Return rsp \<Rightarrow> Inr rsp
         | Caught rsp \<Rightarrow> Inr rsp
         | Stuck \<Rightarrow> Inl Undefined)
      else Inr rsp)"
  by pat_completeness auto

termination by (relation "measure (\<lambda>(h, net, req, loop_count, raw_req, rsp). 5 - loop_count)") auto

declare proxy_loop.simps [simp del]

definition proxy_handle :: "network \<Rightarrow> proxy_handler \<Rightarrow> 'db world handle" where
  "proxy_handle net h w client_request =
     and_then (proxy_rawbody h client_request False) (\<lambda>raw_req.
     and_then (proxy_loop h net client_request 0 raw_req (empty_response\<lparr>rsp_code := not_found\<rparr>)) (\<lambda>rsp.
       Inr (rsp, w)))"

section \<open>The contract\<close>

definition headers_ok :: "response \<Rightarrow> bool" where
  "headers_ok r \<longleftrightarrow> smap_ok (rsp_headers r)"

fun attempt_all :: "('a \<Rightarrow> bool) \<Rightarrow> (response \<Rightarrow> bool) \<Rightarrow> 'a attempt \<Rightarrow> bool" where
  "attempt_all P Q (Fine x) \<longleftrightarrow> P x"
| "attempt_all P Q (Return r) \<longleftrightarrow> Q r"
| "attempt_all P Q (Caught r) \<longleftrightarrow> Q r"
| "attempt_all P Q Stuck \<longleftrightarrow> True"

lemma attempt_all_map: "attempt_all P Q (map_attempt f a) = attempt_all (P \<circ> f) Q a"
  by (cases a) auto

lemma headers_ok_simps [simp]:
  "headers_ok r \<Longrightarrow> headers_ok (set_header k v r)"
  "headers_ok (stock_response c)" "headers_ok empty_response"
  "headers_ok (r\<lparr>rsp_code := c\<rparr>) = headers_ok r" "headers_ok (r\<lparr>rsp_body := b\<rparr>) = headers_ok r"
  "headers_ok r \<Longrightarrow> headers_ok (r\<lparr>rsp_headers := smap_touch d k (rsp_headers r)\<rparr>)"
  using stock_response_framed [of c] by (auto simp: headers_ok_def framed_def)

lemma parse_header_ok: "headers_ok r \<Longrightarrow> parse_header l r = Inr (b, r') \<Longrightarrow> headers_ok r'"
  by (auto simp: parse_header_def and_then_Inr_iff split: option.splits if_splits)

lemma read_headers_ok:
  "headers_ok r \<Longrightarrow> attempt_all (\<lambda>(r, rest). headers_ok r) headers_ok (read_headers buf r)"
proof (induction buf r rule: read_headers.induct)
  case (1 buf r)
  show ?case
  proof (cases "get_line buf")
    case None
    then show ?thesis using "1.prems" by (subst read_headers.simps) simp
  next
    case (Some lr)
    obtain l rest where lr: "lr = (l, rest)" by force
    show ?thesis
    proof (cases "l = [CR]")
      case True
      then show ?thesis using Some lr "1.prems" by (subst read_headers.simps) simp
    next
      case False
      have "attempt_all (\<lambda>(r, rest). headers_ok r) headers_ok (read_headers rest r')"
        if "parse_header l r = Inr (True, r')" for r'
        using "1.IH" [OF Some lr [symmetric] False that refl] parse_header_ok [OF "1.prems" that] by simp
      then show ?thesis
        using Some lr False "1.prems"
        by (subst read_headers.simps) (auto split: sum.splits prod.splits bool.splits cpp_error.splits)
    qed
  qed
qed

lemma finish_body_ok: "headers_ok r \<Longrightarrow> attempt_all headers_ok headers_ok (finish_body h r buf cs e)"
  by (auto simp: finish_body_def Let_def headers_ok_def split: sum.splits)

lemma attempt_all_bind:
  "attempt_all P Q a \<Longrightarrow> (\<And>x. P x \<Longrightarrow> attempt_all P' Q (f x)) \<Longrightarrow> attempt_all P' Q (attempt_bind a f)"
  by (cases a) auto

fun round_ok :: "(string \<times> response) + response \<Rightarrow> bool" where
  "round_ok (Inl (raw, r)) \<longleftrightarrow> headers_ok r"
| "round_ok (Inr r) \<longleftrightarrow> headers_ok r"

lemma follow_or_finish_ok:
  assumes "headers_ok r"
  shows "attempt_all round_ok headers_ok (follow_or_finish h req code r buf cs e)"
proof -
  have "attempt_all round_ok headers_ok (map_attempt Inr (finish_body h r' buf cs e))" if "headers_ok r'" for r'
    using finish_body_ok [OF that] by (simp add: attempt_all_map comp_def)
  with assms show ?thesis
    by (auto simp: follow_or_finish_def Let_def split: sum.splits)
qed

lemma proxy_round_ok:
  assumes "headers_ok r"
  shows "attempt_all round_ok headers_ok (proxy_round h req ex r)"
proof -
  have "attempt_all round_ok headers_ok (attempt_bind (read_headers buf (r\<lparr>rsp_code := c\<rparr>))
      (\<lambda>(r, buf). follow_or_finish h req code r buf cs e))" for buf c code cs e
    by (rule attempt_all_bind [OF read_headers_ok]) (use assms follow_or_finish_ok in \<open>auto split: prod.splits\<close>)
  with assms show ?thesis
    by (auto simp: proxy_round_def Let_def split: exchange.splits option.splits)
qed

lemma proxy_loop_ok: "headers_ok r \<Longrightarrow> proxy_loop h net req n raw r = Inr r' \<Longrightarrow> headers_ok r'"
proof (induction h net req n raw r rule: proxy_loop.induct)
  case (1 h net req n raw r)
  show ?case
  proof (cases "n < 5")
    case False
    then show ?thesis using "1.prems" by (subst (asm) proxy_loop.simps) simp
  next
    case True
    let ?round = "proxy_round h req (net n (px_root h) (px_port h) raw) r"
    have ok: "attempt_all round_ok headers_ok ?round"
      by (rule proxy_round_ok) (rule "1.prems")
    have run: "proxy_loop h net req n raw r = (case ?round of
        Fine (Inl (raw, r)) \<Rightarrow> proxy_loop h net req (n + 1) raw r
      | Fine (Inr r) \<Rightarrow> Inr r | Return r \<Rightarrow> Inr r | Caught r \<Rightarrow> Inr r | Stuck \<Rightarrow> Inl Undefined)"
      using True by (subst proxy_loop.simps) simp
    show ?thesis
    proof (cases "\<exists>raw' r''. ?round = Fine (Inl (raw', r''))")
      case True
      then obtain raw' r'' where round: "?round = Fine (Inl (raw', r''))" by blast
      with ok run "1.prems" "1.IH" [OF \<open>n < 5\<close> round refl refl] show ?thesis by simp
    next
      case False
      with ok run "1.prems" show ?thesis by (auto split: attempt.splits sum.splits)
    qed
  qed
qed

interpretation proxy: request_handler "proxy_handle net h" world_ok
proof
  show "smap_ok (rsp_headers rsp)" if "proxy_handle net h w req = Inr (rsp, w')" for w w' :: "'a world" and req rsp
    using that proxy_loop_ok [where r = "empty_response\<lparr>rsp_code := not_found\<rparr>"]
    by (auto simp: proxy_handle_def and_then_Inr_iff headers_ok_def)
qed (auto simp: proxy_handle_def and_then_Inr_iff)

section \<open>Reading does not depend on the chunks\<close>

lemma read_until_complete:
  "contains delim (buf @ concat chunks) \<Longrightarrow>
     \<exists>buf' chunks'. read_until delim buf chunks = Some (buf', chunks') \<and>
       buf' @ concat chunks' = buf @ concat chunks \<and> contains delim buf'"
  by (induction delim buf chunks rule: read_until.induct) auto

text \<open>A buffer that holds the delimiter holds everything up to its first occurrence.\<close>

lemma buffer_to_first:
  assumes "buf @ tail = a @ d @ rest" and "str_find d (a @ d @ rest) = Some (length a)" and "contains d buf"
  shows "\<exists>tail'. buf = a @ d @ tail' \<and> rest = tail' @ tail"
proof -
  obtain i where i: "str_find d buf = Some i" using assms(3) by (auto simp: contains_def)
  then have i': "i \<le> length buf" "prefix d (drop i buf)" using str_find_Some by blast+
  then have "prefix d (drop i (buf @ tail))" by simp
  then have "\<not> i < length a" using str_find_least [OF assms(2)] unfolding assms(1) by blast
  then have "length a + length d \<le> length buf"
    using i' prefix_length_le [OF i'(2)] by simp
  then have "length (a @ d) \<le> length buf" by simp
  then have "prefix (a @ d) buf"
    using assms(1) by (metis append.assoc prefixI prefix_length_prefix prefix_order.refl append_prefixD)
  then obtain tail' where "buf = (a @ d) @ tail'" by (auto elim: prefixE)
  with assms(1) show ?thesis by auto
qed

lemma read_until_first:
  assumes "buf @ concat chunks = a @ d @ rest" and "str_find d (a @ d @ rest) = Some (length a)"
  shows "\<exists>tail chunks'. read_until d buf chunks = Some (a @ d @ tail, chunks') \<and> rest = tail @ concat chunks'"
proof -
  have "contains d (buf @ concat chunks)" using assms by (simp add: contains_def)
  then obtain buf' chunks' where run: "read_until d buf chunks = Some (buf', chunks')"
    "buf' @ concat chunks' = a @ d @ rest" "contains d buf'"
    using read_until_complete assms(1) by metis
  from buffer_to_first [OF run(2) assms(2) run(3)] run(1) show ?thesis by blast
qed

lemma str_find_skip:
  "c \<notin> set l \<Longrightarrow> str_find (c # p) (l @ s) = map_option (\<lambda>i. length l + i) (str_find (c # p) s)"
  by (induction l; cases "str_find (c # p) s") auto

section \<open>A well-formed answer\<close>

fun upstream_headers :: "(string \<times> string) list \<Rightarrow> string" where
  "upstream_headers [] = []"
| "upstream_headers ((k, v) # hs) = k @ '': '' @ v @ CR # LF # upstream_headers hs"

definition upstream_answer :: "string \<Rightarrow> string \<Rightarrow> (string \<times> string) list \<Rightarrow> string \<Rightarrow> string" where
  "upstream_answer version message hs body =
     ''HTTP/'' @ version @ '' 200'' @ message @ CR # LF # upstream_headers hs @ CR # LF # body"

definition line_text :: "string \<Rightarrow> bool" where
  "line_text s \<longleftrightarrow> CR \<notin> set s \<and> LF \<notin> set s"

definition upstream_ok :: "string \<Rightarrow> string \<Rightarrow> (string \<times> string) list \<Rightarrow> bool" where
  "upstream_ok version message hs \<longleftrightarrow>
     list_all (\<lambda>c. \<not> c_isspace c) version \<and> line_text message \<and>
     (message = [] \<or> \<not> c_isdigit (hd message)) \<and> hs \<noteq> [] \<and>
     list_all (\<lambda>(k, v). CHR '':'' \<notin> set k \<and> line_text k \<and> line_text v) hs"

lemma str_find_headers:
  "hs \<noteq> [] \<Longrightarrow> list_all (\<lambda>(k, v). line_text k \<and> line_text v) hs \<Longrightarrow>
     \<exists>a. upstream_headers hs = a @ [CR, LF] \<and>
       str_find [CR, LF, CR, LF] (upstream_headers hs @ CR # LF # body) = Some (length a)"
proof (induction hs rule: upstream_headers.induct)
  case 1
  then show ?case by simp
next
  case (2 k v hs)
  let ?l = "k @ '': '' @ v"
  have l: "CR \<notin> set ?l" using "2.prems" by (simp add: line_text_def)
  have skip: "str_find [CR, LF, CR, LF] (?l @ s) = map_option (\<lambda>i. length ?l + i) (str_find [CR, LF, CR, LF] s)" for s
    by (rule str_find_skip [OF l])
  show ?case
  proof (cases hs)
    case Nil
    then show ?thesis
      using skip [of "CR # LF # CR # LF # body"] by (intro exI [of _ ?l]) simp
  next
    case (Cons h hs')
    obtain a where a: "upstream_headers hs = a @ [CR, LF]"
      "str_find [CR, LF, CR, LF] (upstream_headers hs @ CR # LF # body) = Some (length a)"
      using "2.IH" "2.prems" Cons by auto
    obtain k' v' where h: "h = (k', v')" by force
    have "\<exists>c t. upstream_headers hs = c # t \<and> c \<noteq> CR"
      using "2.prems"(2) by (cases k') (auto simp: Cons h line_text_def)
    then obtain c t where ct: "upstream_headers hs = c # t" "c \<noteq> CR" by blast
    then have "str_find [CR, LF, CR, LF] (CR # LF # upstream_headers hs @ CR # LF # body) =
        Some (2 + length a)"
      using a(2) by simp
    with skip [of "CR # LF # upstream_headers hs @ CR # LF # body"] a(1) show ?thesis
      by (intro exI [of _ "?l @ CR # LF # a"]) simp
  qed
qed

lemma get_line_LF: "LF \<notin> set l \<Longrightarrow> get_line (l @ LF # s) = Some (l, s)"
proof -
  assume l: "LF \<notin> set l"
  then have "dropWhile (\<lambda>c. c \<noteq> LF) (l @ LF # s) = LF # s" by (induction l) auto
  with takeWhile_until [OF l] show ?thesis by (simp add: get_line_def)
qed

lemma parse_header_line:
  "CHR '':'' \<notin> set k \<Longrightarrow> parse_header (k @ '': '' @ v @ [CR]) rsp = Inr (True, set_header k v rsp)"
  using str_find_skip [of "CHR '':''" k "[]" "'': '' @ v @ [CR]"]
  by (simp add: parse_header_def substr_def butlast_append)

lemma read_headers_upstream:
  "list_all (\<lambda>(k, v). CHR '':'' \<notin> set k \<and> line_text k \<and> line_text v) hs \<Longrightarrow>
     read_headers (upstream_headers hs @ CR # LF # tail) rsp =
       Fine (foldl (\<lambda>r (k, v). set_header k v r) rsp hs, tail)"
proof (induction hs arbitrary: rsp rule: upstream_headers.induct)
  case 1
  show ?case
    using get_line_LF [of "[CR]" tail] by (subst read_headers.simps) simp
next
  case (2 k v hs)
  let ?l = "k @ '': '' @ v @ [CR]" and ?rest = "upstream_headers hs @ CR # LF # tail"
  have line: "get_line (?l @ LF # ?rest) = Some (?l, ?rest)"
    using "2.prems" by (intro get_line_LF) (auto simp: line_text_def)
  have "parse_header ?l rsp = Inr (True, set_header k v rsp)"
    using "2.prems" by (intro parse_header_line) simp
  moreover have "?l \<noteq> [CR]" by (cases k) auto
  ultimately have "read_headers (?l @ LF # ?rest) rsp = read_headers ?rest (set_header k v rsp)"
    using line by (subst read_headers.simps) simp
  also have "\<dots> = Fine (foldl (\<lambda>r (k, v). set_header k v r) rsp ((k, v) # hs), tail)"
    using "2.IH" "2.prems" by simp
  finally show ?case by simp
qed

lemma get_word_space:
  assumes "list_all (\<lambda>c. \<not> c_isspace c) w" and "w \<noteq> []"
  shows "get_word (w @ SP # s) = Some (w, SP # s)"
proof -
  have "takeWhile (\<lambda>c. \<not> c_isspace c) (w @ SP # s) = w"
    "dropWhile (\<lambda>c. \<not> c_isspace c) (w @ SP # s) = SP # s"
    using assms(1) by (induction w) (auto simp: c_isspace_def)
  moreover have "dropWhile c_isspace (w @ SP # s) = w @ SP # s"
    using assms by (cases w) auto
  ultimately show ?thesis using assms(2) by (simp add: get_word_def)
qed

lemma read_status_upstream:
  assumes "upstream_ok version message hs"
  shows "read_status (''HTTP/'' @ version @ '' 200'' @ message @ CR # LF # tail) = Some (200, tail)"
proof -
  have "list_all (\<lambda>c. \<not> c_isspace c) ''HTTP/''" by code_simp
  then have "list_all (\<lambda>c. \<not> c_isspace c) (''HTTP/'' @ version)"
    using assms by (simp add: upstream_ok_def)
  from get_word_space [OF this, of "''200'' @ message @ CR # LF # tail"]
  have one: "get_word (''HTTP/'' @ version @ '' 200'' @ message @ CR # LF # tail) =
      Some (''HTTP/'' @ version, '' 200'' @ message @ CR # LF # tail)"
    by simp
  have digit: "\<not> c_isdigit (hd (message @ CR # LF # tail))"
    using assms by (cases message) (auto simp: upstream_ok_def c_isdigit_iff)
  then obtain c s where cs: "message @ CR # LF # tail = c # s" "\<not> c_isdigit c"
    by (cases "message @ CR # LF # tail") auto
  have digits: "c_isdigit (CHR ''2'')" "c_isdigit (CHR ''0'')" "digits_val ''200'' = 200"
    "dropWhile c_isspace '' 200'' = ''200''" by code_simp+
  have two: "get_unsigned ('' 200'' @ message @ CR # LF # tail) = Some (200, message @ CR # LF # tail)"
    using cs digits by (simp add: get_unsigned_def c_isspace_def)
  have "get_line (message @ CR # LF # tail) = Some (message @ [CR], tail)"
    using get_line_LF [of "message @ [CR]" tail] assms by (simp add: upstream_ok_def line_text_def)
  with one two show ?thesis by (simp add: read_status_def)
qed

lemma status_of_200: "status_of_number 200 = ok"
  by code_simp

text \<open>The response the proxy makes of a well-formed answer.\<close>

definition proxied :: "(string \<times> string) list \<Rightarrow> string \<Rightarrow> response" where
  "proxied hs body =
     (let rsp = foldl (\<lambda>r (k, v). set_header k v r) (empty_response\<lparr>rsp_code := ok\<rparr>) hs
      in set_header ''Content-Length'' (to_string (length body))
          (rsp\<lparr>rsp_body := body, rsp_headers := smap_touch [] ''Content-Type'' (rsp_headers rsp)\<rparr>))"

definition media_type :: "(string \<times> string) list \<Rightarrow> string" where
  "media_type hs = or_default [] (map_of (rev hs) ''Content-Type'')"

lemma foldl_set_header:
  "headers_ok r \<Longrightarrow> headers_ok (foldl (\<lambda>r (k, v). set_header k v r) r hs) \<and>
     rsp_code (foldl (\<lambda>r (k, v). set_header k v r) r hs) = rsp_code r \<and>
     smap_find (rsp_headers (foldl (\<lambda>r (k, v). set_header k v r) r hs)) k =
       (case map_of (rev hs) k of Some v \<Rightarrow> Some v | None \<Rightarrow> smap_find (rsp_headers r) k)"
proof (induction hs arbitrary: r)
  case Nil
  then show ?case by simp
next
  case (Cons h hs)
  obtain k' v' where h: "h = (k', v')" by force
  from Cons.IH [of "set_header k' v' r"] Cons.prems show ?case
    by (auto simp: h headers_ok_def map_add_def split: option.splits)
qed

lemma proxied_simps [simp]:
  "rsp_code (proxied hs body) = ok" "rsp_body (proxied hs body) = body" "framed (proxied hs body)"
  "smap_find (rsp_headers (proxied hs body)) k =
     (if k = ''Content-Length'' then Some (to_string (length body))
      else if k = ''Content-Type'' then Some (media_type hs)
      else map_of (rev hs) k)"
  using foldl_set_header [of "empty_response\<lparr>rsp_code := ok\<rparr>" hs]
  by (auto simp: proxied_def Let_def framed_def headers_ok_def media_type_def split: option.splits)

lemma proxy_round_upstream:
  assumes "upstream_ok version message hs"
    and "concat chunks = upstream_answer version message hs body"
    and "(if contains ''html'' (media_type hs) then clean_html h body else Inr body) = Inr body'"
  shows "proxy_round h req (Received chunks clean_end) (empty_response\<lparr>rsp_code := c\<rparr>) =
    (if clean_end then Fine (Inr (proxied hs body')) else Caught (proxied hs body'))"
proof -
  let ?status = "''HTTP/'' @ version @ '' 200'' @ message"
  let ?r = "foldl (\<lambda>r (k, v). set_header k v r) (empty_response\<lparr>rsp_code := ok\<rparr>) hs"
  have "CR \<notin> set version"
    using assms(1) by (auto simp: upstream_ok_def list_all_iff c_isspace_def)
  then have "CR \<notin> set ?status"
    using assms(1) by (auto simp: upstream_ok_def line_text_def)
  from str_find_skip [OF this, of "[LF]" "CR # LF # upstream_headers hs @ CR # LF # body"]
  have first: "str_find crlf (?status @ crlf @ upstream_headers hs @ CR # LF # body) = Some (length ?status)"
    by simp
  have total: "[] @ concat chunks = ?status @ crlf @ upstream_headers hs @ CR # LF # body"
    using assms(2) by (simp add: upstream_answer_def)
  obtain t1 cs1 where one: "read_until crlf [] chunks = Some (?status @ crlf @ t1, cs1)"
    and t1: "upstream_headers hs @ CR # LF # body = t1 @ concat cs1"
    using read_until_first [OF total first] by blast
  have hs: "hs \<noteq> []" "list_all (\<lambda>(k, v). line_text k \<and> line_text v) hs"
    using assms(1) by (auto simp: upstream_ok_def list_all_iff)
  obtain a where a: "upstream_headers hs = a @ [CR, LF]"
    "str_find [CR, LF, CR, LF] (upstream_headers hs @ CR # LF # body) = Some (length a)"
    using str_find_headers [OF hs] by blast
  have "t1 @ concat cs1 = a @ [CR, LF, CR, LF] @ body"
    and "str_find [CR, LF, CR, LF] (a @ [CR, LF, CR, LF] @ body) = Some (length a)"
    using a t1 by simp_all
  from read_until_first [OF this]
  obtain t2 cs2 where two: "read_until [CR, LF, CR, LF] t1 cs1 = Some (a @ [CR, LF, CR, LF] @ t2, cs2)"
    and t2: "body = t2 @ concat cs2" by blast
  have status: "read_status (?status @ crlf @ t1) = Some (200, t1)"
    using read_status_upstream [OF assms(1), of t1] by simp
  have "read_headers (upstream_headers hs @ CR # LF # t2) (empty_response\<lparr>rsp_code := ok\<rparr>) = Fine (?r, t2)"
    using assms(1) by (intro read_headers_upstream) (simp add: upstream_ok_def)
  then have headers: "read_headers (a @ [CR, LF, CR, LF] @ t2) (empty_response\<lparr>rsp_code := ok\<rparr>) = Fine (?r, t2)"
    using a(1) by simp
  have body: "foldl (\<lambda>b ss. b @ ss) t2 cs2 = body"
    unfolding t2 by (induction cs2 arbitrary: t2) simp_all
  have media: "or_default [] (smap_find (smap_touch [] ''Content-Type'' (rsp_headers ?r)) ''Content-Type'') = media_type hs"
    using foldl_set_header [of "empty_response\<lparr>rsp_code := ok\<rparr>" hs]
    by (auto simp: headers_ok_def media_type_def split: option.splits)
  have "finish_body h ?r t2 cs2 clean_end =
      (if clean_end then Fine (proxied hs body') else Caught (proxied hs body'))"
    using assms(3) by (simp add: finish_body_def Let_def body media proxied_def)
  then have "follow_or_finish h req 200 ?r t2 cs2 clean_end =
      (if clean_end then Fine (Inr (proxied hs body')) else Caught (proxied hs body'))"
    by (simp add: follow_or_finish_def)
  with one two status headers show ?thesis
    by (simp add: proxy_round_def status_of_200)
qed


definition example_proxy :: proxy_handler where
  "example_proxy = \<lparr>px_root = ''host'', px_path = ''/ucla/'', px_port = 80\<rparr>"

definition example_network :: network where
  "example_network n host port raw_req =
     Received [''HTTP/1.0 20'', ''0 OK'' @ [CR], LF # ''A: b'' @ crlf @ [CR], LF # ''da'', ''ta''] True"

definition proxy_request :: request where
  "proxy_request = empty_request\<lparr>req_uri := ''/ucla/x'', req_version := ''1.1''\<rparr>"


section \<open>What happens to links\<close>

text \<open>
  A piece of a page that ends with the quote that opens its first link, and the page the proxy
  makes of a list of such pieces and a last piece without a link.
\<close>

definition link_piece :: "string \<Rightarrow> bool" where
  "link_piece t \<longleftrightarrow> (case next_link t of None \<Rightarrow> False | Some j \<Rightarrow> quote_from j t + 1 = length t)"

fun rewritten :: "string \<Rightarrow> string list \<Rightarrow> string \<Rightarrow> string" where
  "rewritten path [] last_piece = last_piece"
| "rewritten path (t # ts) last_piece =
     t @ (if hd (concat ts @ last_piece) = SLASH then path else []) @ rewritten path ts last_piece"

lemma str_find_append: "str_find p t = Some i \<Longrightarrow> str_find p (t @ rest) = Some i"
proof (induction p t arbitrary: i rule: str_find.induct)
  case (1 p)
  then show ?case by (cases rest) (auto split: if_splits)
next
  case (2 p c cs)
  show ?case
  proof (cases "prefix p (c # cs)")
    case True
    then have "prefix p ((c # cs) @ rest)" by (rule prefix_prefix)
    with True "2.prems" show ?thesis by simp
  next
    case False
    with "2.prems" obtain k where k: "str_find p cs = Some k" "i = Suc k" by (auto split: if_splits)
    have "k + length p \<le> length cs"
      using str_find_Some [OF k(1)] prefix_length_le [of p "drop k cs"] by auto
    then have "length p \<le> length (c # cs)" by simp
    with False have "\<not> prefix p ((c # cs) @ rest)"
      by (metis append_eq_append_conv_if prefixE prefixI prefix_length_prefix prefix_order.refl)
    with "2.IH" [OF False k(1)] k(2) show ?thesis by simp
  qed
qed

lemma str_find_beyond:
  assumes "str_find p (u @ [q]) = None" and "q \<notin> set p" and "p \<noteq> []" and "str_find p (u @ [q] @ rest) = Some i"
  shows "length u < i"
proof (rule ccontr)
  assume "\<not> length u < i"
  then have i: "i \<le> length u" by simp
  have "prefix p (drop i (u @ [q] @ rest))" using str_find_Some [OF assms(4)] by simp
  then have pre: "prefix p (drop i u @ [q] @ rest)" using i by simp
  show False
  proof (cases "length p \<le> length (drop i u)")
    case True
    with pre have "prefix p (drop i u)" by (metis prefixI prefix_length_prefix)
    then have "prefix p (drop i (u @ [q]))" using i by simp
    with str_find_None [OF assms(1), of i] show False by simp
  next
    case False
    from pre obtain s where "drop i u @ q # rest = p @ s" by (auto elim: prefixE)
    then have "p ! length (drop i u) = q"
      using False by (metis leI less_imp_le nth_append nth_append_length)
    with False assms(2) show False by (metis leI nth_mem)
  qed
qed

lemma next_link_piece:
  assumes "link_piece t"
  shows "next_link (t @ rest) = next_link t" and "next_link t \<noteq> None" and "last t = DQUOTE" and "t \<noteq> []"
proof -
  obtain j where j: "next_link t = Some j" and q: "quote_from j t + 1 = length t"
    using assms by (auto simp: link_piece_def split: option.splits)
  have "j \<le> length t - 1" "t \<noteq> []" using q by (auto simp: quote_from_def)
  let ?k = "length (takeWhile (\<lambda>c. c \<noteq> DQUOTE) (drop j t))"
  have k: "?k < length (drop j t)" using q by (auto simp: quote_from_def)
  then have "drop j t ! ?k = DQUOTE" by (meson nth_length_takeWhile)
  moreover have "length t - 1 = j + ?k" using q by (simp add: quote_from_def)
  ultimately have "t ! (length t - 1) = DQUOTE" using k by simp
  then show last: "last t = DQUOTE" and ne: "t \<noteq> []" using \<open>t \<noteq> []\<close> by (simp_all add: last_conv_nth)
  then obtain u where u: "t = u @ [DQUOTE]" by (metis append_butlast_last_id)
  show "next_link t \<noteq> None" using j by simp
  have far: "length u < i" if "str_find p t = None" "p \<in> {''href'', ''src''}" "str_find p (t @ rest) = Some i" for p i
    using that by (intro str_find_beyond [of p u DQUOTE rest]) (auto simp: u)
  have near: "i \<le> length u" if "str_find p t = Some i" "p \<in> {''href'', ''src''}" for p i
    using str_find_Some [OF that(1)] that(2) prefix_length_le [of p "drop i t"] by (auto simp: u)
  have same: "str_find p (t @ rest) = Some i" if "str_find p t = Some i" for p i
    by (rule str_find_append [OF that])
  show "next_link (t @ rest) = next_link t"
  proof (cases "str_find ''href'' t")
    case None
    then obtain i where i: "str_find ''src'' t = Some i" using j by (auto simp: next_link_def split: option.splits)
    show ?thesis
      using None same [OF i] i far [OF None] near [OF i] by (fastforce simp: next_link_def split: option.splits)
  next
    case (Some i)
    show ?thesis
    proof (cases "str_find ''src'' t")
      case None
      show ?thesis
        using Some same [OF Some] None far [OF None] near [OF Some] by (fastforce simp: next_link_def split: option.splits)
    next
      case (Some i')
      show ?thesis
        using Some \<open>str_find ''href'' t = Some i\<close> same by (simp add: next_link_def)
    qed
  qed
qed

lemma quote_from_append:
  assumes "quote_from j t + 1 = length t"
  shows "quote_from j (t @ rest) = quote_from j t"
proof -
  let ?k = "length (takeWhile (\<lambda>c. c \<noteq> DQUOTE) (drop j t))"
  have j: "j \<le> length t" and k: "?k < length (drop j t)" using assms by (auto simp: quote_from_def)
  then have "\<not> (drop j t ! ?k \<noteq> DQUOTE)" by (intro nth_length_takeWhile)
  then have "DQUOTE \<in> set (drop j t)" using nth_mem [OF k] by simp
  then have "takeWhile (\<lambda>c. c \<noteq> DQUOTE) (drop j t @ rest) = takeWhile (\<lambda>c. c \<noteq> DQUOTE) (drop j t)"
    by (simp add: takeWhile_append1)
  with j show ?thesis by (simp add: quote_from_def)
qed

lemma clean_loop_pieces:
  assumes "list_all link_piece ts" and "next_link last_piece = None" and "last_piece \<noteq> []"
  shows "\<exists>c. clean_loop path cleaned (concat ts @ last_piece) = (c, last_piece) \<and>
    c @ last_piece = cleaned @ rewritten path ts last_piece"
  using assms(1)
proof (induction ts arbitrary: cleaned)
  case Nil
  show ?case using assms(2) by (subst clean_loop.simps) simp
next
  case (Cons t ts)
  let ?rest = "concat ts @ last_piece"
  have t: "link_piece t" using Cons.prems by simp
  then obtain j where j: "next_link t = Some j" and q: "quote_from j t + 1 = length t"
    by (auto simp: link_piece_def split: option.splits)
  have next_j: "next_link (t @ ?rest) = Some j" using next_link_piece(1) [OF t] j by simp
  have at: "quote_from j (t @ ?rest) + 1 = length t" using quote_from_append [OF q] q by simp
  have step: "clean_loop path cleaned (t @ r) =
      clean_loop path (cleaned @ t @ (if hd r = SLASH then path else [])) r"
    if "r \<noteq> []" "next_link (t @ r) = Some j" "quote_from j (t @ r) + 1 = length t" for r
    using that by (subst clean_loop.simps) (simp add: Let_def nth_append hd_conv_nth)
  have "clean_loop path cleaned (t @ ?rest) =
      clean_loop path (cleaned @ t @ (if hd ?rest = SLASH then path else [])) ?rest"
    using assms(3) by (intro step next_j at) simp
  with Cons.IH [of "cleaned @ t @ (if hd ?rest = SLASH then path else [])"] Cons.prems show ?case by simp
qed

text \<open>
  C34: link rewriting.  In a page whose links are quoted, the location of the proxy is inserted
  before every link that starts with a slash, and nothing else changes.
\<close>

theorem clean_html_links:
  assumes "px_path h = path @ [SLASH]"
    and "list_all link_piece ts" and "next_link last_piece = None" and "last_piece \<noteq> []"
  shows "clean_html h (concat ts @ last_piece) = Inr (rewritten path ts last_piece)"
  using clean_loop_pieces [OF assms(2-4), of path "[]"] assms(1) by (auto simp: clean_html_def)

definition quoted :: "string \<Rightarrow> string" where
  "quoted s = DQUOTE # s @ [DQUOTE]"

theorem clean_html_links_witness:
  "clean_html example_proxy (''<a href='' @ quoted ''/x'' @ ''>y</a>'') =
     Inr (''<a href='' @ quoted ''/ucla/x'' @ ''>y</a>'')"
proof -
  have path: "px_path example_proxy = ''/ucla'' @ [SLASH]"
    and piece: "list_all link_piece [''<a href='' @ [DQUOTE]]"
    and last_piece: "next_link (''/x'' @ [DQUOTE] @ ''>y</a>'') = None"
    and pages: "concat [''<a href='' @ [DQUOTE]] @ ''/x'' @ [DQUOTE] @ ''>y</a>'' = ''<a href='' @ quoted ''/x'' @ ''>y</a>''"
      "rewritten ''/ucla'' [''<a href='' @ [DQUOTE]] (''/x'' @ [DQUOTE] @ ''>y</a>'') =
        ''<a href='' @ quoted ''/ucla/x'' @ ''>y</a>''"
    by code_simp+
  show ?thesis
    using clean_html_links [OF path piece last_piece] unfolding pages by simp
qed

text \<open>
  When no quote follows the last link, the rest of the page is appended twice: once before the
  loop is left and once after it.
\<close>

theorem clean_html_duplicates:
  assumes "px_path h \<noteq> []" and "next_link body = Some j" and "DQUOTE \<notin> set (drop j body)"
  shows "clean_html h body = Inr (body @ body)"
proof -
  have "length body \<le> quote_from j body + 1"
    unfolding quote_from_def takeWhile_clean [OF assms(3)] by simp
  then have "clean_loop path [] body = (body, body)" for path
    using assms(2) by (subst clean_loop.simps) (simp add: Let_def)
  with assms(1) show ?thesis by (simp add: clean_html_def)
qed

theorem clean_html_duplicates_witness:
  "clean_html example_proxy ''no src here'' = Inr (''no src here'' @ ''no src here'')"
proof -
  have "px_path example_proxy \<noteq> []" and "next_link ''no src here'' = Some 6"
    and "DQUOTE \<notin> set (drop 6 ''no src here'')" by code_simp+
  then show ?thesis by (rule clean_html_duplicates)
qed

text \<open>
  An upstream server that cannot be reached is reported as a 404 without any header: no
  Content-Length tells the client that the body is empty.
\<close>

theorem proxy_unreachable:
  assumes "proxy_rawbody h req False = Inr raw_req"
    and "net 0 (px_root h) (px_port h) raw_req = Unreachable"
  shows "\<exists>rsp. proxy_handle net h w req = Inr (rsp, w) \<and> rsp_code rsp = not_found \<and> \<not> framed rsp \<and>
    wire rsp = ''HTTP/1.0 404 Not Found'' @ crlf @ crlf"
proof -
  let ?r = "empty_response\<lparr>rsp_code := not_found\<rparr>"
  have "proxy_loop h net req 0 raw_req ?r = Inr ?r"
    using assms(2) by (subst proxy_loop.simps) (simp add: proxy_round_def)
  then have "proxy_handle net h w req = Inr (?r, w)"
    using assms(1) by (simp add: proxy_handle_def)
  moreover have "wire ?r = ''HTTP/1.0 404 Not Found'' @ crlf @ crlf"
    by (subst wire_framed) (simp_all add: status_buffer_def)
  ultimately show ?thesis by (intro exI [of _ ?r]) (simp add: framed_def)
qed

theorem proxy_unreachable_witness:
  "\<exists>rsp. proxy_handle (\<lambda>_ _ _ _. Unreachable) example_proxy quiet_world proxy_request = Inr (rsp, quiet_world) \<and>
     wire rsp = ''HTTP/1.0 404 Not Found'' @ crlf @ crlf"
proof -
  have "proxy_rawbody example_proxy proxy_request False =
      Inr (''GET /x HTTP/1.0'' @ crlf @ ''Connection: close'' @ crlf @ crlf)"
    by code_simp
  from proxy_unreachable [OF this, of "\<lambda>_ _ _ _. Unreachable" quiet_world] show ?thesis by auto
qed

end
