(* ===== verification/Handler_Generator.thy ===== *)
theory Handler_Generator
  imports Login_Handler Proxy_Handler
begin

text \<open>
  The handler generator (\<open>src/request_handler_generator.cc\<close>): it builds the table of handlers from
  the location statements of the configuration and picks the handler of a URI.
\<close>

datatype handler =
    EchoHandler | HealthHandler | NotFoundHandler | StatusHandler
  | StaticHandler static_handler | ProxyHandler proxy_handler | LoginHandler login_handler

text \<open>An entry \<open>None\<close> is a null pointer, which \<open>operator[]\<close> leaves behind for a missing key.\<close>

type_synonym handler_map = "handler option smap"

section \<open>Dispatch\<close>

text \<open>The loop over the characters; \<open>x\<close> is the component read so far.\<close>

fun path_components :: "string \<Rightarrow> string \<Rightarrow> string list" where
  "path_components x [] = (if x \<noteq> [] then [x] else [])"
| "path_components x (c # cs) =
     (if c = SLASH then (if x \<noteq> [] then [x] else []) @ path_components [] cs
      else path_components (x @ [c]) cs)"

fun count_equal :: "string list \<Rightarrow> string list \<Rightarrow> nat" where
  "count_equal (a # v1) (b # v2) = (if b = a then 1 else 0) + count_equal v1 v2"
| "count_equal v1 v2 = 0"

definition common_prefix_length :: "string \<Rightarrow> string \<Rightarrow> nat" where
  "common_prefix_length a b = count_equal (path_components [] (c_str a)) (path_components [] (c_str b))"

definition dispatch_step :: "string \<Rightarrow> nat \<times> string \<Rightarrow> string \<Rightarrow> nat \<times> string" where
  "dispatch_step u best path =
     (let current_length = common_prefix_length u path in
      if current_length = 0 then best
      else let (longest_length, longest_path) =
             (if fst best < current_length then (current_length, path) else best)
           in if longest_length = current_length \<and> length path < length longest_path
              then (current_length, path) else (longest_length, longest_path))"

definition dispatch_handler :: "string \<Rightarrow> handler_map \<Rightarrow> handler option \<times> handler_map" where
  "dispatch_handler u m =
     (let (longest_length, longest_path) = foldl (dispatch_step u) (0, []) (map fst m);
          k = (if longest_length = 0 then ''/'' else longest_path);
          m = smap_touch None k m
      in (or_default None (smap_find m k), m))"

section \<open>Construction\<close>

definition invalid_config :: "statement \<Rightarrow> bool" where
  "invalid_config s \<longleftrightarrow> length (tokens s) \<noteq> 3 \<and> child_block s \<noteq> None"

definition createHandler ::
    "string \<Rightarrow> string \<Rightarrow> config \<Rightarrow> collector \<Rightarrow> (handler option \<times> collector) outcome" where
  "createHandler path kind cfg c =
     (if kind = ''StaticHandler'' then
        and_then (static_init path cfg c) (\<lambda>(h, c). Inr (map_option StaticHandler h, c))
      else if kind = ''EchoHandler'' then Inr (Some EchoHandler, echo_init path c)
      else if kind = ''StatusHandler'' then Inr (Some StatusHandler, status_init path c)
      else if kind = ''NotFoundHandler'' then Inr (Some NotFoundHandler, not_found_init path c)
      else if kind = ''ProxyHandler'' then
        and_then (proxy_init path cfg c) (\<lambda>(h, c). Inr (map_option ProxyHandler h, c))
      else if kind = ''HealthHandler'' then Inr (Some HealthHandler, health_init path c)
      else if kind = ''LoginHandler'' then
        and_then (login_init path cfg c) (\<lambda>(h, c). Inr (map_option LoginHandler h, c))
      else Inr (None, c))"

text \<open>
  \<open>get_map\<close> stops at the first statement it cannot use; the handlers made so far stay in the table.
  A location without a block dereferences a null pointer.
\<close>

fun get_map :: "config \<Rightarrow> handler_map \<Rightarrow> collector \<Rightarrow> (bool \<times> handler_map \<times> collector) outcome" where
  "get_map [] m c = Inr (True, m, c)"
| "get_map (s # ss) m c =
     (let find = token_index ''location'' (tokens s) in
      if find = 0 then
        (if invalid_config s then Inr (False, m, c)
         else
           and_then (token_at (tokens s) (find + 2)) (\<lambda>kind.
           and_then (token_at (tokens s) (find + 1)) (\<lambda>path.
           and_then (is_quoted path) (\<lambda>(quoted, path).
             if \<not> quoted then Inr (False, m, c)
             else case child_block s of
                 None \<Rightarrow> Inl Undefined
               | Some block \<Rightarrow>
                   and_then (createHandler path kind block c) (\<lambda>(rh, c).
                     case rh of
                       None \<Rightarrow> Inr (False, m, c)
                     | Some h \<Rightarrow> get_map ss (smap_insert path (Some h) m) c)))))
      else get_map ss m c)"

section \<open>Handling with any handler\<close>

definition on_collector :: "collector handle \<Rightarrow> 'db world handle" where
  "on_collector f w r =
     and_then (f (w_collector w) r) (\<lambda>(rsp, c). Inr (rsp, w\<lparr>w_collector := c\<rparr>))"

text \<open>The virtual call \<open>handle_request\<close>.\<close>

fun handle_request ::
    "('d, 'db) login_libs \<Rightarrow> network \<Rightarrow> handler \<Rightarrow> 'db world handle" where
  "handle_request libs net EchoHandler = on_collector echo_handle"
| "handle_request libs net HealthHandler = on_collector health_handle"
| "handle_request libs net NotFoundHandler = on_collector not_found_handle"
| "handle_request libs net StatusHandler = on_collector status_handle"
| "handle_request libs net (StaticHandler h) = static_handle (lib_jwt libs) h"
| "handle_request libs net (ProxyHandler h) = proxy_handle net h"
| "handle_request libs net (LoginHandler h) = login_handle libs h"

section \<open>The contract of every handler\<close>

text \<open>A handler on the collector is a handler on the world.\<close>

lemma on_collector_result:
  "on_collector f w r = Inr (rsp, w') \<Longrightarrow>
     \<exists>c. f (w_collector w) r = Inr (rsp, c) \<and> w' = w\<lparr>w_collector := c\<rparr>"
  by (auto simp: on_collector_def and_then_Inr_iff)

lemma on_collector_framing:
  assumes "framing_handler f collector_ok"
  shows "framing_handler (on_collector f) world_ok"
proof -
  note f = framing_handler.axioms(1) [OF assms]
  show ?thesis
    by unfold_locales
      (auto simp: world_ok_def dest!: on_collector_result
        intro: request_handler.handle_inv [OF f] request_handler.handle_headers [OF f]
          framing_handler.handle_framed [OF assms])
qed

fun is_proxy :: "handler \<Rightarrow> bool" where
  "is_proxy (ProxyHandler h) \<longleftrightarrow> True"
| "is_proxy _ \<longleftrightarrow> False"

lemma framing_unless_proxy:
  "\<not> is_proxy h \<Longrightarrow> framing_handler (handle_request libs net h) world_ok"
  by (cases h)
    (simp_all add: on_collector_framing echo.framing_handler_axioms health.framing_handler_axioms
      not_found.framing_handler_axioms status.framing_handler_axioms static.framing_handler_axioms
      login.framing_handler_axioms)

lemma handler_contract: "request_handler (handle_request libs net h) world_ok"
proof (cases "is_proxy h")
  case True
  then show ?thesis by (cases h) (simp_all add: proxy.request_handler_axioms)
next
  case False
  from framing_unless_proxy [OF this] show ?thesis by (rule framing_handler.axioms(1))
qed

interpretation any_handler: request_handler "handle_request libs net h" world_ok
  by (rule handler_contract)

section \<open>The table\<close>

text \<open>Every entry is a handler that knows its own path, and paths end with a slash.\<close>

fun handler_at :: "string \<Rightarrow> handler \<Rightarrow> bool" where
  "handler_at p (StaticHandler h) \<longleftrightarrow> st_path h = p \<and> ends_with (st_root h) [SLASH]"
| "handler_at p (ProxyHandler h) \<longleftrightarrow> px_path h = p"
| "handler_at p (LoginHandler h) \<longleftrightarrow> lg_path h = p \<and> ends_with (lg_root h) [SLASH]"
| "handler_at p _ \<longleftrightarrow> True"

definition entry_ok :: "string \<times> handler option \<Rightarrow> bool" where
  "entry_ok e \<longleftrightarrow> ends_with (fst e) [SLASH] \<and>
     (case snd e of None \<Rightarrow> False | Some h \<Rightarrow> handler_at (fst e) h)"

lemma entry_ok_iff: "entry_ok e \<longleftrightarrow> ends_with (fst e) [SLASH] \<and> (\<exists>h. snd e = Some h \<and> handler_at (fst e) h)"
  by (simp add: entry_ok_def split: option.splits)

definition table_ok :: "handler_map \<Rightarrow> bool" where
  "table_ok m \<longleftrightarrow> smap_ok m \<and> list_all entry_ok m"

definition listed :: "handler_map \<Rightarrow> collector \<Rightarrow> bool" where
  "listed m c \<longleftrightarrow> set (map fst m) \<subseteq> set (map fst (uri_request_handler c))"

lemma static_init_at:
  "static_init p cfg c = Inr (Some h, c') \<Longrightarrow> handler_at p (StaticHandler h)"
  by (auto simp: static_init_def Let_def and_then_Inr_iff dest: is_quoted_directory split: if_splits)

lemma proxy_init_at: "proxy_init p cfg c = Inr (Some h, c') \<Longrightarrow> handler_at p (ProxyHandler h)"
  by (auto simp: proxy_init_def Let_def and_then_Inr_iff split: if_splits)

lemma login_init_at: "login_init p cfg c = Inr (Some h, c') \<Longrightarrow> handler_at p (LoginHandler h)"
  by (auto simp: login_init_def Let_def and_then_Inr_iff dest: is_quoted_directory split: if_splits)

lemma createHandler_at: "createHandler p kind cfg c = Inr (Some h, c') \<Longrightarrow> handler_at p h"
  by (auto simp: createHandler_def and_then_Inr_iff simp del: handler_at.simps
      dest: static_init_at proxy_init_at login_init_at split: if_splits) simp_all

lemmas init_defs = static_init_def proxy_init_def login_init_def echo_init_def health_init_def
  status_init_def not_found_init_def

text \<open>Whatever becomes of the handler, its path is registered in the collector and nothing else.\<close>

lemma createHandler_registers:
  "createHandler p kind cfg c = Inr (rh, c') \<Longrightarrow>
     (rh = None \<and> c' = c) \<or> (\<exists>name. c' = add_handler p name c)"
  by (auto simp: createHandler_def init_defs Let_def and_then_Inr_iff split: if_splits)

lemma keys_add_handler:
  "set (map fst (uri_request_handler (add_handler p name c))) = insert p (set (map fst (uri_request_handler c)))"
  by (simp add: add_handler_def smap_put_def keys_smap_modify del: set_map)

lemma keys_smap_insert: "set (map fst (smap_insert k v m)) = insert k (set (map fst m))"
  by (simp add: smap_insert_def keys_smap_modify del: set_map)

lemma listed_add_handler: "listed m c \<Longrightarrow> listed m (add_handler p name c)"
  unfolding listed_def keys_add_handler by blast

lemma created_collector:
  "createHandler p kind cfg c = Inr (rh, c') \<Longrightarrow> listed m c \<Longrightarrow> collector_ok c \<Longrightarrow> listed m c' \<and> collector_ok c'"
  by (drule createHandler_registers) (auto intro: listed_add_handler add_handler_ok)

lemma table_insert:
  assumes "table_ok m" and "handler_at p h" and "ends_with p [SLASH]"
  shows "table_ok (smap_insert p (Some h) m)"
proof -
  have "list_all entry_ok (smap_insert p (Some h) m)"
    unfolding smap_insert_def
    by (rule list_all_smap_modify) (use assms in \<open>auto simp: table_ok_def entry_ok_iff\<close>)
  with assms(1) show ?thesis by (simp add: table_ok_def)
qed

lemma get_map_cases:
  assumes "get_map (s # ss) m c = Inr (b, m', c')"
  obtains (stop) "m' = m" "c' = c"
    | (refused) p kind block where "createHandler p kind block c = Inr (None, c')" "m' = m"
    | (made) p q kind block h c1 where "is_quoted q = Inr (True, p)"
        "createHandler p kind block c = Inr (Some h, c1)"
        "get_map ss (smap_insert p (Some h) m) c1 = Inr (b, m', c')"
    | (skip) "get_map ss m c = Inr (b, m', c')"
  using assms
  by (auto simp: and_then_Inr_iff Let_def split: if_splits option.splits) (metis option.exhaust)

lemma get_map_invariant:
  "get_map cfg m c = Inr (b, m', c') \<Longrightarrow> table_ok m \<Longrightarrow> listed m c \<Longrightarrow> collector_ok c \<Longrightarrow>
     table_ok m' \<and> listed m' c' \<and> collector_ok c'"
proof (induction cfg arbitrary: m c)
  case Nil
  then show ?case by simp
next
  case (Cons s ss)
  from Cons.prems(1) show ?case
  proof (cases rule: get_map_cases)
    case stop
    with Cons.prems show ?thesis by simp
  next
    case refused
    with created_collector [OF refused(1) Cons.prems(3,4)] Cons.prems(2) show ?thesis by simp
  next
    case (made p q kind block h c1)
    have slash: "ends_with p [SLASH]" by (rule is_quoted_directory [OF made(1)])
    have c1: "listed m c1" "collector_ok c1"
      using created_collector [OF made(2) Cons.prems(3,4)] by simp_all
    have "p \<in> set (map fst (uri_request_handler c1))"
      using createHandler_registers [OF made(2)] keys_add_handler by auto
    with c1(1) have "listed (smap_insert p (Some h) m) c1"
      unfolding listed_def keys_smap_insert by simp
    from Cons.IH [OF made(3) table_insert [OF Cons.prems(2) createHandler_at [OF made(2)] slash] this c1(2)]
    show ?thesis .
  next
    case skip
    with Cons show ?thesis by blast
  qed
qed


definition example_locations :: config where
  "example_locations =
     [Statement [''location'', quoted ''/static'', ''StaticHandler''] (Some [Statement [''root'', quoted ''/srv''] None]),
      Statement [''location'', quoted ''/'', ''NotFoundHandler''] (Some [])]"


section \<open>Which handler answers\<close>

definition best_path :: "string \<Rightarrow> string list \<Rightarrow> nat \<times> string \<Rightarrow> bool" where
  "best_path u ps best \<longleftrightarrow>
     (if \<forall>p \<in> set ps. common_prefix_length u p = 0 then best = (0, [])
      else snd best \<in> set ps \<and> 0 < fst best \<and> common_prefix_length u (snd best) = fst best \<and>
        (\<forall>p \<in> set ps. common_prefix_length u p < fst best \<or>
           (common_prefix_length u p = fst best \<and> length (snd best) \<le> length p)))"

lemma dispatch_step_best:
  "best_path u ps best \<Longrightarrow> best_path u (ps @ [p]) (dispatch_step u best p)"
  by (cases best) (auto simp: best_path_def dispatch_step_def Let_def split: if_splits)

lemma dispatch_fold_best: "best_path u ps (foldl (dispatch_step u) (0, []) ps)"
proof (induction ps rule: rev_induct)
  case Nil
  then show ?case by (simp add: best_path_def)
next
  case (snoc p ps)
  then show ?case using dispatch_step_best by simp
qed

lemma table_find: "table_ok m \<Longrightarrow> (p, h) \<in> set m \<Longrightarrow> smap_find m p = Some h"
  using smap.entries_mem [of m p h] by (simp add: table_ok_def)

text \<open>
  C12: dispatch. In a well-formed table, a URI that shares a component with some path goes to a path
  that shares the most, and among those to a shortest one; the table does not change.  Any other
  URI goes to the handler of the root path; if there is none, the caller gets a null pointer.
\<close>

theorem dispatch_longest:
  assumes "table_ok m" and "dispatch_handler u m = (result, m')"
  shows "if \<forall>(p, h) \<in> set m. common_prefix_length u p = 0
    then result = or_default None (smap_find m ''/'')
    else m' = m \<and> (\<exists>p h. (p, Some h) \<in> set m \<and> result = Some h \<and> handler_at p h \<and> 0 < common_prefix_length u p \<and>
      (\<forall>(q, h') \<in> set m. common_prefix_length u q < common_prefix_length u p \<or>
        (common_prefix_length u q = common_prefix_length u p \<and> length p \<le> length q)))"
proof -
  obtain n k where best: "foldl (dispatch_step u) (0, []) (map fst m) = (n, k)" by force
  have b: "best_path u (map fst m) (n, k)" using dispatch_fold_best [of u "map fst m"] best by simp
  have ok: "smap_ok m" using assms(1) by (simp add: table_ok_def)
  show ?thesis
  proof (cases "\<forall>(p, h) \<in> set m. common_prefix_length u p = 0")
    case True
    then have "\<forall>p \<in> set (map fst m). common_prefix_length u p = 0" by auto
    with b have "n = 0" by (simp add: best_path_def)
    then show ?thesis using True assms(2) ok by (auto simp: dispatch_handler_def best Let_def)
  next
    case False
    then have some: "\<not> (\<forall>p \<in> set (map fst m). common_prefix_length u p = 0)" by fastforce
    from b have k: "k \<in> set (map fst m)" "0 < n" "common_prefix_length u k = n"
      and max: "\<forall>p \<in> set (map fst m). common_prefix_length u p < n \<or>
        (common_prefix_length u p = n \<and> length k \<le> length p)"
      unfolding best_path_def if_not_P [OF some]
      unfolding fst_conv snd_conv by blast+
    from k(1) obtain e where e: "(k, e) \<in> set m" by auto
    then obtain h where h: "e = Some h" "handler_at k h"
      using assms(1) by (fastforce simp: table_ok_def entry_ok_iff list_all_iff)
    have found: "smap_find m k = Some (Some h)" using table_find [OF assms(1) e] h by simp
    then have "result = Some h \<and> m' = m"
      using assms(2) k(2) ok by (auto simp: dispatch_handler_def best Let_def smap_touch_present)
    moreover have "common_prefix_length u q < common_prefix_length u k \<or>
        (common_prefix_length u q = common_prefix_length u k \<and> length k \<le> length q)"
      if "(q, h') \<in> set m" for q h'
    proof -
      from that have "q \<in> set (map fst m)" by force
      with max show ?thesis unfolding k(3) by blast
    qed
    then have "\<forall>(q, h') \<in> set m. common_prefix_length u q < common_prefix_length u k \<or>
        (common_prefix_length u q = common_prefix_length u k \<and> length k \<le> length q)"
      by blast
    moreover have "0 < common_prefix_length u k" "(k, Some h) \<in> set m" using k e h by simp_all
    ultimately show ?thesis unfolding if_not_P [OF False] using h(2) by blast
  qed
qed

definition example_table :: handler_map where
  "example_table = [(''/'', Some NotFoundHandler), (''/static/'', Some (StaticHandler example_static))]"

lemma example_table_ok [simp]: "table_ok example_table"
  by code_simp

theorem dispatch_longest_witness:
  "dispatch_handler ''/static/a.txt'' example_table = (Some (StaticHandler example_static), example_table) \<and>
   (\<exists>p h. (p, Some h) \<in> set example_table \<and> Some (StaticHandler example_static) = Some h \<and>
     0 < common_prefix_length ''/static/a.txt'' p)"
proof -
  have run: "dispatch_handler ''/static/a.txt'' example_table =
      (Some (StaticHandler example_static), example_table)"
    by code_simp
  have "\<not> (\<forall>(p, h) \<in> set example_table. common_prefix_length ''/static/a.txt'' p = 0)"
    by code_simp
  with dispatch_longest [OF example_table_ok run] run show ?thesis by (simp only: if_False) blast
qed

section \<open>Matching is positional\<close>

lemma components_append:
  "SLASH \<notin> set a \<Longrightarrow> path_components x (a @ SLASH # s) =
     (if x @ a = [] then [] else [x @ a]) @ path_components [] s"
  by (induction a arbitrary: x) auto

lemma components_last: "SLASH \<notin> set a \<Longrightarrow> path_components x a = (if x @ a = [] then [] else [x @ a])"
  by (induction a arbitrary: x) auto

definition component :: "string \<Rightarrow> bool" where
  "component a \<longleftrightarrow> a \<noteq> [] \<and> SLASH \<notin> set a \<and> NUL \<notin> set a"

definition one_location :: "string \<Rightarrow> handler \<Rightarrow> handler_map" where
  "one_location p h = [(p, Some h)]"

lemma dispatch_one:
  assumes "0 < common_prefix_length u p"
  shows "dispatch_handler u (one_location p h) = (Some h, one_location p h)"
  using assms
  by (simp add: one_location_def dispatch_handler_def dispatch_step_def Let_def smap_touch_def smap_find_def)

text \<open>
  Despite its name, \<open>common_prefix_length\<close> does not compare prefixes: it counts the positions at
  which the components agree.  A handler for \<open>/a/b/\<close> answers \<open>/x/b\<close> for every \<open>x\<close>; a static handler
  then cannot find its location in the URI and answers 500.
\<close>

theorem dispatch_not_a_prefix:
  assumes "component a" and "component b" and "component x" and "x \<noteq> a" and "st_auth_path s = []"
    and "st_path s = SLASH # a @ SLASH # b @ [SLASH]"
    and "url_decode (SLASH # x @ SLASH # b) = Some (SLASH # x @ SLASH # b)"
    and "\<not> contains ''..'' (SLASH # x @ SLASH # b)"
    and "req_uri request = SLASH # x @ SLASH # b"
  shows "dispatch_handler (req_uri request) (one_location (st_path s) (StaticHandler s)) =
      (Some (StaticHandler s), one_location (st_path s) (StaticHandler s)) \<and>
    handle_request libs net (StaticHandler s) w request = Inr (stock_response internal_server_error, w)"
proof -
  let ?u = "SLASH # x @ SLASH # b" and ?p = "SLASH # a @ SLASH # b @ [SLASH]"
  have clean: "c_str ?u = ?u" "c_str ?p = ?p"
    using assms(1-3) by (simp_all add: component_def takeWhile_clean)
  have "path_components [] ?u = [x, b]" "path_components [] ?p = [a, b]"
    using assms(1-3) components_append [of x "[]" b] components_append [of a "[]" "b @ [SLASH]"]
      components_append [of b "[]" "[]"] components_last [of b "[]"]
    by (simp_all add: component_def)
  then have "0 < common_prefix_length ?u ?p"
    by (simp only: common_prefix_length_def clean) simp
  then have "dispatch_handler ?u (one_location ?p (StaticHandler s)) =
      (Some (StaticHandler s), one_location ?p (StaticHandler s))"
    by (rule dispatch_one)
  moreover have "last b \<noteq> SLASH" "b \<noteq> []"
    using assms(2) last_in_set [of b] unfolding component_def by metis+
  then have "check_request_path ?u = Some ?u"
    using assms(7,8) by (simp add: check_request_path_def)
  moreover have "str_find ?p ?u = None"
  proof (rule ccontr)
    assume "str_find ?p ?u \<noteq> None"
    then have "sublist ?p ?u" by (simp add: contains_iff_sublist [symmetric] contains_def)
    then obtain l r where "?u = l @ ?p @ r" by (auto simp: sublist_def)
    then have "count_list ?u SLASH = count_list l SLASH + count_list ?p SLASH + count_list r SLASH" by simp
    moreover have "count_list x SLASH = 0" "count_list b SLASH = 0"
      using assms(2,3) by (auto simp: component_def intro: count_notin)
    ultimately show False by simp
  qed
  ultimately show ?thesis
    using assms(5,6,9) by (simp add: static_handle_def static_response_def serve_file_def replace_path_def)
qed

theorem dispatch_not_a_prefix_witness:
  "let s = example_static\<lparr>st_path := ''/a/b/''\<rparr> in
   dispatch_handler ''/x/b'' (one_location ''/a/b/'' (StaticHandler s)) =
     (Some (StaticHandler s), one_location ''/a/b/'' (StaticHandler s)) \<and>
   handle_request example_libs example_network (StaticHandler s) accounts_world (get_request ''/x/b'') =
     Inr (stock_response internal_server_error, accounts_world)"
proof -
  let ?s = "example_static\<lparr>st_path := ''/a/b/''\<rparr>"
  have facts: "component ''a''" "component ''b''" "component ''x''" "st_auth_path ?s = []"
    "url_decode (SLASH # ''x'' @ SLASH # ''b'') = Some (SLASH # ''x'' @ SLASH # ''b'')"
    "\<not> contains ''..'' (SLASH # ''x'' @ SLASH # ''b'')"
    by code_simp+
  show ?thesis
    using dispatch_not_a_prefix [OF facts(1-3) _ facts(4) _ facts(5,6), of "get_request ''/x/b''"
        example_libs example_network accounts_world]
    by (simp add: get_request_def Let_def)
qed

text \<open>
  A request can end the server. The URI of a request need not start with a slash; the bare name of
  a proxy location is dispatched to the proxy, whose cut at the length of the location is then
  past the end of the URI: \<open>std::out_of_range\<close> is thrown outside the try block.
\<close>

theorem proxy_bare_name_throws:
  assumes "component a" and "px_path h = SLASH # a @ [SLASH]" and "req_uri request = a" and "length a < 2 ^ 63"
  shows "dispatch_handler (req_uri request) (one_location (px_path h) (ProxyHandler h)) =
      (Some (ProxyHandler h), one_location (px_path h) (ProxyHandler h)) \<and>
    handle_request libs net (ProxyHandler h) w request = Inl StdOutOfRange"
proof -
  let ?p = "SLASH # a @ [SLASH]"
  have "path_components [] a = [a]" "path_components [] ?p = [a]"
    using assms(1) components_append [of a "[]" "[]"] components_last [of a "[]"]
    by (simp_all add: component_def)
  moreover have "c_str a = a" "c_str ?p = ?p"
    using assms(1) by (simp_all add: component_def takeWhile_clean)
  ultimately have "0 < common_prefix_length a ?p" by (simp only: common_prefix_length_def) simp
  moreover have "nat ((1 + int (length a)) mod 2 ^ 64) = length a + 1"
    using assms(4) by (subst mod_pos_pos_trivial) auto
  then have "proxy_uri h a = Inl StdOutOfRange"
    using assms(2) by (simp add: proxy_uri_def substr_def)
  ultimately show ?thesis
    using assms(2,3) by (simp add: dispatch_one proxy_handle_def proxy_rawbody_def)
qed

theorem proxy_bare_name_throws_witness:
  "dispatch_handler ''ucla'' (one_location ''/ucla/'' (ProxyHandler example_proxy)) =
     (Some (ProxyHandler example_proxy), one_location ''/ucla/'' (ProxyHandler example_proxy)) \<and>
   handle_request example_libs example_network (ProxyHandler example_proxy) accounts_world (get_request ''ucla'') =
     Inl StdOutOfRange"
proof -
  have "component ''ucla''" by code_simp
  from proxy_bare_name_throws [OF this, of example_proxy "get_request ''ucla''"]
  show ?thesis by (simp add: example_proxy_def get_request_def)
qed

end
