(* ===== verification/Connection.thy ===== *)
theory Connection
  imports Handler_Generator
begin

text \<open>
  What the two session classes (\<open>src/session.cc\<close>, \<open>src/http_session.cc\<close>) have in common: their
  data members, the parsing loop of \<open>handle_read\<close>, the answer, and the second read for a missing
  body.  A callback runs when an asynchronous operation completes; it may block in the synchronous
  reads of the parsing loop, throw, or run into undefined behaviour.
\<close>

section \<open>State\<close>

text \<open>The asynchronous operations that have been started and not completed.\<close>

datatype pending = Handshake | Reading | Final_reading | Writing | Shutting_down

text \<open>
  \<open>cn_out\<close> is what was handed to \<open>async_write\<close>, in order.  \<open>cn_alive\<close> is false once \<open>delete this\<close>
  has run.
\<close>

record connection =
  cn_parser :: parser
  cn_response :: response
  cn_request :: request
  cn_data :: "char list"
  cn_buffer :: "char list"
  cn_pending :: "pending list"
  cn_out :: "string list"
  cn_alive :: bool

definition max_length :: nat where
  "max_length = 1024"

text \<open>The two arrays are not initialised: their first contents are arbitrary.\<close>

definition new_connection :: "char list \<Rightarrow> char list \<Rightarrow> connection" where
  "new_connection data buffer = \<lparr>cn_parser = new_parser, cn_response = empty_response,
     cn_request = empty_request, cn_data = data, cn_buffer = buffer, cn_pending = [], cn_out = [],
     cn_alive = True\<rparr>"

definition receive :: "char list \<Rightarrow> string \<Rightarrow> char list" where
  "receive mem chunk = chunk @ drop (length chunk) mem"

definition zeros :: "char list" where
  "zeros = replicate max_length NUL"

section \<open>Answering\<close>

text \<open>
  A responder answers a parsed request; a recorder counts an answer.  Both work on the state \<open>'w\<close>
  the session shares with the rest of the server.
\<close>

type_synonym 'w responder = "'w \<Rightarrow> request \<Rightarrow> (response \<times> 'w) outcome"
type_synonym 'w recorder = "string \<Rightarrow> status_code \<Rightarrow> 'w \<Rightarrow> 'w"

definition deep_copy_response :: "response \<Rightarrow> connection \<Rightarrow> connection" where
  "deep_copy_response rsp cn = cn\<lparr>cn_response := generator_init (cn_response cn) rsp\<rparr>"

definition start_write :: "connection \<Rightarrow> connection" where
  "start_write cn = cn\<lparr>cn_out := cn_out cn @ [concat (to_buffers (cn_response cn))],
     cn_pending := cn_pending cn @ [Writing]\<rparr>"

definition answer :: "'w responder \<Rightarrow> 'w recorder \<Rightarrow> connection \<Rightarrow> 'w \<Rightarrow> (connection \<times> 'w) outcome" where
  "answer respond record_it cn w =
     and_then (respond w (cn_request cn)) (\<lambda>(rsp, w).
       Inr (start_write (deep_copy_response rsp cn), record_it (req_uri (cn_request cn)) (rsp_code rsp) w))"

definition answer_bad_request :: "'w recorder \<Rightarrow> connection \<Rightarrow> 'w \<Rightarrow> connection \<times> 'w" where
  "answer_bad_request record_it cn w =
     (let rsp = stock_response bad_request in
      (start_write (deep_copy_response rsp cn), record_it (req_uri (cn_request cn)) (rsp_code rsp) w))"

section \<open>Reading\<close>

text \<open>
  The loop around the synchronous \<open>read\<close>: each read overwrites the array from its start, the parser
  is given as many bytes as the first, asynchronous read brought, and is reset after every round.
  The list holds what the reads bring and whether they fail; when it is used up the call blocks
  (\<open>None\<close>).  The boolean of the result is the error flag.
\<close>

fun read_more ::
    "nat \<Rightarrow> connection \<Rightarrow> result_type \<Rightarrow> (string \<times> bool) list \<Rightarrow>
     (connection \<times> result_type \<times> bool) option outcome" where
  "read_more n cn result [] = Inr (if result \<noteq> indeterminate then Some (cn, result, False) else None)"
| "read_more n cn result ((chunk, failed) # reads) =
     (if result \<noteq> indeterminate then Inr (Some (cn, result, False))
      else let data = receive (cn_data cn) chunk in
        and_then (parse_data (cn_parser cn) (cn_request cn) data n) (\<lambda>(result, p, r).
          let cn = cn\<lparr>cn_data := data, cn_parser := reset p, cn_request := r\<rparr> in
          if failed then Inr (Some (cn, result, True)) else read_more n cn result reads))"

text \<open>What follows the loop when no read failed.\<close>

definition after_parsing ::
    "'w responder \<Rightarrow> 'w recorder \<Rightarrow> connection \<Rightarrow> result_type \<Rightarrow> 'w \<Rightarrow> (connection \<times> 'w) outcome" where
  "after_parsing respond record_it cn result w =
     (let cn = cn\<lparr>cn_parser := reset (cn_parser cn)\<rparr> in
      and_then
        (case result of
           good \<Rightarrow> answer respond record_it cn w
         | missing_data \<Rightarrow>
             and_then (get_content_length (cn_request cn)) (\<lambda>(content_length, r).
               Inr (cn\<lparr>cn_request := r, cn_pending := cn_pending cn @ [Final_reading]\<rparr>, w))
         | bad \<Rightarrow> Inr (answer_bad_request record_it cn w)
         | indeterminate \<Rightarrow> Inr (cn, w))
        (\<lambda>(cn, w). Inr (if result \<noteq> missing_data then cn\<lparr>cn_data := zeros\<rparr> else cn, w)))"

definition handle_read ::
    "'w responder \<Rightarrow> 'w recorder \<Rightarrow> connection \<Rightarrow> bool \<Rightarrow> nat \<Rightarrow> (string \<times> bool) list \<Rightarrow> 'w \<Rightarrow>
     (connection \<times> 'w) option outcome" where
  "handle_read respond record_it cn error bytes_transferred reads w =
     (if error then Inr (Some (cn\<lparr>cn_alive := False\<rparr>, w))
      else
        and_then (parse_data (cn_parser cn) empty_request (cn_data cn) bytes_transferred) (\<lambda>(result, p, r).
        and_then (read_more bytes_transferred (cn\<lparr>cn_parser := p, cn_request := r\<rparr>) result reads) (\<lambda>x.
          case x of
            None \<Rightarrow> Inr None
          | Some (cn, result, failed) \<Rightarrow>
              if failed then Inr (Some (cn, w))
              else and_then (after_parsing respond record_it cn result w) (\<lambda>s. Inr (Some s)))))"

text \<open>\<open>request_.body_ = buffer_\<close> reads the array as a C string; the error code is not looked at.\<close>

definition handle_final_read ::
    "'w responder \<Rightarrow> 'w recorder \<Rightarrow> connection \<Rightarrow> 'w \<Rightarrow> (connection \<times> 'w) outcome" where
  "handle_final_read respond record_it cn w =
     and_then (c_string (cn_buffer cn)) (\<lambda>body.
     and_then (answer respond record_it (cn\<lparr>cn_request := (cn_request cn)\<lparr>req_body := body\<rparr>\<rparr>) w) (\<lambda>(cn, w).
       Inr (cn\<lparr>cn_data := zeros, cn_buffer := zeros\<rparr>, w)))"

text \<open>
  \<open>headers_["Connection"] == "close" || headers_["connection"] == "close"\<close>, with the entries that
  \<open>operator[]\<close> leaves behind.
\<close>

definition wants_close :: "request \<Rightarrow> bool \<times> request" where
  "wants_close r =
     (let hs = smap_touch [] ''Connection'' (req_headers r) in
      if smap_find hs ''Connection'' = Some ''close'' then (True, r\<lparr>req_headers := hs\<rparr>)
      else let hs = smap_touch [] ''connection'' hs in
        (smap_find hs ''connection'' = Some ''close'', r\<lparr>req_headers := hs\<rparr>))"

section \<open>Events\<close>

text \<open>
  The completion of an operation.  \<open>peer\<close> says whether \<open>remote_endpoint\<close> works; it throws when the
  connection is gone.  A read brings a chunk, at most as long as the array.
\<close>

datatype event =
    Handshake_done bool
  | Read_done bool bool string "(string \<times> bool) list"
  | Final_done bool bool string
  | Write_done bool bool
  | Shutdown_done

fun completes :: "event \<Rightarrow> pending" where
  "completes (Handshake_done error) = Handshake"
| "completes (Read_done peer error chunk reads) = Reading"
| "completes (Final_done peer error chunk) = Final_reading"
| "completes (Write_done peer error) = Writing"
| "completes Shutdown_done = Shutting_down"

fun fits :: "event \<Rightarrow> bool" where
  "fits (Read_done peer error chunk reads) \<longleftrightarrow>
     length chunk \<le> max_length \<and> list_all (\<lambda>(c, f). length c \<le> max_length) reads"
| "fits (Final_done peer error chunk) \<longleftrightarrow> length chunk \<le> max_length"
| "fits _ \<longleftrightarrow> True"

text \<open>The operation an event completes is no longer pending when its callback runs.\<close>

definition complete :: "event \<Rightarrow> connection \<Rightarrow> connection" where
  "complete e cn = cn\<lparr>cn_pending := remove1 (completes e) (cn_pending cn)\<rparr>"

section \<open>Runs\<close>

text \<open>
  A run: the completions in the order in which they happen, each of an operation that is pending.
  The step function gives the state after the callback; a run goes on as long as the callbacks return.
\<close>

type_synonym ('c, 'e) machine = "'c \<Rightarrow> 'e \<Rightarrow> 'c option outcome"

inductive reaches :: "('c \<Rightarrow> 'e \<Rightarrow> bool) \<Rightarrow> ('c, 'e) machine \<Rightarrow> 'c \<Rightarrow> 'e list \<Rightarrow> 'c \<Rightarrow> bool"
  for enabled :: "'c \<Rightarrow> 'e \<Rightarrow> bool" and react :: "('c, 'e) machine" and s0 :: 'c where
  start: "reaches enabled react s0 [] s0"
| step: "reaches enabled react s0 es s \<Longrightarrow> enabled s e \<Longrightarrow> react s e = Inr (Some s') \<Longrightarrow>
     reaches enabled react s0 (es @ [e]) s'"

inductive_cases reaches_snocE: "reaches enabled react s0 (es @ [e]) s"

lemma reaches_append:
  "reaches enabled react s1 es2 s2 \<Longrightarrow> reaches enabled react s0 es1 s1 \<Longrightarrow>
     reaches enabled react s0 (es1 @ es2) s2"
  by (induction rule: reaches.induct) (auto simp: reaches.step simp flip: append_assoc)

lemma reaches_one: "enabled s0 e \<Longrightarrow> react s0 e = Inr (Some s) \<Longrightarrow> reaches enabled react s0 [e] s"
  using reaches.step [OF reaches.start, of enabled s0 e react s] by simp

locale event_machine =
  fixes enabled :: "'c \<Rightarrow> 'e \<Rightarrow> bool"
    and react :: "('c, 'e) machine"
    and inv :: "'c \<Rightarrow> bool"
  assumes react_inv: "inv s \<Longrightarrow> enabled s e \<Longrightarrow> react s e = Inr (Some s') \<Longrightarrow> inv s'"
begin

lemma reaches_inv: "reaches enabled react s0 es s \<Longrightarrow> inv s0 \<Longrightarrow> inv s"
  by (induction rule: reaches.induct) (auto intro: react_inv)

text \<open>A quantity that no step lets grow by more than what the event allows.\<close>

lemma reaches_measure:
  assumes "reaches enabled react s0 es s" and "inv s0"
    and "\<And>s e s'. inv s \<Longrightarrow> enabled s e \<Longrightarrow> react s e = Inr (Some s') \<Longrightarrow> f s' = f s + g s s'"
    and "\<And>s e s'. inv s \<Longrightarrow> enabled s e \<Longrightarrow> react s e = Inr (Some s') \<Longrightarrow> h s' = h s + g s s'"
  shows "f s + h s0 = f s0 + (h s :: nat)"
  using assms(1)
proof (induction rule: reaches.induct)
  case start
  then show ?case by simp
next
  case (step es s e s')
  have "inv s" using reaches_inv [OF step.hyps(1) assms(2)] .
  with assms(3,4) [OF this step.hyps(2,3)] step.IH show ?case by linarith
qed

end

section \<open>What the callbacks change\<close>

lemma max_length_pos [simp]: "0 < max_length" by (simp add: max_length_def)

lemma length_zeros [simp]: "length zeros = max_length" by (simp add: zeros_def)

lemma length_receive [simp]:
  "length mem = max_length \<Longrightarrow> length chunk \<le> max_length \<Longrightarrow> length (receive mem chunk) = max_length"
  by (simp add: receive_def)

text \<open>Everything of a connection but the parser, the request and the read array.\<close>

definition same_frame :: "connection \<Rightarrow> connection \<Rightarrow> bool" where
  "same_frame cn cn' \<longleftrightarrow> cn_response cn' = cn_response cn \<and> cn_buffer cn' = cn_buffer cn \<and>
     cn_pending cn' = cn_pending cn \<and> cn_out cn' = cn_out cn \<and> cn_alive cn' = cn_alive cn"

lemma read_more_frame:
  "read_more n cn result reads = Inr (Some (cn', result', failed)) \<Longrightarrow> length (cn_data cn) = max_length \<Longrightarrow>
     list_all (\<lambda>(c, f). length c \<le> max_length) reads \<Longrightarrow>
     same_frame cn cn' \<and> length (cn_data cn') = max_length"
proof (induction n cn result reads rule: read_more.induct)
  case (1 n cn result)
  then show ?case by (auto simp: same_frame_def split: if_splits)
next
  case (2 n cn result chunk failed' reads)
  show ?case
  proof (cases "result = indeterminate")
    case False
    with "2.prems" show ?thesis by (auto simp: same_frame_def)
  next
    case True
    let ?data = "receive (cn_data cn) chunk"
    obtain result1 p r where parse: "parse_data (cn_parser cn) (cn_request cn) ?data n = Inr (result1, p, r)"
      using "2.prems"(1) True by (auto simp: and_then_Inr_iff Let_def)
    let ?cn = "cn\<lparr>cn_data := ?data, cn_parser := reset p, cn_request := r\<rparr>"
    show ?thesis
    proof (cases failed')
      case failed: True
      then show ?thesis
        using "2.prems" True parse by (auto simp: same_frame_def Let_def)
    next
      case False
      with "2.prems" True parse have "read_more n ?cn result1 reads = Inr (Some (cn', result', failed))"
        by (simp add: Let_def)
      from "2.IH" [OF _ refl parse refl refl refl False this] True "2.prems" show ?thesis
        by (auto simp: same_frame_def)
    qed
  qed
qed

text \<open>An answer appends one message to the output, starts one write and is counted once.\<close>

definition message_of :: "status_code \<Rightarrow> string \<Rightarrow> bool" where
  "message_of code out \<longleftrightarrow> prefix (status_buffer code) out"

lemma message_of_generator:
  "message_of (rsp_code rsp) (concat (to_buffers (generator_init gen rsp)))"
  by (simp add: message_of_def to_buffers_def generator_init_def)

definition answered :: "'w responder \<Rightarrow> 'w recorder \<Rightarrow> connection \<Rightarrow> 'w \<Rightarrow> connection \<Rightarrow> 'w \<Rightarrow> bool" where
  "answered respond record_it cn w cn' w' \<longleftrightarrow>
     (\<exists>rsp w1 out u. cn_out cn' = cn_out cn @ [out] \<and> message_of (rsp_code rsp) out \<and>
        out = concat (to_buffers (cn_response cn')) \<and>
        w' = record_it u (rsp_code rsp) w1 \<and> (w1 = w \<or> (\<exists>r. respond w r = Inr (rsp, w1))))"

lemma answer_result:
  assumes "answer respond record_it cn w = Inr (cn', w')"
  shows "answered respond record_it cn w cn' w'" and "cn_pending cn' = cn_pending cn @ [Writing]"
    and "cn_alive cn' = cn_alive cn" and "cn_data cn' = cn_data cn" and "cn_buffer cn' = cn_buffer cn"
proof -
  obtain rsp w1 where rsp: "respond w (cn_request cn) = Inr (rsp, w1)"
    and cn': "cn' = start_write (deep_copy_response rsp cn)"
    and w': "w' = record_it (req_uri (cn_request cn)) (rsp_code rsp) w1"
    using assms by (auto simp: answer_def and_then_Inr_iff)
  have "cn_out cn' = cn_out cn @ [concat (to_buffers (cn_response cn'))]"
    and "message_of (rsp_code rsp) (concat (to_buffers (cn_response cn')))"
    by (simp_all add: cn' start_write_def deep_copy_response_def message_of_generator)
  with rsp w'
  show "answered respond record_it cn w cn' w'"
    unfolding answered_def by blast
qed (use assms in \<open>auto simp: answer_def and_then_Inr_iff start_write_def deep_copy_response_def\<close>)

lemma answer_bad_request_result:
  assumes "answer_bad_request record_it cn w = (cn', w')"
  shows "answered respond record_it cn w cn' w'" and "cn_pending cn' = cn_pending cn @ [Writing]"
    and "cn_alive cn' = cn_alive cn" and "cn_data cn' = cn_data cn" and "cn_buffer cn' = cn_buffer cn"
proof -
  let ?rsp = "stock_response bad_request"
  have "cn_out cn' = cn_out cn @ [concat (to_buffers (cn_response cn'))]"
    and "message_of (rsp_code ?rsp) (concat (to_buffers (cn_response cn')))"
    and "w' = record_it (req_uri (cn_request cn)) (rsp_code ?rsp) w"
    using assms message_of_generator [of ?rsp "cn_response cn"]
    by (auto simp: answer_bad_request_def Let_def start_write_def deep_copy_response_def)
  then
  show "answered respond record_it cn w cn' w'"
    unfolding answered_def by blast
qed (use assms in \<open>auto simp: answer_bad_request_def Let_def start_write_def deep_copy_response_def\<close>)

text \<open>What a callback that reads may lead to: nothing new pending, one more read, or an answer.\<close>

definition progressed :: "'w responder \<Rightarrow> 'w recorder \<Rightarrow> connection \<Rightarrow> 'w \<Rightarrow> connection \<Rightarrow> 'w \<Rightarrow> bool" where
  "progressed respond record_it cn w cn' w' \<longleftrightarrow>
     length (cn_data cn') = max_length \<and> length (cn_buffer cn') = max_length \<and>
     (cn_pending cn' = cn_pending cn \<and> cn_out cn' = cn_out cn \<and> w' = w \<or>
      cn_pending cn' = cn_pending cn @ [Final_reading] \<and> cn_alive cn' = cn_alive cn \<and> cn_out cn' = cn_out cn \<and> w' = w \<or>
      cn_pending cn' = cn_pending cn @ [Writing] \<and> cn_alive cn' = cn_alive cn \<and> answered respond record_it cn w cn' w')"

lemma after_parsing_progress:
  assumes "after_parsing respond record_it cn result w = Inr (cn', w')"
    and "length (cn_data cn) = max_length" and "length (cn_buffer cn) = max_length"
  shows "progressed respond record_it cn w cn' w'"
proof -
  let ?cn = "cn\<lparr>cn_parser := reset (cn_parser cn)\<rparr>"
  show ?thesis
  proof (cases result)
    case good
    with assms(1) obtain cn1 where a: "answer respond record_it ?cn w = Inr (cn1, w')"
      and cn': "cn' = cn1\<lparr>cn_data := zeros\<rparr>"
      by (auto simp: after_parsing_def Let_def and_then_Inr_iff)
    have "answered respond record_it cn w cn' w'"
      using answer_result(1) [OF a] by (simp add: answered_def cn')
    with answer_result [OF a] assms(2,3) show ?thesis by (simp add: progressed_def cn')
  next
    case bad
    obtain cn1 w1 where a: "answer_bad_request record_it ?cn w = (cn1, w1)" by force
    with assms(1) bad have cn': "cn' = cn1\<lparr>cn_data := zeros\<rparr>" and w1: "w1 = w'"
      by (auto simp: after_parsing_def Let_def)
    have "answered respond record_it cn w cn' w'"
      using answer_bad_request_result(1) [OF a, of respond] by (simp add: answered_def cn' w1)
    with answer_bad_request_result(2-5) [OF a] assms(2,3) show ?thesis by (simp add: progressed_def cn')
  next
    case indeterminate
    with assms show ?thesis by (auto simp: after_parsing_def Let_def progressed_def)
  next
    case missing_data
    with assms show ?thesis by (auto simp: after_parsing_def Let_def and_then_Inr_iff progressed_def)
  qed
qed

lemma handle_read_progress:
  assumes "handle_read respond record_it cn error n reads w = Inr (Some (cn', w'))"
    and "length (cn_data cn) = max_length" and "length (cn_buffer cn) = max_length"
    and "list_all (\<lambda>(c, f). length c \<le> max_length) reads"
  shows "progressed respond record_it cn w cn' w'"
proof (cases error)
  case True
  with assms show ?thesis by (auto simp: handle_read_def progressed_def)
next
  case False
  then obtain result p r cn1 result1 failed where
    more: "read_more n (cn\<lparr>cn_parser := p, cn_request := r\<rparr>) result reads = Inr (Some (cn1, result1, failed))"
    and rest: "(if failed then Inr (Some (cn1, w))
      else and_then (after_parsing respond record_it cn1 result1 w) (\<lambda>s. Inr (Some s))) = Inr (Some (cn', w'))"
    using assms(1) by (auto simp: handle_read_def and_then_Inr_iff split: option.splits)
  have frame: "same_frame cn cn1" and len: "length (cn_data cn1) = max_length"
    using read_more_frame [OF more] assms(2,4) by (auto simp: same_frame_def)
  show ?thesis
  proof (cases failed)
    case True
    with rest frame len assms(3) show ?thesis by (auto simp: progressed_def same_frame_def)
  next
    case False
    with rest have "after_parsing respond record_it cn1 result1 w = Inr (cn', w')"
      by (auto simp: and_then_Inr_iff)
    from after_parsing_progress [OF this len] frame assms(3)
    show ?thesis by (auto simp: progressed_def same_frame_def answered_def)
  qed
qed

lemma handle_final_read_progress:
  assumes "handle_final_read respond record_it cn w = Inr (cn', w')"
  shows "progressed respond record_it cn w cn' w'"
proof -
  obtain body cn1 where a: "answer respond record_it (cn\<lparr>cn_request := (cn_request cn)\<lparr>req_body := body\<rparr>\<rparr>) w = Inr (cn1, w')"
    and cn': "cn' = cn1\<lparr>cn_data := zeros, cn_buffer := zeros\<rparr>"
    using assms by (auto simp: handle_final_read_def and_then_Inr_iff)
  have "answered respond record_it cn w cn' w'"
    using answer_result(1) [OF a] by (simp add: answered_def cn')
  with answer_result [OF a] show ?thesis by (simp add: progressed_def cn')
qed

end
