(* ===== verification/Sessions.thy ===== *)
theory Sessions
  imports Connection
begin

text \<open>
  The two session classes as machines over completion events: \<open>Session\<close> (TLS, \<open>src/session.cc\<close>)
  dispatches to the handlers, \<open>HttpSession\<close> (\<open>src/http_session.cc\<close>) redirects every request to
  HTTPS.
\<close>

section \<open>The TLS session\<close>

text \<open>
  Each session has its own copy of the handler table.  A URI without a handler is a call through a
  null pointer.
\<close>

type_synonym 'db tls_world = "'db world \<times> handler_map"

fun tls_respond :: "('d, 'db) login_libs \<Rightarrow> network \<Rightarrow> 'db tls_world responder" where
  "tls_respond libs net (w, m) request =
     (case dispatch_handler (req_uri request) m of
        (None, m) \<Rightarrow> Inl Undefined
      | (Some rh, m) \<Rightarrow>
          and_then (handle_request libs net rh w request) (\<lambda>(rsp, w). Inr (rsp, (w, m))))"

fun tls_record :: "'db tls_world recorder" where
  "tls_record u code (w, m) = (w\<lparr>w_collector := increment_request u code (w_collector w)\<rparr>, m)"

definition start_operation :: "pending \<Rightarrow> connection \<Rightarrow> connection" where
  "start_operation op cn = cn\<lparr>cn_pending := cn_pending cn @ [op]\<rparr>"

definition tls_start :: "connection \<Rightarrow> connection" where
  "tls_start cn = start_operation Handshake cn"

definition handle_handshake :: "connection \<Rightarrow> bool \<Rightarrow> connection" where
  "handle_handshake cn error = (if \<not> error then start_operation Reading cn else cn\<lparr>cn_alive := False\<rparr>)"

definition close_socket :: "connection \<Rightarrow> connection" where
  "close_socket cn = start_operation Shutting_down cn"

definition tls_handle_read where
  "tls_handle_read libs net cn error bytes_transferred reads w =
     handle_read (tls_respond libs net) tls_record cn error bytes_transferred reads w"

definition tls_handle_final_read where
  "tls_handle_final_read libs net cn w = handle_final_read (tls_respond libs net) tls_record cn w"

definition tls_handle_write :: "connection \<Rightarrow> bool \<Rightarrow> connection" where
  "tls_handle_write cn error =
     (if \<not> error then
        (case wants_close (cn_request cn) of (closing, r) \<Rightarrow>
           let cn = cn\<lparr>cn_request := r\<rparr> in
           if closing then close_socket cn else start_operation Reading cn)
      else (close_socket cn)\<lparr>cn_alive := False\<rparr>)"

text \<open>
  The callback of an event.  On a deleted session it is undefined; \<open>handle_read\<close>,
  \<open>handle_final_read\<close> and \<open>handle_write\<close> begin with \<open>remote_endpoint\<close>, which throws when the peer
  is gone.
\<close>

fun tls_callback ::
    "('d, 'db) login_libs \<Rightarrow> network \<Rightarrow> connection \<Rightarrow> 'db tls_world \<Rightarrow> event \<Rightarrow>
     (connection \<times> 'db tls_world) option outcome" where
  "tls_callback libs net cn w (Handshake_done error) = Inr (Some (handle_handshake cn error, w))"
| "tls_callback libs net cn w (Read_done peer error chunk reads) =
     (if \<not> peer then Inl StdRuntimeError
      else tls_handle_read libs net (cn\<lparr>cn_data := receive (cn_data cn) chunk\<rparr>) error (length chunk) reads w)"
| "tls_callback libs net cn w (Final_done peer error chunk) =
     (if \<not> peer then Inl StdRuntimeError
      else and_then (tls_handle_final_read libs net (cn\<lparr>cn_buffer := receive (cn_buffer cn) chunk\<rparr>) w)
        (\<lambda>s. Inr (Some s)))"
| "tls_callback libs net cn w (Write_done peer error) =
     (if \<not> peer then Inl StdRuntimeError else Inr (Some (tls_handle_write cn error, w)))"
| "tls_callback libs net cn w Shutdown_done = Inr (Some (cn\<lparr>cn_alive := False\<rparr>, w))"

fun tls_react :: "('d, 'db) login_libs \<Rightarrow> network \<Rightarrow> (connection \<times> 'db tls_world, event) machine" where
  "tls_react libs net (cn, w) e =
     (if \<not> cn_alive cn then Inl Undefined else tls_callback libs net (complete e cn) w e)"

section \<open>The plain session\<close>

definition http_handle_request :: "string \<Rightarrow> request \<Rightarrow> response" where
  "http_handle_request hostname request =
     (let location = ''https://'' @ hostname @ req_uri request in
      if req_uri request = [] \<or> hd (req_uri request) \<noteq> SLASH then stock_response bad_request
      else let response = empty_response\<lparr>rsp_code := moved_temporarily\<rparr> in
        set_header ''Location'' location
         (set_header ''Connection'' ''close''
           (set_header ''Content-Type'' ''text/plain''
             (set_header ''Content-Length'' (to_string (length (rsp_body response))) response))))"

definition http_respond :: "string \<Rightarrow> collector responder" where
  "http_respond hostname c request = Inr (http_handle_request hostname request, c)"

definition http_start :: "connection \<Rightarrow> connection" where
  "http_start cn = start_operation Reading cn"

definition http_handle_read where
  "http_handle_read hostname cn error bytes_transferred reads c =
     handle_read (http_respond hostname) increment_request cn error bytes_transferred reads c"

definition http_handle_final_read where
  "http_handle_final_read hostname cn c = handle_final_read (http_respond hostname) increment_request cn c"

definition http_handle_write :: "connection \<Rightarrow> bool \<Rightarrow> connection" where
  "http_handle_write cn error =
     (if \<not> error then
        (case wants_close (cn_request cn) of (closing, r) \<Rightarrow>
           let cn = cn\<lparr>cn_request := r\<rparr> in
           if closing then cn\<lparr>cn_alive := False\<rparr> else start_operation Reading cn)
      else cn\<lparr>cn_alive := False\<rparr>)"

fun http_callback ::
    "string \<Rightarrow> connection \<Rightarrow> collector \<Rightarrow> event \<Rightarrow> (connection \<times> collector) option outcome" where
  "http_callback hostname cn c (Read_done peer error chunk reads) =
     (if \<not> peer then Inl StdRuntimeError
      else http_handle_read hostname (cn\<lparr>cn_data := receive (cn_data cn) chunk\<rparr>) error (length chunk) reads c)"
| "http_callback hostname cn c (Final_done peer error chunk) =
     (if \<not> peer then Inl StdRuntimeError
      else and_then (http_handle_final_read hostname (cn\<lparr>cn_buffer := receive (cn_buffer cn) chunk\<rparr>) c)
        (\<lambda>s. Inr (Some s)))"
| "http_callback hostname cn c (Write_done peer error) =
     (if \<not> peer then Inl StdRuntimeError else Inr (Some (http_handle_write cn error, c)))"
| "http_callback hostname cn c e = Inl Undefined"

fun http_react :: "string \<Rightarrow> (connection \<times> collector, event) machine" where
  "http_react hostname (cn, c) e =
     (if \<not> cn_alive cn then Inl Undefined else http_callback hostname (complete e cn) c e)"

section \<open>Invariants\<close>

definition enabled :: "connection \<times> 'w \<Rightarrow> event \<Rightarrow> bool" where
  "enabled s e \<longleftrightarrow> completes e \<in> set (cn_pending (fst s)) \<and> fits e"

text \<open>
  The arrays keep their size, and at most one operation is pending; for a deleted session it can
  only be the shutdown that \<open>handle_write\<close> started before it deleted the session.  While a write is
  pending the response its buffers point into is the one that is being sent.
\<close>

definition connection_ok :: "connection \<Rightarrow> bool" where
  "connection_ok cn \<longleftrightarrow> length (cn_data cn) = max_length \<and> length (cn_buffer cn) = max_length \<and>
     length (cn_pending cn) \<le> 1 \<and> (\<not> cn_alive cn \<longrightarrow> set (cn_pending cn) \<subseteq> {Shutting_down}) \<and>
     (Writing \<in> set (cn_pending cn) \<longrightarrow>
        cn_out cn \<noteq> [] \<and> last (cn_out cn) = concat (to_buffers (cn_response cn)))"

lemma single_completed:
  "connection_ok cn \<Longrightarrow> enabled (cn, w) e \<Longrightarrow> cn_pending (complete e cn) = []"
  by (cases "cn_pending cn") (auto simp: connection_ok_def enabled_def complete_def)

lemma complete_simps [simp]:
  "cn_data (complete e cn) = cn_data cn" "cn_buffer (complete e cn) = cn_buffer cn"
  "cn_alive (complete e cn) = cn_alive cn" "cn_out (complete e cn) = cn_out cn"
  "cn_request (complete e cn) = cn_request cn" "cn_parser (complete e cn) = cn_parser cn"
  by (simp_all add: complete_def)

lemma progressed_ok:
  "progressed respond record_it cn w cn' w' \<Longrightarrow> cn_pending cn = [] \<Longrightarrow> cn_alive cn \<Longrightarrow> connection_ok cn'"
  by (auto simp: progressed_def connection_ok_def answered_def)

lemma tls_callback_reads:
  assumes "tls_callback libs net cn w e = Inr (Some (cn', w'))"
    and "length (cn_data cn) = max_length" "length (cn_buffer cn) = max_length" "fits e"
    and "completes e \<in> {Reading, Final_reading}"
  shows "\<exists>cn0. cn_pending cn0 = cn_pending cn \<and> cn_alive cn0 = cn_alive cn \<and> cn_out cn0 = cn_out cn \<and>
    progressed (tls_respond libs net) tls_record cn0 w cn' w'"
proof (cases e)
  case (Read_done peer error chunk reads)
  let ?cn = "cn\<lparr>cn_data := receive (cn_data cn) chunk\<rparr>"
  have "progressed (tls_respond libs net) tls_record ?cn w cn' w'"
    by (rule handle_read_progress [of _ _ _ error "length chunk" reads])
      (use assms(1-4) Read_done in \<open>auto simp: tls_handle_read_def split: if_splits\<close>)
  then show ?thesis by (intro exI [of _ ?cn]) simp
next
  case (Final_done peer error chunk)
  let ?cn = "cn\<lparr>cn_buffer := receive (cn_buffer cn) chunk\<rparr>"
  have "progressed (tls_respond libs net) tls_record ?cn w cn' w'"
    by (rule handle_final_read_progress)
      (use assms(1) Final_done in \<open>auto simp: tls_handle_final_read_def and_then_Inr_iff split: if_splits\<close>)
  then show ?thesis by (intro exI [of _ ?cn]) simp
qed (use assms(5) in auto)

lemma http_callback_reads:
  assumes "http_callback hostname cn w e = Inr (Some (cn', w'))"
    and "length (cn_data cn) = max_length" "length (cn_buffer cn) = max_length" "fits e"
    and "completes e \<in> {Reading, Final_reading}"
  shows "\<exists>cn0. cn_pending cn0 = cn_pending cn \<and> cn_alive cn0 = cn_alive cn \<and> cn_out cn0 = cn_out cn \<and>
    progressed (http_respond hostname) increment_request cn0 w cn' w'"
proof (cases e)
  case (Read_done peer error chunk reads)
  let ?cn = "cn\<lparr>cn_data := receive (cn_data cn) chunk\<rparr>"
  have "progressed (http_respond hostname) increment_request ?cn w cn' w'"
    by (rule handle_read_progress [of _ _ _ error "length chunk" reads])
      (use assms(1-4) Read_done in \<open>auto simp: http_handle_read_def split: if_splits\<close>)
  then show ?thesis by (intro exI [of _ ?cn]) simp
next
  case (Final_done peer error chunk)
  let ?cn = "cn\<lparr>cn_buffer := receive (cn_buffer cn) chunk\<rparr>"
  have "progressed (http_respond hostname) increment_request ?cn w cn' w'"
    by (rule handle_final_read_progress)
      (use assms(1) Final_done in \<open>auto simp: http_handle_final_read_def and_then_Inr_iff split: if_splits\<close>)
  then show ?thesis by (intro exI [of _ ?cn]) simp
qed (use assms(5) in auto)

lemma handle_request_untouched:
  assumes "handle_request libs net h w r = Inr (rsp, w')"
  shows "untouched w w'"
proof (cases h)
  case (LoginHandler l)
  with assms login_handle_contract [of libs l w r rsp w'] show ?thesis by simp
qed (use assms in \<open>auto simp: untouched_def on_collector_def and_then_Inr_iff echo_handle_def health_handle_def
    not_found_handle_def status_handle_def static_handle_def proxy_handle_def\<close>)

lemma dispatch_keeps_table:
  assumes "table_ok m" and "dispatch_handler u m = (Some h, m')"
  shows "m' = m"
proof -
  have ok: "smap_ok m" using assms(1) by (simp add: table_ok_def)
  obtain k where k: "m' = smap_touch None k m" "or_default None (smap_find m' k) = Some h"
    using assms(2) by (auto simp: dispatch_handler_def Let_def split: prod.splits)
  then have "smap_find m k = Some (Some h)"
    using ok by (cases "smap_find m k") auto
  with k(1) ok show ?thesis by (simp add: smap_touch_present)
qed

fun tls_world_ok :: "'db tls_world \<Rightarrow> bool" where
  "tls_world_ok (w, m) \<longleftrightarrow> world_ok w \<and> table_ok m"

lemma tls_respond_keeps:
  assumes "tls_respond libs net (w, m) r = Inr (rsp, (w', m'))" and "table_ok m"
  shows "m' = m" and "untouched w w'" and "world_ok w \<Longrightarrow> world_ok w'"
    and "world_ok w \<Longrightarrow> smap_ok (rsp_headers rsp)"
proof -
  obtain h where h: "dispatch_handler (req_uri r) m = (Some h, m')"
    "handle_request libs net h w r = Inr (rsp, w')"
    using assms(1) by (auto simp: and_then_Inr_iff split: prod.splits option.splits)
  show "m' = m" by (rule dispatch_keeps_table [OF assms(2) h(1)])
  show "untouched w w'" by (rule handle_request_untouched [OF h(2)])
  show "world_ok w \<Longrightarrow> world_ok w'" by (rule any_handler.handle_inv [OF _ h(2)])
  show "world_ok w \<Longrightarrow> smap_ok (rsp_headers rsp)" by (rule any_handler.handle_headers [OF _ h(2)])
qed

text \<open>
  The collector counts what was sent: since the state \<open>c0\<close>, one call for each message, with the
  code the message starts with.
\<close>

definition counts_sent :: "collector \<Rightarrow> collector \<Rightarrow> string list \<Rightarrow> bool" where
  "counts_sent c0 c out \<longleftrightarrow> (\<exists>es. c = record_all es c0 \<and> list_all2 (\<lambda>e o'. message_of (snd e) o') es out)"

lemma record_all_snoc: "record_all (es @ [(u, code)]) c = increment_request u code (record_all es c)"
  by (simp add: record_all_def)

lemma counts_sent_snoc:
  assumes "counts_sent c0 c out" and "message_of code msg"
  shows "counts_sent c0 (increment_request u code c) (out @ [msg])"
proof -
  obtain es where es: "c = record_all es c0" "list_all2 (\<lambda>e o'. message_of (snd e) o') es out"
    using assms(1) by (auto simp: counts_sent_def)
  show ?thesis
    unfolding counts_sent_def
    by (rule exI [of _ "es @ [(u, code)]"])
      (use es assms(2) in \<open>simp add: record_all_snoc list_all2_appendI\<close>)
qed

lemma counts_sent_trans:
  assumes "counts_sent c0 c out" and "counts_sent c c' msgs"
  shows "counts_sent c0 c' (out @ msgs)"
proof -
  obtain es es' where "c = record_all es c0" "list_all2 (\<lambda>e o'. message_of (snd e) o') es out"
    "c' = record_all es' c" "list_all2 (\<lambda>e o'. message_of (snd e) o') es' msgs"
    using assms by (auto simp: counts_sent_def)
  then have "c' = record_all (es @ es') c0 \<and> list_all2 (\<lambda>e o'. message_of (snd e) o') (es @ es') (out @ msgs)"
    by (simp add: record_all_def list_all2_appendI)
  then show ?thesis unfolding counts_sent_def by blast
qed

lemma counts_sent_none [simp]: "counts_sent c c []"
  by (simp add: counts_sent_def exI [of _ "[]"])

lemma counts_sent_one: "message_of code msg \<Longrightarrow> counts_sent c (increment_request u code c) [msg]"
  using counts_sent_snoc [OF counts_sent_none, where u = u] by simp

lemma tls_answered:
  assumes "answered (tls_respond libs net) tls_record cn (w, m) cn' (w', m')"
    and "world_ok w" "table_ok m"
  shows "world_ok w' \<and> m' = m \<and> w_files w' = w_files w \<and>
    (\<exists>msgs. cn_out cn' = cn_out cn @ msgs \<and> counts_sent (w_collector w) (w_collector w') msgs)"
proof -
  obtain rsp w1 m1 msg u where out: "cn_out cn' = cn_out cn @ [msg]" and msg: "message_of (rsp_code rsp) msg"
    and rec: "(w', m') = tls_record u (rsp_code rsp) (w1, m1)"
    and via: "(w1, m1) = (w, m) \<or> (\<exists>r. tls_respond libs net (w, m) r = Inr (rsp, (w1, m1)))"
    using assms(1) unfolding answered_def by (metis surj_pair)
  have "m1 = m \<and> untouched w w1 \<and> world_ok w1"
    using via
  proof
    assume "(w1, m1) = (w, m)"
    then show ?thesis using assms(2) by simp
  next
    assume "\<exists>r. tls_respond libs net (w, m) r = Inr (rsp, (w1, m1))"
    then obtain r where "tls_respond libs net (w, m) r = Inr (rsp, (w1, m1))" ..
    note keeps = tls_respond_keeps [OF this assms(3)]
    show ?thesis using keeps(1,2) keeps(3) [OF assms(2)] by (rule conjI [OF _ conjI])
  qed
  then show ?thesis
    using rec out counts_sent_one [OF msg, where u = u]
    by (auto simp: world_ok_def untouched_def increment_request_ok)
qed

text \<open>What one callback does: the connection stays well-formed, and what it sends is counted.\<close>

lemma tls_react_step:
  assumes "connection_ok cn" and "world_ok w" and "table_ok m" and "enabled (cn, x) e"
    and "tls_react libs net (cn, (w, m)) e = Inr (Some (cn', (w', m')))"
  shows "connection_ok cn' \<and> world_ok w' \<and> m' = m \<and> w_files w' = w_files w \<and>
    (\<exists>msgs. cn_out cn' = cn_out cn @ msgs \<and> counts_sent (w_collector w) (w_collector w') msgs)"
proof -
  have alive: "cn_alive cn" and run: "tls_callback libs net (complete e cn) (w, m) e = Inr (Some (cn', (w', m')))"
    using assms(5) by (auto split: if_splits)
  have none: "cn_pending (complete e cn) = []" by (rule single_completed [OF assms(1,4)])
  have len: "length (cn_data (complete e cn)) = max_length" "length (cn_buffer (complete e cn)) = max_length"
    and fits: "fits e"
    using assms(1,4) by (simp_all add: connection_ok_def enabled_def)
  show ?thesis
  proof (cases "completes e \<in> {Reading, Final_reading}")
    case True
    obtain cn0 where cn0: "cn_pending cn0 = []" "cn_alive cn0" "cn_out cn0 = cn_out cn"
      and prog: "progressed (tls_respond libs net) tls_record cn0 (w, m) cn' (w', m')"
      using tls_callback_reads [OF run len fits True] none alive by auto
    have "connection_ok cn'" by (rule progressed_ok [OF prog cn0(1,2)])
    with prog tls_answered [of libs net cn0 w m cn' w' m'] assms(2,3) cn0(3)
    show ?thesis by (auto simp: progressed_def intro: counts_sent_none)
  next
    case False
    then show ?thesis
      using run none len alive assms(1-3)
      by (cases e)
        (auto simp: connection_ok_def handle_handshake_def tls_handle_write_def close_socket_def
          start_operation_def Let_def split: if_splits prod.splits)
  qed
qed

fun tls_inv :: "collector \<Rightarrow> connection \<times> 'db tls_world \<Rightarrow> bool" where
  "tls_inv c0 (cn, (w, m)) \<longleftrightarrow> connection_ok cn \<and> world_ok w \<and> table_ok m \<and>
     counts_sent c0 (w_collector w) (cn_out cn)"

lemma tls_react_inv:
  assumes "tls_inv c0 s" and "enabled s e" and "tls_react libs net s e = Inr (Some s')"
  shows "tls_inv c0 s'"
proof -
  obtain cn w m where s: "s = (cn, (w, m))" by (metis surj_pair)
  obtain cn' w' m' where s': "s' = (cn', (w', m'))" by (metis surj_pair)
  have ok: "connection_ok cn" "world_ok w" "table_ok m" "counts_sent c0 (w_collector w) (cn_out cn)"
    using assms(1) by (simp_all add: s)
  from tls_react_step [OF ok(1-3) assms(2) [unfolded s] assms(3) [unfolded s s']] ok counts_sent_trans [OF ok(4)]
  show ?thesis by (auto simp: s')
qed

interpretation tls: event_machine enabled "tls_react libs net" "tls_inv c0"
  by unfold_locales (rule tls_react_inv)

lemma http_react_step:
  assumes "connection_ok cn" and "collector_ok c" and "enabled (cn, x) e"
    and "http_react hostname (cn, c) e = Inr (Some (cn', c'))"
  shows "connection_ok cn' \<and> collector_ok c' \<and>
    (\<exists>msgs. cn_out cn' = cn_out cn @ msgs \<and> counts_sent c c' msgs)"
proof -
  have alive: "cn_alive cn" and run: "http_callback hostname (complete e cn) c e = Inr (Some (cn', c'))"
    using assms(4) by (auto split: if_splits)
  have none: "cn_pending (complete e cn) = []" by (rule single_completed [OF assms(1,3)])
  have len: "length (cn_data (complete e cn)) = max_length" "length (cn_buffer (complete e cn)) = max_length"
    and fits: "fits e"
    using assms(1,3) by (simp_all add: connection_ok_def enabled_def)
  show ?thesis
  proof (cases "completes e \<in> {Reading, Final_reading}")
    case True
    obtain cn0 where cn0: "cn_pending cn0 = []" "cn_alive cn0" "cn_out cn0 = cn_out cn"
      and prog: "progressed (http_respond hostname) increment_request cn0 c cn' c'"
      using http_callback_reads [OF run len fits True] none alive by auto
    have "connection_ok cn'" by (rule progressed_ok [OF prog cn0(1,2)])
    with prog assms(2) cn0(3) show ?thesis
      by (auto simp: progressed_def answered_def http_respond_def increment_request_ok
          intro: counts_sent_none counts_sent_one)
  next
    case False
    then show ?thesis
      using run none len alive assms(1,2)
      by (cases e)
        (auto simp: connection_ok_def http_handle_write_def start_operation_def Let_def
          split: if_splits prod.splits)
  qed
qed

fun http_inv :: "collector \<Rightarrow> connection \<times> collector \<Rightarrow> bool" where
  "http_inv c0 (cn, c) \<longleftrightarrow> connection_ok cn \<and> collector_ok c \<and> counts_sent c0 c (cn_out cn)"

lemma http_react_inv:
  assumes "http_inv c0 s" and "enabled s e" and "http_react hostname s e = Inr (Some s')"
  shows "http_inv c0 s'"
proof -
  obtain cn c where s: "s = (cn, c)" by force
  obtain cn' c' where s': "s' = (cn', c')" by force
  have ok: "connection_ok cn" "collector_ok c" "counts_sent c0 c (cn_out cn)"
    using assms(1) by (simp_all add: s)
  from http_react_step [OF ok(1,2) assms(2) [unfolded s] assms(3) [unfolded s s']] ok counts_sent_trans [OF ok(3)]
  show ?thesis by (auto simp: s')
qed

interpretation http: event_machine enabled "http_react hostname" "http_inv c0"
  by unfold_locales (rule http_react_inv)

end
