(* ===== verification/Session_Runs.thy ===== *)
theory Session_Runs
  imports Sessions
begin

text \<open>
  Runs of the two session machines.  The contract of a connection is the abstract server
  \<open>serve_all\<close>: requests are answered one after the other, each answer counted; the locale
  \<open>session_loop\<close> states what a session class needs for its callbacks to implement it, and both
  classes are instances.  The rest of the theory holds the properties of the sessions.
\<close>

section \<open>The contract\<close>

text \<open>A responder whose answers are counted.\<close>

definition counted :: "'w responder \<Rightarrow> 'w recorder \<Rightarrow> 'w responder" where
  "counted respond record_it w r =
     and_then (respond w r) (\<lambda>(rsp, w). Inr (rsp, record_it (req_uri r) (rsp_code rsp) w))"

text \<open>
  An exchange: the text of a header section and the body that comes with it in the same read.  The
  request is the one the text denotes, with the entry that reading its content length leaves.
\<close>

type_synonym exchange = "request_text \<times> string"

fun message :: "exchange \<Rightarrow> string" where
  "message (t, body) = render_text t @ body"

fun request_of :: "exchange \<Rightarrow> request" where
  "request_of (t, body) = (denote t)\<lparr>req_headers :=
     smap_touch [] content_length_key (req_headers (denote t)), req_body := body\<rparr>"

definition announces :: "request_text \<Rightarrow> string \<Rightarrow> bool" where
  "announces t body = (case get_content_length (denote t) of
     Inl e \<Rightarrow> False | Inr (n, r) \<Rightarrow> n = int (length body))"

text \<open>
  The message fits into the array with a NUL after it, the announced length is that of the body, and
  the number of characters parsed before is not, by accident, the length of the body.
\<close>

fun exchange_ok :: "int \<Rightarrow> exchange \<Rightarrow> bool" where
  "exchange_ok n (t, body) \<longleftrightarrow> wf_text t \<and> NUL \<notin> set body \<and> length (message (t, body)) < max_length \<and>
     announces t body \<and> (body = [] \<or> n \<noteq> int (length body)) \<and> \<not> fst (wants_close (request_of (t, body)))"

fun exchanges_ok :: "int \<Rightarrow> exchange list \<Rightarrow> bool" where
  "exchanges_ok n [] \<longleftrightarrow> True"
| "exchanges_ok n (x # xs) \<longleftrightarrow> n < 2 ^ 30 \<and> exchange_ok n x \<and>
     exchanges_ok (n + int (length (render_text (fst x)))) xs"

definition exchange_events :: "exchange \<Rightarrow> event list" where
  "exchange_events x = [Read_done True False (message x) [], Write_done True False]"

text \<open>A session that waits for the next request.\<close>

definition awaiting :: "int \<Rightarrow> connection \<Rightarrow> bool" where
  "awaiting n cn \<longleftrightarrow> ready (cn_parser cn) \<and> n_char_parsed (cn_parser cn) = n \<and> 0 \<le> n \<and>
     cn_data cn = zeros \<and> cn_pending cn = [Reading] \<and> cn_alive cn"

locale session_loop = request_handler respond inv
  for respond :: "'w handle" and inv :: "'w \<Rightarrow> bool" +
  fixes record_it :: "'w recorder" and react :: "(connection \<times> 'w, event) machine"
  assumes record_inv: "inv w \<Longrightarrow> inv (record_it u code w)"
    and react_read: "cn_alive cn \<Longrightarrow> react (cn, w) (Read_done True False chunk []) =
      handle_read respond record_it
        ((complete (Read_done True False chunk []) cn)\<lparr>cn_data := receive (cn_data cn) chunk\<rparr>)
        False (length chunk) [] w"
    and react_write: "cn_alive cn \<Longrightarrow> wants_close (cn_request cn) = (False, r) \<Longrightarrow>
      react (cn, w) (Write_done True False) =
      Inr (Some (start_operation Reading ((complete (Write_done True False) cn)\<lparr>cn_request := r\<rparr>), w))"
    and react_final: "cn_alive cn \<Longrightarrow> react (cn, w) (Final_done True False chunk) =
      and_then (handle_final_read respond record_it
        ((complete (Final_done True False chunk) cn)\<lparr>cn_buffer := receive (cn_buffer cn) chunk\<rparr>) w) (\<lambda>s. Inr (Some s))"

lemma receive_zeros:
  assumes "length chunk < max_length"
  shows "receive zeros chunk = chunk @ NUL # replicate (max_length - length chunk - 1) NUL"
  using assms by (simp add: receive_def zeros_def flip: replicate_Suc)

lemma receive_behind:
  assumes "length chunk < length mem" and "mem ! length chunk = NUL"
  shows "receive mem chunk = chunk @ NUL # drop (Suc (length chunk)) mem"
  using Cons_nth_drop_Suc [OF assms(1)] assms(2) by (simp add: receive_def)

text \<open>
  A session that waits for the next request and whose array, whatever it holds, has a NUL behind the
  first \<open>k\<close> characters.  The arrays of a new session are not initialised.
\<close>

definition waits_for :: "int \<Rightarrow> nat \<Rightarrow> connection \<Rightarrow> bool" where
  "waits_for n k cn \<longleftrightarrow> ready (cn_parser cn) \<and> n_char_parsed (cn_parser cn) = n \<and> 0 \<le> n \<and>
     length (cn_data cn) = max_length \<and> (k < max_length \<longrightarrow> cn_data cn ! k = NUL) \<and>
     cn_pending cn = [Reading] \<and> cn_alive cn"

lemma awaiting_waits: "awaiting n cn \<Longrightarrow> waits_for n k cn"
  by (simp add: awaiting_def waits_for_def zeros_def)

lemma announces_length:
  "announces t body \<Longrightarrow> get_content_length (denote t) = Inr (int (length body),
     (denote t)\<lparr>req_headers := smap_touch [] content_length_key (req_headers (denote t))\<rparr>)"
  by (auto simp: announces_def split: sum.splits dest: get_content_length_frame)

lemma parse_exchange:
  assumes "ready p" and "0 \<le> n_char_parsed p" "n_char_parsed p < 2 ^ 30"
    and "exchange_ok (n_char_parsed p) (t, body)"
    and "length mem = max_length" and "mem ! length (message (t, body)) = NUL"
  shows "parse_data p empty_request (receive mem (message (t, body))) (length (message (t, body))) =
    Inr (good, parsed p t, request_of (t, body))"
proof -
  have "receive mem (message (t, body)) = message (t, body) @ NUL # drop (Suc (length (message (t, body)))) mem"
    using assms(4-6) by (intro receive_behind) simp_all
  then show ?thesis
    using assms(1-4) parse_data_text [OF assms(1) _ _ _ assms(2,3) announces_length, of t body body]
    by (auto simp: max_length_def)
qed

lemma touched_header: "smap_ok m \<Longrightarrow> smap_touch d k (smap_touch d k m) = smap_touch d k m"
  by (rule smap_touch_present [where v = "or_default d (smap_find m k)"]) simp_all

text \<open>The header section alone, when a body is announced: the session reads again.\<close>

definition announced :: "request_text \<Rightarrow> request" where
  "announced t = (denote t)\<lparr>req_headers := smap_touch [] content_length_key (req_headers (denote t))\<rparr>"

lemma announced_length:
  assumes "wf_text t" and "announces t body"
  shows "get_content_length (announced t) = Inr (int (length body), announced t)"
proof -
  have ok: "smap_ok (req_headers (denote t))"
    using clean_denote [OF assms(1)] by (simp add: clean_request_def)
  have "get_content_length (denote t) = Inr (int (length body), announced t)"
    using announces_length [OF assms(2)] by (simp add: announced_def)
  then show ?thesis
    by (simp add: get_content_length_def announced_def touched_header [OF ok] Let_def and_then_Inr_iff)
qed

lemma parse_header_section:
  assumes "ready p" and "n_char_parsed p = 0" and "wf_text t" and "announces t body" and "body \<noteq> []"
    and "length (render_text t) < max_length"
  shows "parse_data p empty_request (receive zeros (render_text t)) (length (render_text t)) =
    Inr (missing_data, parsed p t, announced t)"
  using parse_data_text [OF assms(1,3) _ _ _ _ announces_length [OF assms(4)], of "[]"] assms(2,5,6)
  by (simp add: receive_zeros max_length_def announced_def)

context session_loop
begin

lemma read_exchange:
  assumes "waits_for n (length (message (t, body))) cn" and "n < 2 ^ 30" and "exchange_ok n (t, body)" and "inv w"
    and "respond w (request_of (t, body)) = Inr (rsp, w1)"
  shows "react (cn, w) (Read_done True False (message (t, body)) []) =
    Inr (Some (cn\<lparr>cn_parser := reset (parsed (cn_parser cn) t), cn_response := rsp,
      cn_request := request_of (t, body), cn_data := zeros, cn_pending := [Writing],
      cn_out := cn_out cn @ [wire rsp]\<rparr>,
      record_it (rt_uri t) (rsp_code rsp) w1))"
proof -
  have headers: "smap_ok (rsp_headers rsp)" by (rule handle_headers [OF assms(4,5)])
  have p: "ready (cn_parser cn)" "n_char_parsed (cn_parser cn) = n" "0 \<le> n"
    and data: "length (cn_data cn) = max_length" "cn_data cn ! length (message (t, body)) = NUL"
    and pending: "cn_pending cn = [Reading]" and alive: "cn_alive cn"
    using assms(1,3) by (simp_all add: waits_for_def)
  have u: "req_uri (request_of (t, body)) = rt_uri t" by (simp add: denote_def)
  have "parse_data (cn_parser cn) empty_request (receive (cn_data cn) (message (t, body))) (length (message (t, body))) =
      Inr (good, parsed (cn_parser cn) t, request_of (t, body))"
    by (rule parse_exchange [OF p(1) _ _ _ data]) (use p assms(2,3) in simp_all)
  then show ?thesis
    using assms(5)
    by (simp add: react_read [OF alive] handle_read_def pending complete_def after_parsing_def
        answer_def deep_copy_response_def start_write_def generator_copy [OF headers] wire_def u
        del: message.simps request_of.simps)
qed

lemma exchange_run:
  assumes "waits_for n (length (message x)) cn" and "n < 2 ^ 30" and "exchange_ok n x" and "inv w"
    and "counted respond record_it w (request_of x) = Inr (rsp, w')"
  shows "\<exists>cn'. reaches enabled react (cn, w) (exchange_events x) (cn', w') \<and> inv w' \<and>
    awaiting (n + int (length (render_text (fst x)))) cn' \<and> cn_out cn' = cn_out cn @ [wire rsp]"
proof -
  obtain t body where x: "x = (t, body)" by force
  have u: "req_uri (request_of (t, body)) = rt_uri t" by (simp add: denote_def)
  obtain w1 where rsp: "respond w (request_of (t, body)) = Inr (rsp, w1)"
    and w': "w' = record_it (rt_uri t) (rsp_code rsp) w1"
    using assms(5) u by (auto simp: x counted_def and_then_Inr_iff)
  obtain r where keep: "wants_close (request_of (t, body)) = (False, r)"
    using assms(3) by (cases "wants_close (request_of (t, body))") (simp add: x)
  define cn1 where "cn1 = cn\<lparr>cn_parser := reset (parsed (cn_parser cn) t), cn_response := rsp,
      cn_request := request_of (t, body), cn_data := zeros, cn_pending := [Writing],
      cn_out := cn_out cn @ [wire rsp]\<rparr>"
  define cn2 where "cn2 = cn1\<lparr>cn_request := r, cn_pending := [Reading]\<rparr>"
  have p: "ready (cn_parser cn)" "n_char_parsed (cn_parser cn) = n" "0 \<le> n"
    and pending: "cn_pending cn = [Reading]" and alive: "cn_alive cn"
    using assms(1) by (simp_all add: waits_for_def)
  have read: "react (cn, w) (Read_done True False (message x) []) = Inr (Some (cn1, w'))"
    using read_exchange [OF assms(1) [unfolded x] assms(2) assms(3) [unfolded x] assms(4) rsp] by (simp add: x cn1_def w')
  have "react (cn1, w') (Write_done True False) =
      Inr (Some (start_operation Reading ((complete (Write_done True False) cn1)\<lparr>cn_request := r\<rparr>), w'))"
    using keep alive by (intro react_write) (simp_all add: cn1_def)
  also have "start_operation Reading ((complete (Write_done True False) cn1)\<lparr>cn_request := r\<rparr>) = cn2"
    by (simp add: start_operation_def complete_def cn1_def cn2_def)
  finally have answered: "react (cn1, w') (Write_done True False) = Inr (Some (cn2, w'))" .
  have "reaches enabled react (cn, w) [Read_done True False (message x) []] (cn1, w')"
    by (rule reaches_one [where react = react, OF _ read])
      (use assms(3) pending in \<open>simp add: x enabled_def del: message.simps\<close>)
  from reaches.step [where react = react, OF this _ answered]
  have "reaches enabled react (cn, w) (exchange_events x) (cn2, w')"
    by (simp add: enabled_def exchange_events_def cn1_def)
  moreover have "awaiting (n + int (length (render_text (fst x)))) cn2"
    using p alive by (simp add: awaiting_def cn2_def cn1_def x) (simp add: reset_def parsed_def)
  moreover have "inv w'" using handle_inv [OF assms(4) rsp] by (simp add: w' record_inv)
  moreover have "cn_out cn2 = cn_out cn @ [wire rsp]" by (simp add: cn2_def cn1_def)
  ultimately show ?thesis by blast
qed

lemma exchanges_run:
  "awaiting n cn \<Longrightarrow> exchanges_ok n xs \<Longrightarrow> inv w \<Longrightarrow>
   serve_all (counted respond record_it) w (map request_of xs) = Inr (rsps, w') \<Longrightarrow>
   \<exists>cn'. reaches enabled react (cn, w) (concat (map exchange_events xs)) (cn', w') \<and>
     awaiting (n + int (sum_list (map (length \<circ> render_text \<circ> fst) xs))) cn' \<and>
     cn_out cn' = cn_out cn @ map wire rsps"
proof (induction xs arbitrary: n cn w rsps)
  case Nil
  then show ?case by (auto intro: reaches.start)
next
  case (Cons x xs)
  obtain rsp w1 rest where step: "counted respond record_it w (request_of x) = Inr (rsp, w1)"
    "serve_all (counted respond record_it) w1 (map request_of xs) = Inr (rest, w')" "rsps = rsp # rest"
    using Cons.prems(4) by (auto simp: and_then_Inr_iff)
  have ok: "n < 2 ^ 30" "exchange_ok n x"
    "exchanges_ok (n + int (length (render_text (fst x)))) xs" using Cons.prems(2) by simp_all
  obtain cn1 where run: "reaches enabled react (cn, w) (exchange_events x) (cn1, w1)" "inv w1"
    "awaiting (n + int (length (render_text (fst x)))) cn1" "cn_out cn1 = cn_out cn @ [wire rsp]"
    using exchange_run [OF awaiting_waits [OF Cons.prems(1)] ok(1,2) Cons.prems(3) step(1)] by blast
  from Cons.IH [OF run(3) ok(3) run(2) step(2)] reaches_append [OF _ run(1)] run(4) step(3)
  show ?case by (auto simp: algebra_simps)
qed

text \<open>The same from the start of a connection, when the array holds a NUL behind the first message.\<close>

lemma exchanges_run_first:
  assumes "waits_for n (length (message x)) cn" and "exchanges_ok n (x # xs)" and "inv w"
    and "serve_all (counted respond record_it) w (map request_of (x # xs)) = Inr (rsps, w')"
  shows "\<exists>cn'. reaches enabled react (cn, w) (concat (map exchange_events (x # xs))) (cn', w') \<and>
     cn_pending cn' = [Reading] \<and> cn_alive cn' \<and> cn_out cn' = cn_out cn @ map wire rsps"
proof -
  obtain rsp w1 rest where step: "counted respond record_it w (request_of x) = Inr (rsp, w1)"
    "serve_all (counted respond record_it) w1 (map request_of xs) = Inr (rest, w')" "rsps = rsp # rest"
    using assms(4) by (auto simp: and_then_Inr_iff)
  have ok: "n < 2 ^ 30" "exchange_ok n x"
    "exchanges_ok (n + int (length (render_text (fst x)))) xs" using assms(2) by simp_all
  obtain cn1 where run: "reaches enabled react (cn, w) (exchange_events x) (cn1, w1)" "inv w1"
    "awaiting (n + int (length (render_text (fst x)))) cn1" "cn_out cn1 = cn_out cn @ [wire rsp]"
    using exchange_run [OF assms(1) ok(1,2) assms(3) step(1)] by blast
  from exchanges_run [OF run(3) ok(3) run(2) step(2)] reaches_append [OF _ run(1)] run(4) step(3)
  show ?thesis by (auto simp: awaiting_def)
qed

text \<open>
  A body in a read of its own: what the handler gets is the body and, behind it, what the array held
  before, up to its first NUL.
\<close>

lemma split_body:
  assumes "awaiting 0 cn" and "wf_text t" and "length (render_text t) < max_length"
    and "announces t body" and "body \<noteq> []" and "NUL \<notin> set body"
    and "c_string (drop (length body) (cn_buffer cn)) = Inr junk" and "inv w"
    and "respond w (request_of (t, body @ junk)) = Inr (rsp, w1)"
  shows "\<exists>cn1 cn2. react (cn, w) (Read_done True False (render_text t) []) = Inr (Some (cn1, w)) \<and>
    cn_pending cn1 = [Final_reading] \<and> cn_out cn1 = cn_out cn \<and>
    react (cn1, w) (Final_done True False body) = Inr (Some (cn2, record_it (rt_uri t) (rsp_code rsp) w1)) \<and>
    cn_pending cn2 = [Writing] \<and> cn_out cn2 = cn_out cn @ [wire rsp]"
proof -
  have headers: "smap_ok (rsp_headers rsp)" by (rule handle_headers [OF assms(8,9)])
  have p: "ready (cn_parser cn)" "n_char_parsed (cn_parser cn) = 0"
    and data: "cn_data cn = zeros" and pending: "cn_pending cn = [Reading]" and alive: "cn_alive cn"
    using assms(1) by (simp_all add: awaiting_def)
  define cn1 where "cn1 = cn\<lparr>cn_parser := reset (parsed (cn_parser cn) t), cn_request := announced t,
      cn_data := receive zeros (render_text t), cn_pending := [Final_reading]\<rparr>"
  have "react (cn, w) (Read_done True False (render_text t) []) = Inr (Some (cn1, w))"
    by (simp add: react_read [OF alive] handle_read_def data pending complete_def after_parsing_def
        parse_header_section [OF p assms(2,4,5,3)] announced_length [OF assms(2,4)] cn1_def)
  moreover have "c_string (receive (cn_buffer cn) body) = Inr (body @ junk)"
    using assms(6,7) by (auto simp: c_string_def receive_def takeWhile_append split: if_splits)
  moreover have "(announced t)\<lparr>req_body := body @ junk\<rparr> = request_of (t, body @ junk)"
    by (simp add: announced_def)
  moreover have "req_uri (announced t) = rt_uri t" by (simp add: announced_def denote_def)
  ultimately show ?thesis
    using assms(9) alive
    by (simp add: cn1_def react_final handle_final_read_def complete_def answer_def deep_copy_response_def
        start_write_def generator_copy [OF headers] wire_def del: request_of.simps)
qed

end

section \<open>Both sessions implement it\<close>

lemma tls_respond_table:
  assumes "tls_respond libs net wm r = Inr (rsp, wm')" and "tls_world_ok wm"
  shows "tls_world_ok wm'" and "smap_ok (rsp_headers rsp)"
proof -
  obtain w m where wm: "wm = (w, m)" by force
  obtain w' m' where wm': "wm' = (w', m')" by force
  note keeps = tls_respond_keeps [OF assms(1) [unfolded wm wm']]
  show "tls_world_ok wm'" "smap_ok (rsp_headers rsp)"
    using assms(2) keeps by (simp_all add: wm wm')
qed

interpretation tls_loop: session_loop "tls_respond libs net" tls_world_ok tls_record "tls_react libs net"
proof unfold_locales
  fix w w' :: "'b tls_world" and r rsp
  assume "tls_world_ok w" "tls_respond libs net w r = Inr (rsp, w')"
  then show "tls_world_ok w'" "smap_ok (rsp_headers rsp)" by (auto intro: tls_respond_table)
next
  fix w :: "'b tls_world" and u code
  show "tls_world_ok w \<Longrightarrow> tls_world_ok (tls_record u code w)"
    by (cases w) (simp add: world_ok_def increment_request_ok)
qed (simp_all add: tls_handle_read_def tls_handle_write_def tls_handle_final_read_def complete_def)

interpretation http_loop: session_loop "http_respond hostname" collector_ok increment_request "http_react hostname"
  by unfold_locales
    (auto simp: http_respond_def http_handle_request_def Let_def increment_request_ok
      http_handle_read_def http_handle_write_def http_handle_final_read_def complete_def)

section \<open>Examples\<close>

definition get_text :: "string \<Rightarrow> request_text" where
  "get_text u = \<lparr>rt_method = ''GET'', rt_uri = u, rt_major = ''1'', rt_minor = ''1'', rt_lines = []\<rparr>"

definition example_exchanges :: "exchange list" where
  "example_exchanges = [(get_text ''/health'', []), (example_post, ''abc'')]"

definition session_table :: handler_map where
  "session_table = [(''/'', Some NotFoundHandler), (''/health/'', Some HealthHandler)]"

definition waiting :: connection where
  "waiting = (new_connection zeros zeros)\<lparr>cn_pending := [Reading]\<rparr>"

lemma waiting_awaits [simp]: "awaiting 0 waiting" "cn_out waiting = []"
  by (simp_all add: awaiting_def waiting_def new_connection_def new_parser_def ready_def)

lemma example_exchanges_ok [simp]: "exchanges_ok 0 example_exchanges"
proof -
  have "length (render_text (get_text ''/health'')) = 24" by code_simp
  moreover have "exchange_ok 0 (get_text ''/health'', [])" "exchange_ok 24 (example_post, ''abc'')"
    by code_simp+
  ultimately show ?thesis by (simp add: example_exchanges_def del: exchange_ok.simps)
qed

lemma session_table_ok [simp]: "table_ok session_table"
  by code_simp

lemma accounts_world_ok [simp]: "world_ok accounts_world"
  by (simp add: world_ok_def accounts_world_def)

section \<open>Properties\<close>







text \<open>
  C19: In every state a TLS session can reach, whatever the peer sends and whichever operations fail:
  at most one asynchronous operation is pending, so no two callbacks of a session run at once; the
  two arrays keep their size; while a write is pending, the response its buffers point into is
  unchanged; and the collector has counted exactly the messages handed to the client, each with the
  status it starts with.
\<close>

theorem tls_session_invariant:
  assumes "length data = max_length" and "length buffer = max_length" and "world_ok w" and "table_ok m"
    and "reaches enabled (tls_react libs net) (tls_start (new_connection data buffer), (w, m)) es (cn, (w', m'))"
  shows "length (cn_pending cn) \<le> 1 \<and> length (cn_data cn) = max_length \<and> length (cn_buffer cn) = max_length \<and>
    (cn_pending cn = [Writing] \<longrightarrow> cn_out cn \<noteq> [] \<and> last (cn_out cn) = concat (to_buffers (cn_response cn))) \<and>
    (\<exists>es. w_collector w' = record_all es (w_collector w) \<and>
      list_all2 (\<lambda>e msg. prefix (status_buffer (snd e)) msg) es (cn_out cn))"
proof -
  have "tls_inv (w_collector w) (tls_start (new_connection data buffer), (w, m))"
    using assms(1-4)
    by (simp add: connection_ok_def tls_start_def start_operation_def new_connection_def counts_sent_def
        exI [of _ "[]"])
  from tls.reaches_inv [OF assms(5) this]
  show ?thesis by (auto simp: connection_ok_def counts_sent_def message_of_def)
qed

theorem tls_session_invariant_witness:
  "\<exists>cn wm. reaches enabled (tls_react example_libs example_network)
     (tls_start (new_connection zeros zeros), (accounts_world, session_table)) [Handshake_done False] (cn, wm) \<and>
     length (cn_pending cn) \<le> 1 \<and>
     (\<exists>es. w_collector (fst wm) = record_all es (w_collector accounts_world) \<and>
       list_all2 (\<lambda>e msg. prefix (status_buffer (snd e)) msg) es (cn_out cn))"
proof -
  define cn where "cn = (new_connection zeros zeros)\<lparr>cn_pending := [Reading]\<rparr>"
  have run: "reaches enabled (tls_react example_libs example_network)
      (tls_start (new_connection zeros zeros), (accounts_world, session_table)) [Handshake_done False]
      (cn, (accounts_world, session_table))"
    by (rule reaches_one)
      (simp_all add: enabled_def tls_start_def start_operation_def new_connection_def handle_handshake_def
        complete_def cn_def)
  from tls_session_invariant [OF length_zeros length_zeros accounts_world_ok session_table_ok run] run
  show ?thesis by (intro exI [of _ cn] exI [of _ "(accounts_world, session_table)"]) simp
qed

text \<open>
  The same for the plain session, which needs no handshake: one operation at a time, an answer
  that stays as it is while it is written, and a collector that counts what was sent.
\<close>

theorem http_session_invariant:
  assumes "length data = max_length" and "length buffer = max_length" and "collector_ok c"
    and "reaches enabled (http_react hostname) (http_start (new_connection data buffer), c) es (cn, c')"
  shows "length (cn_pending cn) \<le> 1 \<and> length (cn_data cn) = max_length \<and> length (cn_buffer cn) = max_length \<and>
    (cn_pending cn = [Writing] \<longrightarrow> cn_out cn \<noteq> [] \<and> last (cn_out cn) = concat (to_buffers (cn_response cn))) \<and>
    (\<exists>es. c' = record_all es c \<and> list_all2 (\<lambda>e msg. prefix (status_buffer (snd e)) msg) es (cn_out cn))"
proof -
  have "http_inv c (http_start (new_connection data buffer), c)"
    using assms(1-3)
    by (simp add: connection_ok_def http_start_def start_operation_def new_connection_def counts_sent_def
        exI [of _ "[]"])
  from http.reaches_inv [OF assms(4) this]
  show ?thesis by (auto simp: connection_ok_def counts_sent_def message_of_def)
qed

theorem http_session_invariant_witness:
  "\<exists>es cn c'. reaches enabled (http_react ''foxy.net'') (http_start (new_connection zeros zeros), new_collector)
     (concat (map exchange_events example_exchanges)) (cn, c') \<and> length (cn_out cn) = 2 \<and>
     c' = record_all es new_collector \<and> list_all2 (\<lambda>e msg. prefix (status_buffer (snd e)) msg) es (cn_out cn)"
proof -
  have start: "http_start (new_connection zeros zeros) = waiting"
    by (simp add: http_start_def start_operation_def waiting_def new_connection_def)
  let ?serve = "counted (http_respond ''foxy.net'') increment_request"
  obtain rsps c1 where "serve_all ?serve new_collector (map request_of example_exchanges) = Inr (rsps, c1)"
    and len: "length rsps = 2"
    by (auto simp: example_exchanges_def counted_def http_respond_def)
  from http_loop.exchanges_run [OF waiting_awaits(1) example_exchanges_ok new_collector_ok this(1)]
  obtain cn where run: "reaches enabled (http_react ''foxy.net'') (waiting, new_collector)
      (concat (map exchange_events example_exchanges)) (cn, c1)" and out: "cn_out cn = map wire rsps"
    by auto
  from http_session_invariant [OF length_zeros length_zeros new_collector_ok, of "''foxy.net''", unfolded start, OF run]
  obtain es where "c1 = record_all es new_collector"
    "list_all2 (\<lambda>e msg. prefix (status_buffer (snd e)) msg) es (cn_out cn)" by auto
  with run out len show ?thesis unfolding start by (intro exI conjI) auto
qed


text \<open>
  C18: A redirect cannot be split: for every request the parser accepts, the bytes of the plain
  session's answer are read by the client as exactly that one response, and when the URI starts with
  a slash its location is the HTTPS address of the same path.
\<close>

theorem redirect_not_split:
  assumes "ready p" and "parse p empty_request xs = ((good, rest), p', r)" and "list_all text_char hostname"
  shows "read_response (wire (http_handle_request hostname r)) = Some (http_handle_request hostname r) \<and>
    (req_uri r \<noteq> [] \<and> hd (req_uri r) = SLASH \<longrightarrow>
      smap_find (rsp_headers (http_handle_request hostname r)) ''Location'' = Some (''https://'' @ hostname @ req_uri r))"
proof -
  obtain t where "wf_text t" "r = denote t" using assms(1,2) by (auto simp: parse_good_iff)
  then have "list_all text_char (req_uri r)" using clean_denote by (auto simp: clean_request_def uri_text)
  then have clean: "CR \<notin> set (''https://'' @ hostname @ req_uri r)"
    using assms(3) list_all_notin [of text_char _ CR] by simp
  have no_cr: "CR \<notin> set (to_string n)" for n
    using list_all_notin [OF to_string_digits, of CR] by simp
  have "sendable (http_handle_request hostname r)"
  proof (cases "req_uri r = [] \<or> hd (req_uri r) \<noteq> SLASH")
    case True
    have "sendable (stock_response bad_request)" by code_simp
    with True show ?thesis by (simp add: http_handle_request_def)
  next
    case False
    have "smap_ok (rsp_headers (http_handle_request hostname r))"
      by (rule http_loop.handle_headers [OF new_collector_ok]) (simp add: http_respond_def)
    moreover have "list_all (\<lambda>(k, v). k \<noteq> [] \<and> CHR '':'' \<notin> set k \<and> CR \<notin> set k \<and> CR \<notin> set v)
        (rsp_headers (http_handle_request hostname r))"
      using False clean no_cr [of 0] by (simp add: http_handle_request_def set_header_def smap_put_def Let_def)
    moreover have "rsp_code (http_handle_request hostname r) \<in> set known_codes"
      using False by (simp add: http_handle_request_def known_codes_def Let_def)
    ultimately show ?thesis by (simp only: sendable_def)
  qed
  then show ?thesis by (auto simp: message.decode_encode http_handle_request_def Let_def)
qed

theorem redirect_not_split_witness:
  "read_response (wire (http_handle_request ''foxy.net'' (denote example_post))) =
     Some (http_handle_request ''foxy.net'' (denote example_post))"
proof -
  have "parse new_parser empty_request (render_text example_post @ []) =
      ((good, []), parsed new_parser example_post, denote example_post)"
    by (rule parse_text) simp_all
  moreover have "list_all text_char ''foxy.net''" by code_simp
  ultimately show ?thesis using redirect_not_split [OF ready_new] by blast
qed

text \<open>
  C38: When a write fails, the TLS session starts the shutdown and deletes itself at once; the
  completion of that shutdown then runs on the deleted session.
\<close>

theorem tls_write_error_dangles:
  assumes "cn_alive cn" and "cn_pending cn = [Writing]"
  shows "\<exists>s. reaches enabled (tls_react libs net) (cn, w) [Write_done True True] s \<and>
    enabled s Shutdown_done \<and> tls_react libs net s Shutdown_done = Inl Undefined"
proof -
  let ?cn = "(close_socket (complete (Write_done True True) cn))\<lparr>cn_alive := False\<rparr>"
  have "reaches enabled (tls_react libs net) (cn, w) [Write_done True True] (?cn, w)"
    by (rule reaches_one) (use assms in \<open>simp_all add: enabled_def tls_handle_write_def\<close>)
  then show ?thesis
    by (intro exI [of _ "(?cn, w)"])
      (use assms in \<open>simp add: enabled_def close_socket_def start_operation_def complete_def\<close>)
qed

theorem tls_write_error_dangles_witness:
  "\<exists>s. reaches enabled (tls_react example_libs example_network)
      (waiting\<lparr>cn_pending := [Writing]\<rparr>, (accounts_world, session_table)) [Write_done True True] s \<and>
    tls_react example_libs example_network s Shutdown_done = Inl Undefined"
proof -
  have "cn_alive (waiting\<lparr>cn_pending := [Writing]\<rparr>)" "cn_pending (waiting\<lparr>cn_pending := [Writing]\<rparr>) = [Writing]"
    by (simp_all add: waiting_def new_connection_def)
  from tls_write_error_dangles [OF this, of example_libs example_network "(accounts_world, session_table)"]
  show ?thesis by (elim exE conjE) (intro exI conjI)
qed



text \<open>
  A request that arrives in two reads of different length is not answered: the loop hands the
  parser as many bytes of the second read as the first one brought, then resets it; the session
  blocks in the next read although the whole request is there.  In one read the same bytes are
  answered.
\<close>

theorem fragmented_request_blocks:
  "(\<exists>cn c. http_react ''foxy.net'' (waiting, new_collector)
       (Read_done True False (message (get_text ''/health'', [])) []) = Inr (Some (cn, c)) \<and>
     cn_out cn = [wire (http_handle_request ''foxy.net'' (request_of (get_text ''/health'', [])))]) \<and>
   http_react ''foxy.net'' (waiting, new_collector)
     (Read_done True False (take 10 (message (get_text ''/health'', [])))
       [(drop 10 (message (get_text ''/health'', [])), False)]) = Inr None"
proof
  have fits: "exchange_ok 0 (get_text ''/health'', [])" by code_simp
  have "http_respond ''foxy.net'' new_collector (request_of (get_text ''/health'', [])) =
      Inr (http_handle_request ''foxy.net'' (request_of (get_text ''/health'', [])), new_collector)"
    by (simp add: http_respond_def)
  note http_loop.read_exchange [OF awaiting_waits [OF waiting_awaits(1)] _ fits new_collector_ok this]
  then obtain cn c where "http_react ''foxy.net'' (waiting, new_collector)
       (Read_done True False (message (get_text ''/health'', [])) []) = Inr (Some (cn, c))"
    and "cn_out cn = [wire (http_handle_request ''foxy.net'' (request_of (get_text ''/health'', [])))]"
    by (simp del: message.simps request_of.simps http_react.simps)
  then show "\<exists>cn c. http_react ''foxy.net'' (waiting, new_collector)
       (Read_done True False (message (get_text ''/health'', [])) []) = Inr (Some (cn, c)) \<and>
     cn_out cn = [wire (http_handle_request ''foxy.net'' (request_of (get_text ''/health'', [])))]"
    by (intro exI conjI)
  show "http_react ''foxy.net'' (waiting, new_collector)
     (Read_done True False (take 10 (message (get_text ''/health'', [])))
       [(drop 10 (message (get_text ''/health'', [])), False)]) = Inr None"
    by code_simp
qed

end
