(* ===== verification/Servers.thy ===== *)
theory Servers
  imports Session_Runs
begin

text \<open>
  The accept loops (\<open>src/server.cc\<close>, \<open>src/http_server.cc\<close>) and the whole running program: several
  servers, each with the session it is accepting, and the started sessions, whose callbacks share the
  data collector, the files and the database.  A callback is one step; the order of the steps is
  arbitrary, as it is with several threads in \<open>io_service.run()\<close>.
\<close>

section \<open>Sessions of either kind\<close>

text \<open>What a server makes sessions of: its copy of the handler table, or the host name.\<close>

datatype server_kind = Tls handler_map | Plain string

datatype session = Session connection server_kind

fun session_connection :: "session \<Rightarrow> connection" where
  "session_connection (Session cn kind) = cn"

fun session_kind :: "session \<Rightarrow> server_kind" where
  "session_kind (Session cn kind) = kind"

fun session_start :: "session \<Rightarrow> session" where
  "session_start (Session cn (Tls m)) = Session (tls_start cn) (Tls m)"
| "session_start (Session cn (Plain hostname)) = Session (http_start cn) (Plain hostname)"

fun session_react ::
    "('d, 'db) login_libs \<Rightarrow> network \<Rightarrow> session \<times> 'db world \<Rightarrow> event \<Rightarrow> (session \<times> 'db world) option outcome" where
  "session_react libs net (Session cn (Tls m), w) e =
     and_then (tls_react libs net (cn, (w, m)) e) (\<lambda>x. Inr (case x of
       None \<Rightarrow> None | Some (cn, (w, m)) \<Rightarrow> Some (Session cn (Tls m), w)))"
| "session_react libs net (Session cn (Plain hostname), w) e =
     and_then (http_react hostname (cn, w_collector w) e) (\<lambda>x. Inr (case x of
       None \<Rightarrow> None | Some (cn, c) \<Rightarrow> Some (Session cn (Plain hostname), w\<lparr>w_collector := c\<rparr>)))"

section \<open>Servers\<close>

text \<open>The contents of the two arrays of a new session.\<close>

type_synonym arrays = "char list \<times> char list"

record server =
  sv_port :: nat
  sv_kind :: server_kind
  sv_threads :: nat
  sv_accepting :: session

text \<open>The port is an \<open>int\<close>, passed as a \<open>short\<close> and used as an \<open>unsigned short\<close>.\<close>

definition port_number :: "int \<Rightarrow> nat" where
  "port_number port = unat (of_int port :: 16 word)"

definition new_session :: "server_kind \<Rightarrow> arrays \<Rightarrow> session" where
  "new_session kind a = Session (new_connection (fst a) (snd a)) kind"

definition start_accept :: "arrays \<Rightarrow> server \<Rightarrow> server" where
  "start_accept a sv = sv\<lparr>sv_accepting := new_session (sv_kind sv) a\<rparr>"

text \<open>\<open>start_accept\<close> and one thread for each \<open>i\<close> from 0 below \<open>num_threads\<close>, which may be negative.\<close>

definition new_server :: "int \<Rightarrow> server_kind \<Rightarrow> int \<Rightarrow> arrays \<Rightarrow> server" where
  "new_server port kind num_threads a =
     \<lparr>sv_port = port_number port, sv_kind = kind, sv_threads = nat num_threads,
      sv_accepting = new_session kind a\<rparr>"

text \<open>The list is the sessions that the call starts.\<close>

definition handle_accept :: "bool \<Rightarrow> arrays \<Rightarrow> server \<Rightarrow> session list \<times> server" where
  "handle_accept error a sv =
     (if \<not> error then [session_start (sv_accepting sv)] else [], start_accept a sv)"

section \<open>The running program\<close>

record 'db system =
  sys_servers :: "server list"
  sys_sessions :: "session list"
  sys_world :: "'db world"

text \<open>A connection is accepted, an operation of a session completes, or some seconds pass.\<close>

datatype system_event = Accepted nat bool arrays | Completed nat event | Passed nat

fun system_enabled :: "'db system \<Rightarrow> system_event \<Rightarrow> bool" where
  "system_enabled s (Accepted i error a) \<longleftrightarrow>
     i < length (sys_servers s) \<and> length (fst a) = max_length \<and> length (snd a) = max_length"
| "system_enabled s (Completed i e) \<longleftrightarrow>
     i < length (sys_sessions s) \<and> enabled (session_connection (sys_sessions s ! i), ()) e"
| "system_enabled s (Passed n) \<longleftrightarrow> True"

fun system_react :: "('d, 'db) login_libs \<Rightarrow> network \<Rightarrow> ('db system, system_event) machine" where
  "system_react libs net s (Accepted i error a) =
     (case handle_accept error a (sys_servers s ! i) of (started, sv) \<Rightarrow>
        Inr (Some (s\<lparr>sys_servers := (sys_servers s)[i := sv], sys_sessions := sys_sessions s @ started\<rparr>)))"
| "system_react libs net s (Completed i e) =
     and_then (session_react libs net (sys_sessions s ! i, sys_world s) e) (\<lambda>x. Inr (case x of
       None \<Rightarrow> None
     | Some (ses, w) \<Rightarrow> Some (s\<lparr>sys_sessions := (sys_sessions s)[i := ses], sys_world := w\<rparr>)))"
| "system_react libs net s (Passed n) =
     Inr (Some (s\<lparr>sys_world := (sys_world s)\<lparr>w_now := w_now (sys_world s) + int n\<rparr>\<rparr>))"

section \<open>Invariant\<close>

fun kind_ok :: "server_kind \<Rightarrow> bool" where
  "kind_ok (Tls m) \<longleftrightarrow> table_ok m"
| "kind_ok (Plain hostname) \<longleftrightarrow> True"

fun session_ok :: "session \<Rightarrow> bool" where
  "session_ok (Session cn kind) \<longleftrightarrow> connection_ok cn \<and> kind_ok kind"

fun fresh :: "session \<Rightarrow> bool" where
  "fresh (Session cn kind) \<longleftrightarrow> 
     cn = new_connection (cn_data cn) (cn_buffer cn) \<and>
     length (cn_data cn) = max_length \<and> length (cn_buffer cn) = max_length"

lemma fresh_new [simp]: "fresh (new_session kind a) \<longleftrightarrow> length (fst a) = max_length \<and> length (snd a) = max_length"
  by (simp add: new_session_def new_connection_def)

lemma new_session_kind [simp]: "\<exists>cn. new_session kind a = Session cn kind"
  by (simp add: new_session_def)

text \<open>A server always has a fresh session of its kind to accept.\<close>

definition server_ok :: "server \<Rightarrow> bool" where
  "server_ok sv \<longleftrightarrow> kind_ok (sv_kind sv) \<and> fresh (sv_accepting sv) \<and>
     (\<exists>cn. sv_accepting sv = Session cn (sv_kind sv)) \<and> sv_port sv < 2 ^ 16"

definition sent :: "session list \<Rightarrow> string list" where
  "sent ss = concat (map (cn_out \<circ> session_connection) ss)"

text \<open>The collector counts what all sessions sent, in some order.\<close>

definition system_inv :: "collector \<Rightarrow> 'db system \<Rightarrow> bool" where
  "system_inv c0 s \<longleftrightarrow> list_all server_ok (sys_servers s) \<and> list_all session_ok (sys_sessions s) \<and>
     world_ok (sys_world s) \<and>
     (\<exists>out. counts_sent c0 (w_collector (sys_world s)) out \<and> mset out = mset (sent (sys_sessions s)))"

lemma session_react_step:
  assumes "session_react libs net (ses, w) e = Inr (Some (ses', w'))" and "session_ok ses" and "world_ok w"
    and "enabled (session_connection ses, ()) e"
  shows "session_ok ses' \<and> world_ok w' \<and> w_files w' = w_files w \<and> session_kind ses' = session_kind ses \<and>
    (\<exists>msgs. cn_out (session_connection ses') = cn_out (session_connection ses) @ msgs \<and>
      counts_sent (w_collector w) (w_collector w') msgs)"
proof -
  obtain cn kind where ses: "ses = Session cn kind" by (cases ses)
  have cn: "connection_ok cn" "kind_ok kind" "enabled (cn, ()) e" using assms(2,4) by (simp_all add: ses)
  show ?thesis
  proof (cases kind)
    case (Tls m)
    then obtain cn' m' where run: "tls_react libs net (cn, (w, m)) e = Inr (Some (cn', (w', m')))"
      and ses': "ses' = Session cn' (Tls m')"
      using assms(1) by (auto simp: ses and_then_Inr_iff split: option.splits)
    with tls_react_step [OF cn(1) assms(3) _ cn(3) run] cn(2) Tls show ?thesis by (simp add: ses)
  next
    case (Plain hostname)
    then obtain cn' c' where run: "http_react hostname (cn, w_collector w) e = Inr (Some (cn', c'))"
      and ses': "ses' = Session cn' (Plain hostname)" "w' = w\<lparr>w_collector := c'\<rparr>"
      using assms(1) by (auto simp: ses and_then_Inr_iff split: option.splits)
    with http_react_step [OF cn(1) _ cn(3) run] assms(3) show ?thesis by (simp add: ses world_ok_def Plain)
  qed
qed

lemma fresh_started: "fresh ses \<Longrightarrow> kind_ok kind \<Longrightarrow> ses = Session cn kind \<Longrightarrow>
    session_ok (session_start ses) \<and> cn_out (session_connection (session_start ses)) = []"
  by (cases kind; cases cn)
    (simp_all add: tls_start_def http_start_def start_operation_def new_connection_def connection_ok_def)

lemma handle_accept_ok:
  assumes "server_ok sv" and "length (fst a) = max_length" "length (snd a) = max_length"
    and "handle_accept error a sv = (started, sv')"
  shows "server_ok sv' \<and> list_all session_ok started \<and> sent started = [] \<and>
    length started = (if error then 0 else 1)"
proof -
  obtain cn where cn: "sv_accepting sv = Session cn (sv_kind sv)" using assms(1) by (auto simp: server_ok_def)
  from assms(1) have "fresh (sv_accepting sv)" "kind_ok (sv_kind sv)" by (simp_all add: server_ok_def)
  note started = fresh_started [OF this cn]
  show ?thesis
    using assms started
    by (cases error) (auto simp: handle_accept_def start_accept_def server_ok_def sent_def simp del: fresh.simps)
qed

lemma sent_update:
  assumes "i < length ss" and "cn_out (session_connection ses) = cn_out (session_connection (ss ! i)) @ msgs"
  shows "mset (sent (ss[i := ses])) = mset (sent ss) + mset msgs"
proof -
  have old: "sent ss = sent (take i ss) @ cn_out (session_connection (ss ! i)) @ sent (drop (Suc i) ss)"
    using arg_cong [OF id_take_nth_drop [OF assms(1)], of sent] by (simp add: sent_def)
  have new: "sent (ss[i := ses]) = sent (take i ss) @ cn_out (session_connection ses) @ sent (drop (Suc i) ss)"
    using assms(1) by (simp add: upd_conv_take_nth_drop sent_def)
  show ?thesis unfolding old new assms(2) by simp
qed

lemma list_all_update: "list_all P xs \<Longrightarrow> P x \<Longrightarrow> list_all P (xs[i := x])"
  by (auto simp: list_all_iff dest: set_update_subset_insert [THEN subsetD])

lemma system_react_inv:
  assumes "system_inv c0 s" and "system_enabled s e" and "system_react libs net s e = Inr (Some s')"
  shows "system_inv c0 s'"
proof (cases e)
  case (Accepted i error a)
  obtain started sv where acc: "handle_accept error a (sys_servers s ! i) = (started, sv)" by force
  have "server_ok (sys_servers s ! i)" using assms(1,2) by (simp add: system_inv_def Accepted list_all_length)
  from handle_accept_ok [OF this _ _ acc] assms show ?thesis
    by (auto simp: Accepted acc system_inv_def list_all_update sent_def)
next
  case (Completed i e)
  obtain ses w where run: "session_react libs net (sys_sessions s ! i, sys_world s) e = Inr (Some (ses, w))"
    and s': "s' = s\<lparr>sys_sessions := (sys_sessions s)[i := ses], sys_world := w\<rparr>"
    using assms(3) by (auto simp: Completed and_then_Inr_iff split: option.splits)
  have i: "i < length (sys_sessions s)" and en: "enabled (session_connection (sys_sessions s ! i), ()) e"
    using assms(2) by (simp_all add: Completed)
  have "session_ok (sys_sessions s ! i)" "world_ok (sys_world s)"
    using assms(1) i by (simp_all add: system_inv_def list_all_length)
  from session_react_step [OF run this en] obtain msgs where ok: "session_ok ses" "world_ok w"
    and msgs: "cn_out (session_connection ses) = cn_out (session_connection (sys_sessions s ! i)) @ msgs"
    and count: "counts_sent (w_collector (sys_world s)) (w_collector w) msgs" by blast
  obtain out where out: "counts_sent c0 (w_collector (sys_world s)) out" "mset out = mset (sent (sys_sessions s))"
    using assms(1) by (auto simp: system_inv_def)
  have "counts_sent c0 (w_collector w) (out @ msgs)" by (rule counts_sent_trans [OF out(1) count])
  moreover have "mset (out @ msgs) = mset (sent ((sys_sessions s)[i := ses]))"
    using sent_update [OF i msgs] out(2) by simp
  ultimately show ?thesis
    using assms(1) ok by (auto simp: s' system_inv_def list_all_update)
next
  case (Passed n)
  with assms show ?thesis by (auto simp: system_inv_def world_ok_def)
qed

interpretation system: event_machine system_enabled "system_react libs net" "system_inv c0"
  by unfold_locales (rule system_react_inv)

section \<open>Properties\<close>

text \<open>The connections that were accepted without an error.\<close>

fun accept_ok :: "system_event \<Rightarrow> bool" where
  "accept_ok (Accepted i error a) \<longleftrightarrow> \<not> error"
| "accept_ok _ \<longleftrightarrow> False"

definition example_system :: "(string \<Rightarrow> string option) system" where
  "example_system = \<lparr>sys_servers = [new_server 8080 (Plain ''foxy.net'') 4 (zeros, zeros),
     new_server 443 (Tls session_table) 4 (zeros, zeros)], sys_sessions = [], sys_world = accounts_world\<rparr>"

lemma map_list_update_same: "i < length xs \<Longrightarrow> f x = f (xs ! i) \<Longrightarrow> map f (xs[i := x]) = map f xs"
  by (simp add: map_update list_update_same_conv)

lemma reaches_sessions:
  assumes "reaches system_enabled (system_react libs net) s0 es s"
  shows "length (sys_sessions s) = length (sys_sessions s0) + length (filter accept_ok es) \<and>
    map sv_port (sys_servers s) = map sv_port (sys_servers s0) \<and>
    map sv_kind (sys_servers s) = map sv_kind (sys_servers s0)"
  using assms
proof (induction rule: reaches.induct)
  case start
  then show ?case by simp
next
  case (step es s e s')
  then show ?case
    by (cases e)
      (auto simp: handle_accept_def start_accept_def and_then_Inr_iff map_list_update_same
        split: option.splits)
qed



lemma example_system_ok [simp]: "list_all server_ok (sys_servers example_system)"
  by (simp add: example_system_def new_server_def server_ok_def)
    (simp add: new_session_def port_number_def)


end
