(* ===== verification/Main_Program.thy ===== *)
theory Main_Program
  imports Config_Parser Servers
begin

text \<open>
  \<open>main\<close> (\<open>src/server_main.cc\<close>): the settings of the configuration file, the database with its two
  default users, and one server for each \<open>listen\<close> entry.  The operating system is a parameter:
  changing the directory, binding a port, loading the certificates and the contents of
  uninitialised memory.
\<close>

record 'db os =
  os_chdir :: "string \<Rightarrow> 'db world \<Rightarrow> 'db world"
  os_bind :: "nat \<Rightarrow> nat list \<Rightarrow> bool"
  os_certificates :: bool
  os_memory :: "nat \<Rightarrow> arrays"

text \<open>
  How \<open>main\<close> ends: with an exit code; serving, in \<open>io_service.run()\<close>; or handling an exception of a
  server's constructor, in the destructors of the servers created before, which join threads that
  go on serving.
\<close>

datatype 'db main_result = Exit int | Serving "'db system" | Joining "server list"

section \<open>Settings\<close>

record settings =
  st_valid :: bool
  st_ports :: "(int \<times> string) list"
  st_dir :: string
  st_threads :: int
  st_hostname :: string
  st_handlers :: handler_map
  st_collector :: collector

text \<open>Every getter is called, also when parsing has failed.\<close>

definition read_settings :: "string option \<Rightarrow> collector \<Rightarrow> settings outcome" where
  "read_settings conf c =
     and_then (parse_config_file conf []) (\<lambda>(parse_success, config).
     and_then (get_port config []) (\<lambda>(port_found, port_types).
     and_then (get_dir config []) (\<lambda>(dir_found, dir).
     and_then (get_threads config 4) (\<lambda>(threads_found, threads).
     and_then (get_hostname config []) (\<lambda>(hostname_found, hostname).
     and_then (get_map config [] c) (\<lambda>(map_found, m, c).
       Inr \<lparr>st_valid = parse_success \<and> port_found \<and> map_found \<and> dir_found \<and> hostname_found,
         st_ports = port_types, st_dir = dir, st_threads = threads, st_hostname = hostname,
         st_handlers = m, st_collector = c\<rparr>))))))"

section \<open>Servers\<close>

text \<open>The loop over the ports; the boolean says whether every constructor succeeded.\<close>

fun create_servers ::
    "'db os \<Rightarrow> settings \<Rightarrow> (int \<times> string) list \<Rightarrow> server list \<Rightarrow> (bool \<times> server list) outcome" where
  "create_servers os st [] svs = Inr (True, svs)"
| "create_servers os st ((port, kind) # port_types) svs =
     (let memory = os_memory os (length svs); bound = os_bind os (port_number port) (map sv_port svs) in
      if kind = ''https'' then
        (if bound \<and> os_certificates os
         then create_servers os st port_types
           (svs @ [new_server port (Tls (st_handlers st)) (st_threads st) memory])
         else Inr (False, svs))
      else if kind = ''http'' then
        (if st_hostname st = [] then Inl Undefined
         else if bound
         then create_servers os st port_types
           (svs @ [new_server port (Plain (butlast (st_hostname st))) (st_threads st) memory])
         else Inr (False, svs))
      else create_servers os st port_types svs)"

text \<open>The database and its default users.\<close>

definition prepare_database :: "('d, 'db) login_libs \<Rightarrow> 'db world \<Rightarrow> 'db world outcome" where
  "prepare_database libs w =
     (case db_create (lib_sqlite libs) w of (rc, w) \<Rightarrow>
     and_then (db_insert (lib_bcrypt libs) (lib_sqlite libs) ''admin'' ''admin'' w) (\<lambda>(rc, w).
     and_then (db_insert (lib_bcrypt libs) (lib_sqlite libs) ''foxy'' ''password'' w) (\<lambda>(rc, w). Inr w)))"

definition serve :: "'db os \<Rightarrow> ('d, 'db) login_libs \<Rightarrow> settings \<Rightarrow> 'db world \<Rightarrow> 'db main_result outcome" where
  "serve os libs st w =
     (let w = w\<lparr>w_collector := st_collector st\<rparr>;
          w = (if st_dir st \<noteq> [] then os_chdir os (takeWhile (\<lambda>c. c \<noteq> NUL) (st_dir st)) w else w)
      in and_then (prepare_database libs w) (\<lambda>w.
         and_then (create_servers os st (st_ports st) []) (\<lambda>(up, svs). Inr
           (if up then Serving \<lparr>sys_servers = svs, sys_sessions = [], sys_world = w\<rparr>
            else if list_all (\<lambda>sv. sv_threads sv = 0) svs then Exit 0 else Joining svs))))"

text \<open>The handler of \<open>main\<close>: every exception of the standard library ends with exit code 0.\<close>

definition catch_exceptions :: "'db main_result outcome \<Rightarrow> 'db main_result outcome" where
  "catch_exceptions r = (case r of
     Inr x \<Rightarrow> Inr x | Inl Undefined \<Rightarrow> Inl Undefined | Inl e \<Rightarrow> Inr (Exit 0))"

definition server_main ::
    "'db os \<Rightarrow> ('d, 'db) login_libs \<Rightarrow> string list \<Rightarrow> 'db world \<Rightarrow> 'db main_result outcome" where
  "server_main os libs argv w =
     (if length argv \<noteq> 2 then Inr (Exit 1)
      else catch_exceptions
        (and_then (read_settings (open_file w (argv ! 1)) (w_collector w)) (\<lambda>st.
           if st_valid st then serve os libs st w else Inr (Exit 1))))"

section \<open>The servers that are created\<close>

text \<open>What the ports of a configuration ask for.\<close>

definition wanted :: "settings \<Rightarrow> (int \<times> string) \<Rightarrow> nat \<times> server_kind" where
  "wanted st p = (port_number (fst p),
     if snd p = ''https'' then Tls (st_handlers st) else Plain (butlast (st_hostname st)))"

lemma port_number_range: "port_number port < 2 ^ 16"
proof -
  have "unat (word_of_int port :: 16 word) < 2 ^ LENGTH(16)" by (rule unsigned_less)
  then show ?thesis by (simp add: port_number_def)
qed

lemma new_server_ok:
  "kind_ok kind \<Longrightarrow> length (fst a) = max_length \<Longrightarrow> length (snd a) = max_length \<Longrightarrow>
     server_ok (new_server port kind n a)"
  using port_number_range [of port] by (simp add: server_ok_def new_server_def del: fresh.simps)

lemma create_servers_result:
  assumes "create_servers os st ps svs = Inr (up, svs')" and "list_all port_entry ps"
    and "table_ok (st_handlers st)" and "\<And>i. length (fst (os_memory os i)) = max_length"
    and "\<And>i. length (snd (os_memory os i)) = max_length" and "list_all server_ok svs"
  shows "list_all server_ok svs' \<and>
    (up \<longrightarrow> map (\<lambda>sv. (sv_port sv, sv_kind sv)) svs' =
      map (\<lambda>sv. (sv_port sv, sv_kind sv)) svs @ map (wanted st) ps)"
  using assms(1,2,6)
proof (induction ps arbitrary: svs)
  case Nil
  then show ?case by simp
next
  case (Cons p ps)
  obtain port kind where p: "p = (port, kind)" by force
  define sv where "sv = new_server port (snd (wanted st p)) (st_threads st) (os_memory os (length svs))"
  have sv: "server_ok sv" "(sv_port sv, sv_kind sv) = wanted st p"
    using assms(3-5) by (auto simp: sv_def wanted_def p intro!: new_server_ok) (simp_all add: new_server_def)
  have "port_entry p" using Cons.prems(2) by simp
  then have "snd p = ''http'' \<or> snd p = ''https''" unfolding port_entry_def by (elim conjE)
  then have kind: "kind = ''http'' \<or> kind = ''https''" unfolding p snd_conv .
  have "create_servers os st ps (svs @ [sv]) = Inr (up, svs') \<or> \<not> up \<and> svs' = svs"
    using Cons.prems(1) kind by (auto simp: p sv_def wanted_def Let_def split: if_splits)
  with Cons.IH [of "svs @ [sv]"] Cons.prems sv show ?case by auto
qed


text \<open>What the settings satisfy, whatever the file holds.\<close>

lemma read_settings_ok:
  assumes "read_settings file_text c = Inr st" and "collector_ok c"
  shows "list_all port_entry (st_ports st)" and "table_ok (st_handlers st)" and "collector_ok (st_collector st)"
proof -
  obtain config b1 b2 where ports: "get_port config [] = Inr (b1, st_ports st)"
    and map: "get_map config [] c = Inr (b2, st_handlers st, st_collector st)"
    using assms(1) by (auto simp: read_settings_def and_then_Inr_iff)
  show "list_all port_entry (st_ports st)" using get_port_extends [OF ports] by auto
  have "table_ok []" "listed [] c" by (simp_all add: table_ok_def listed_def)
  from get_map_invariant [OF map this assms(2)]
  show "table_ok (st_handlers st)" "collector_ok (st_collector st)" by simp_all
qed

lemma create_servers_up:
  assumes "\<forall>port used. os_bind os port used" and "os_certificates os"
    and "(\<exists>port. (port, ''http'') \<in> set ps) \<longrightarrow> st_hostname st \<noteq> []"
  shows "\<exists>svs'. create_servers os st ps svs = Inr (True, svs')"
  using assms(3)
proof (induction ps arbitrary: svs)
  case Nil
  then show ?case by simp
next
  case (Cons p ps)
  then have "(\<exists>port. (port, ''http'') \<in> set ps) \<longrightarrow> st_hostname st \<noteq> []"
    and host: "snd p = ''http'' \<longrightarrow> st_hostname st \<noteq> []"
    by (metis list.set_intros(2), metis list.set_intros(1) prod.collapse)
  note IH = Cons.IH [OF this(1)]
  show ?case
    using host assms(1,2) IH by (cases p) (simp add: Let_def)
qed

lemma serve_prepared:
  assumes "\<And>u. \<exists>w'. prepare_database libs u = Inr w'"
  obtains w' where "serve os libs st w = and_then (create_servers os st (st_ports st) []) (\<lambda>(up, svs). Inr
     (if up then Serving \<lparr>sys_servers = svs, sys_sessions = [], sys_world = w'\<rparr>
      else if list_all (\<lambda>sv. sv_threads sv = 0) svs then Exit 0 else Joining svs))"
proof -
  let ?w = "w\<lparr>w_collector := st_collector st\<rparr>"
  obtain w' where "prepare_database libs
      (if st_dir st \<noteq> [] then os_chdir os (takeWhile (\<lambda>c. c \<noteq> NUL) (st_dir st)) ?w else ?w) = Inr w'"
    using assms by blast
  then show ?thesis by (intro that [of w']) (simp add: serve_def Let_def)
qed

section \<open>Properties\<close>

text \<open>\<open>CREATE TABLE IF NOT EXISTS\<close> keeps the rows.\<close>

definition create_law :: "'db sqlite \<Rightarrow> ('db \<Rightarrow> string \<Rightarrow> string option) \<Rightarrow> bool" where
  "create_law sq tab \<longleftrightarrow>
     (\<forall>db rows rc db'. sqlite_run sq db create_text [] = (rows, rc, db') \<longrightarrow> tab db' = tab db)"

lemma db_create_tab: "create_law sq tab \<Longrightarrow> db_create sq w = (rc, w') \<Longrightarrow>
    tab (w_db w') = tab (w_db w) \<and> w_collector w' = w_collector w"
  by (auto simp: db_create_def create_law_def Let_def split: if_splits prod.splits)

text \<open>A user is known: with the password given, if the row is new.\<close>

definition knows :: "bcrypt \<Rightarrow> (string \<Rightarrow> string option) \<Rightarrow> (string \<Rightarrow> string option) \<Rightarrow> string \<Rightarrow> string \<Rightarrow> bool" where
  "knows bc old new user pass \<longleftrightarrow>
     (if old user = None then \<exists>h. new user = Some h \<and> check_password bc pass h else new user = old user)"

lemma prepare_database_result:
  assumes "bcrypt_law (lib_bcrypt libs)" and "sqlite_law (lib_sqlite libs) tab" and "create_law (lib_sqlite libs) tab"
  obtains w' where "prepare_database libs w = Inr w'" and "w_collector w' = w_collector w"
    and "knows (lib_bcrypt libs) (tab (w_db w)) (tab (w_db w')) ''admin'' ''admin''"
    and "knows (lib_bcrypt libs) (tab (w_db w)) (tab (w_db w')) ''foxy'' ''password''"
proof -
  obtain rc w1 where c: "db_create (lib_sqlite libs) w = (rc, w1)" by force
  note create = db_create_tab [OF assms(3) c]
  obtain h1 db1 where i1: "check_password (lib_bcrypt libs) ''admin'' h1"
    "db_insert (lib_bcrypt libs) (lib_sqlite libs) ''admin'' ''admin'' w1 =
      Inr (if tab (w_db w1) ''admin'' = None then SQLITE_DONE else SQLITE_CONSTRAINT,
           w1\<lparr>w_entropy := Suc (w_entropy w1), w_db := db1\<rparr>)"
    "tab db1 = (if tab (w_db w1) ''admin'' = None then (tab (w_db w1))(''admin'' \<mapsto> h1) else tab (w_db w1))"
    by (rule db_insert_result [OF assms(1,2)])
  define w2 where "w2 = w1\<lparr>w_entropy := Suc (w_entropy w1), w_db := db1\<rparr>"
  obtain h2 db2 where i2: "check_password (lib_bcrypt libs) ''password'' h2"
    "db_insert (lib_bcrypt libs) (lib_sqlite libs) ''foxy'' ''password'' w2 =
      Inr (if tab (w_db w2) ''foxy'' = None then SQLITE_DONE else SQLITE_CONSTRAINT,
           w2\<lparr>w_entropy := Suc (w_entropy w2), w_db := db2\<rparr>)"
    "tab db2 = (if tab (w_db w2) ''foxy'' = None then (tab (w_db w2))(''foxy'' \<mapsto> h2) else tab (w_db w2))"
    by (rule db_insert_result [OF assms(1,2)])
  have w2: "w_db w2 = db1" "w_collector w2 = w_collector w1" by (simp_all add: w2_def)
  show ?thesis
  proof (rule that)
    show "prepare_database libs w = Inr (w2\<lparr>w_entropy := Suc (w_entropy w2), w_db := db2\<rparr>)"
      by (simp add: prepare_database_def c i1(2) i2(2) flip: w2_def)
  qed (use create i1(1,3) i2(1,3) w2 in \<open>simp_all add: knows_def\<close>)
qed


definition location_root :: statement where
  "location_root = Statement [''location'', quoted ''/'', ''NotFoundHandler''] (Some [])"

definition example_conf :: config where
  "example_conf =
     [Statement [''listen'', ''https'', ''443''] None, Statement [''listen'', ''http'', ''65616''] None,
      Statement [''hostname'', quoted ''foxy.net''] None, location_root]"

definition nameless_conf :: config where
  "nameless_conf = [Statement [''listen'', ''http'', ''80''] None, location_root]"

definition example_os :: "'db os" where
  "example_os = \<lparr>os_chdir = (\<lambda>dir w. w), os_bind = (\<lambda>port used. True), os_certificates = True,
     os_memory = (\<lambda>i. (zeros, zeros))\<rparr>"

definition conf_world :: "config \<Rightarrow> (string \<Rightarrow> string option) world" where
  "conf_world conf = accounts_world\<lparr>w_files := [''foxy.conf'' \<mapsto> config_to_string 0 conf]\<rparr>"

lemma conf_world_simps [simp]:
  "open_file (conf_world conf) ''foxy.conf'' = Some (config_to_string 0 conf)" "w_collector (conf_world conf) = new_collector"
  by (simp_all add: open_file_def conf_world_def accounts_world_def)

definition example_settings :: settings where
  "example_settings = \<lparr>st_valid = True, st_ports = [(443, ''https''), (65616, ''http'')], st_dir = [],
     st_threads = 4, st_hostname = ''foxy.net/'', st_handlers = [(''/'', Some NotFoundHandler)],
     st_collector = not_found_init ''/'' new_collector\<rparr>"

lemma example_ports: "get_port example_conf [] = Inr (True, [(443, ''https''), (65616, ''http'')])"
proof -
  have "stoi ''65616'' = Inr 65616" "stoi ''443'' = Inr 443"
    by (simp_all add: stoi_def digits_val_def digit_val_def int_range_def c_isdigit_def c_isspace_def)
  then show ?thesis
    by (simp add: example_conf_def location_root_def valid_keyword_listen_def read_listen_def token_at_def
        c_isdigit_def quoted_def Let_def)
qed

lemma example_settings_read:
  "read_settings (Some (config_to_string 0 example_conf)) new_collector = Inr example_settings"
proof -
  have wf: "wf_config example_conf" by code_simp
  have "get_dir example_conf [] = Inr (True, [])" "get_threads example_conf 4 = Inr (False, 4)"
    "get_hostname example_conf [] = Inr (True, ''foxy.net/'')"
    "get_map example_conf [] new_collector =
      Inr (True, [(''/'', Some NotFoundHandler)], not_found_init ''/'' new_collector)"
    by code_simp+
  then show ?thesis
    by (simp add: read_settings_def parse_config_file_def parse_print [OF wf] example_settings_def example_ports)
qed

lemma nameless_settings_read:
  "read_settings (Some (config_to_string 0 nameless_conf)) new_collector =
     Inr (example_settings\<lparr>st_ports := [(80, ''http'')], st_hostname := []\<rparr>)"
proof -
  have wf: "wf_config nameless_conf" by code_simp
  have "get_port nameless_conf [] = Inr (True, [(80, ''http'')])"
    "get_dir nameless_conf [] = Inr (True, [])" "get_threads nameless_conf 4 = Inr (False, 4)"
    "get_hostname nameless_conf [] = Inr (True, [])"
    "get_map nameless_conf [] new_collector =
      Inr (True, [(''/'', Some NotFoundHandler)], not_found_init ''/'' new_collector)"
    by code_simp+
  then show ?thesis
    by (simp add: read_settings_def parse_config_file_def parse_print [OF wf] example_settings_def)
qed

lemma map_sqlite_create: "create_law map_sqlite (\<lambda>db. db)"
proof -
  have "create_text \<noteq> insert_text" by code_simp
  then show ?thesis by (auto simp: create_law_def map_sqlite_def split: option.splits)
qed




text \<open>
  When the first port cannot be bound (or, for HTTPS, the certificates do not load), the
  exception is printed and the program ends with exit code 0.
\<close>

theorem main_reports_no_failure:
  assumes "read_settings (open_file w conf) (w_collector w) = Inr st" and "st_valid st"
    and "st_ports st = (port, ''https'') # ports"
    and "\<not> os_bind os (port_number port) [] \<or> \<not> os_certificates os"
    and "bcrypt_law (lib_bcrypt libs)" and "sqlite_law (lib_sqlite libs) tab" and "create_law (lib_sqlite libs) tab"
  shows "server_main os libs [program, conf] w = Inr (Exit 0)"
proof -
  have "create_servers os st (st_ports st) [] = Inr (False, [])" using assms(4) by (auto simp: assms(3) Let_def)
  moreover have "\<exists>w'. prepare_database libs u = Inr w'" for u
    by (rule prepare_database_result [OF assms(5-7), of u]) blast
  ultimately have "serve os libs st w = Inr (Exit 0)"
    by (rule_tac serve_prepared [of libs os st w]) simp_all
  then show ?thesis using assms(1,2) by (simp add: server_main_def catch_exceptions_def)
qed

theorem main_reports_no_failure_witness:
  "server_main (example_os\<lparr>os_certificates := False\<rparr>) example_libs [''server'', ''foxy.conf''] (conf_world example_conf) =
     Inr (Exit 0)"
  by (rule main_reports_no_failure [where tab = "\<lambda>db. db" and ports = "[(65616, ''http'')]" and port = 443
        and st = example_settings])
    (use example_laws map_sqlite_create example_settings_read in
      \<open>simp_all add: example_settings_def example_libs_def\<close>)

end
