(* ===== verification/Client_Runs.thy ===== *)
theory Client_Runs
  imports Servers
begin

text \<open>
  Clients of the running program: whatever the other sessions have done before, a client that connects
  and sends requests is answered like the abstract server answers it, over either kind of server.  The
  runs of the two session machines are carried over to the whole program by the simulation
  \<open>reaches_map\<close>.
\<close>

section \<open>What a server of each kind answers\<close>

text \<open>
  The responder of a kind of server on the world of the program.  The handler table of a TLS session is
  its own and does not change.
\<close>

definition kind_respond ::
    "('d, 'db) login_libs \<Rightarrow> network \<Rightarrow> server_kind \<Rightarrow> 'db world responder" where
  "kind_respond libs net kind w r = (case kind of
     Tls m \<Rightarrow> and_then (tls_respond libs net (w, m) r) (\<lambda>(rsp, (w, m')). Inr (rsp, w))
   | Plain hostname \<Rightarrow> Inr (http_handle_request hostname r, w))"

definition world_record :: "'db world recorder" where
  "world_record u code w = w\<lparr>w_collector := increment_request u code (w_collector w)\<rparr>"

lemma world_record_ok [simp]: "world_ok w \<Longrightarrow> world_ok (world_record u code w)"
  by (simp add: world_record_def world_ok_def increment_request_ok)

lemma serve_all_Cons:
  "serve_all f w (r # rs) = Inr (rsps, w') \<longleftrightarrow>
     (\<exists>rsp w1 rest. f w r = Inr (rsp, w1) \<and> serve_all f w1 rs = Inr (rest, w') \<and> rsps = rsp # rest)"
  by (auto simp: and_then_Inr_iff)

lemma counted_Inr:
  "counted f record_it w r = Inr (rsp, w') \<longleftrightarrow>
     (\<exists>w1. f w r = Inr (rsp, w1) \<and> w' = record_it (req_uri r) (rsp_code rsp) w1)"
  by (auto simp: counted_def and_then_Inr_iff)

lemma serve_kind_tls:
  assumes "serve_all (counted (kind_respond libs net (Tls m)) world_record) w rs = Inr (rsps, w')"
    and "table_ok m" and "world_ok w"
  shows "serve_all (counted (tls_respond libs net) tls_record) (w, m) rs = Inr (rsps, (w', m))"
  using assms(1,3)
proof (induction rs arbitrary: w rsps)
  case Nil
  then show ?case by simp
next
  case (Cons r rs)
  obtain rsp w1 rest where step: "kind_respond libs net (Tls m) w r = Inr (rsp, w1)" and rsps: "rsps = rsp # rest"
    and rest: "serve_all (counted (kind_respond libs net (Tls m)) world_record)
      (world_record (req_uri r) (rsp_code rsp) w1) rs = Inr (rest, w')"
    using Cons.prems(1) by (auto simp: serve_all_Cons counted_Inr simp del: serve_all.simps)
  obtain m1 where run: "tls_respond libs net (w, m) r = Inr (rsp, (w1, m1))"
    using step by (auto simp: kind_respond_def and_then_Inr_iff simp del: tls_respond.simps)
  note keeps = tls_respond_keeps [OF run assms(2)]
  have "world_ok (world_record (req_uri r) (rsp_code rsp) w1)" using keeps(3) Cons.prems(2) by simp
  from Cons.IH [OF rest this]
  have "serve_all (counted (tls_respond libs net) tls_record) (tls_record (req_uri r) (rsp_code rsp) (w1, m)) rs =
      Inr (rest, (w', m))"
    by (simp add: world_record_def)
  moreover have "counted (tls_respond libs net) tls_record (w, m) r =
      Inr (rsp, tls_record (req_uri r) (rsp_code rsp) (w1, m))"
    using run keeps(1) by (simp add: counted_Inr del: tls_respond.simps)
  ultimately show ?case unfolding serve_all_Cons rsps by blast
qed

lemma serve_kind_plain:
  assumes "serve_all (counted (kind_respond libs net (Plain hostname)) world_record) w rs = Inr (rsps, w')"
  shows "serve_all (counted (http_respond hostname) increment_request) (w_collector w) rs = Inr (rsps, w_collector w') \<and>
    w' = w\<lparr>w_collector := w_collector w'\<rparr>"
  using assms
proof (induction rs arbitrary: w rsps)
  case Nil
  then show ?case by simp
next
  case (Cons r rs)
  let ?rsp = "http_handle_request hostname r"
  let ?w1 = "world_record (req_uri r) (rsp_code ?rsp) w"
  obtain rsp w1 rest where "kind_respond libs net (Plain hostname) w r = Inr (rsp, w1)" and "rsps = rsp # rest"
    and "serve_all (counted (kind_respond libs net (Plain hostname)) world_record)
      (world_record (req_uri r) (rsp_code rsp) w1) rs = Inr (rest, w')"
    using Cons.prems by (auto simp: serve_all_Cons counted_Inr simp del: serve_all.simps)
  moreover from this(1) have "rsp = ?rsp" "w1 = w" by (simp_all add: kind_respond_def)
  ultimately have rsps: "rsps = ?rsp # rest"
    and rest: "serve_all (counted (kind_respond libs net (Plain hostname)) world_record) ?w1 rs = Inr (rest, w')"
    by simp_all
  have w1: "w_collector ?w1 = increment_request (req_uri r) (rsp_code ?rsp) (w_collector w)"
    "?w1\<lparr>w_collector := c\<rparr> = w\<lparr>w_collector := c\<rparr>" for c
    by (simp_all add: world_record_def)
  note IH = Cons.IH [OF rest, unfolded w1]
  have "counted (http_respond hostname) increment_request (w_collector w) r =
      Inr (?rsp, increment_request (req_uri r) (rsp_code ?rsp) (w_collector w))"
    by (simp add: counted_Inr http_respond_def)
  with IH rsps show ?case by (simp add: serve_all_Cons del: serve_all.simps)
qed

section \<open>From a session to the program\<close>

text \<open>A map of states that carries enabled steps to enabled steps carries runs to runs.\<close>

lemma reaches_map:
  assumes "reaches en react s0 es s"
    and "\<And>s e s'. en s e \<Longrightarrow> react s e = Inr (Some s') \<Longrightarrow> en' (f s) (g e) \<and> react' (f s) (g e) = Inr (Some (f s'))"
  shows "reaches en' react' (f s0) (map g es) (f s)"
  using assms(1)
proof (induction rule: reaches.induct)
  case start
  show ?case by (simp add: reaches.start)
next
  case (step es s e s')
  have "en' (f s) (g e)" "react' (f s) (g e) = Inr (Some (f s'))" using assms(2) step.hyps(2,3) by simp_all
  from reaches.step [OF step.IH this] show ?case by simp
qed

definition session_enabled :: "session \<times> 'w \<Rightarrow> event \<Rightarrow> bool" where
  "session_enabled s e \<longleftrightarrow> enabled (session_connection (fst s), ()) e"

lemma tls_in_session:
  assumes "reaches enabled (tls_react libs net) (cn, (w, m)) es (cn', (w', m'))"
  shows "reaches session_enabled (session_react libs net) (Session cn (Tls m), w) es (Session cn' (Tls m'), w')"
proof -
  let ?f = "\<lambda>(cn, (w, m)). (Session cn (Tls m), w)"
  have "reaches session_enabled (session_react libs net) (?f (cn, (w, m))) (map (\<lambda>e. e) es) (?f (cn', (w', m')))"
    by (rule reaches_map [OF assms]) (auto simp: session_enabled_def enabled_def)
  then show ?thesis by simp
qed

lemma plain_in_session:
  assumes "reaches enabled (http_react hostname) (cn, c) es (cn', c')"
  shows "reaches session_enabled (session_react libs net) (Session cn (Plain hostname), w\<lparr>w_collector := c\<rparr>) es
    (Session cn' (Plain hostname), w\<lparr>w_collector := c'\<rparr>)"
proof -
  let ?f = "\<lambda>(cn, c). (Session cn (Plain hostname), w\<lparr>w_collector := c\<rparr>)"
  have "reaches session_enabled (session_react libs net) (?f (cn, c)) (map (\<lambda>e. e) es) (?f (cn', c'))"
    by (rule reaches_map [OF assms]) (auto simp: session_enabled_def enabled_def)
  then show ?thesis by simp
qed

lemma session_in_system:
  assumes "reaches session_enabled (session_react libs net) (ses, w) es (ses', w')" and "i < length (sys_sessions s)"
  shows "reaches system_enabled (system_react libs net) (s\<lparr>sys_sessions := (sys_sessions s)[i := ses], sys_world := w\<rparr>)
    (map (Completed i) es) (s\<lparr>sys_sessions := (sys_sessions s)[i := ses'], sys_world := w'\<rparr>)"
  by (rule reaches_map [OF assms(1), where g = "Completed i"
        and f = "\<lambda>(ses, w). s\<lparr>sys_sessions := (sys_sessions s)[i := ses], sys_world := w\<rparr>", simplified])
    (use assms(2) in \<open>auto simp: session_enabled_def\<close>)

text \<open>A well-formed sequence of exchanges on a session of either kind.\<close>

lemma session_serves:
  assumes "waits_for n (length (message x)) cn" and "exchanges_ok n (x # xs)"
    and "kind_ok kind" and "world_ok w"
    and "serve_all (counted (kind_respond libs net kind) world_record) w (map request_of (x # xs)) = Inr (rsps, w')"
  shows "\<exists>cn'. reaches session_enabled (session_react libs net) (Session cn kind, w)
      (concat (map exchange_events (x # xs))) (Session cn' kind, w') \<and>
    cn_pending cn' = [Reading] \<and> cn_alive cn' \<and> cn_out cn' = cn_out cn @ map wire rsps"
proof (cases kind)
  case (Tls m)
  have "table_ok m" using assms(3) Tls by simp
  note run = serve_kind_tls [OF assms(5) [unfolded Tls] this assms(4)]
  have "tls_world_ok (w, m)" using assms(4) \<open>table_ok m\<close> by simp
  from tls_loop.exchanges_run_first [OF assms(1,2) this run] obtain cn' where
    "reaches enabled (tls_react libs net) (cn, (w, m)) (concat (map exchange_events (x # xs))) (cn', (w', m))"
    "cn_pending cn' = [Reading]" "cn_alive cn'" "cn_out cn' = cn_out cn @ map wire rsps"
    by blast
  with tls_in_session [OF this(1)] show ?thesis unfolding Tls by blast
next
  case (Plain hostname)
  note run = serve_kind_plain [OF assms(5) [unfolded Plain]]
  have "collector_ok (w_collector w)" using assms(4) by (simp add: world_ok_def)
  from http_loop.exchanges_run_first [OF assms(1,2) this conjunct1 [OF run]] obtain cn' where
    r: "reaches enabled (http_react hostname) (cn, w_collector w) (concat (map exchange_events (x # xs)))
      (cn', w_collector w')"
    and out: "cn_pending cn' = [Reading]" "cn_alive cn'" "cn_out cn' = cn_out cn @ map wire rsps"
    by blast
  have "w\<lparr>w_collector := w_collector w\<rparr> = w" by simp
  with plain_in_session [OF r, of libs net w] run out show ?thesis unfolding Plain by auto
qed

section \<open>A new client\<close>

text \<open>
  What a client of a server of each kind does: it connects, over TLS it completes the handshake, and
  then it sends its requests, each after the answer to the one before.  The client is accepted by
  server \<open>i\<close> and gets session \<open>j\<close>; \<open>a\<close> are the arrays of the session that the server then prepares.
\<close>

definition greeting :: "server_kind \<Rightarrow> event list" where
  "greeting kind = (case kind of Tls m \<Rightarrow> [Handshake_done False] | Plain hostname \<Rightarrow> [])"

definition client_events :: "nat \<Rightarrow> nat \<Rightarrow> server_kind \<Rightarrow> arrays \<Rightarrow> exchange list \<Rightarrow> system_event list" where
  "client_events i j kind a xs =
     Accepted i False a # map (Completed j) (greeting kind @ concat (map exchange_events xs))"

lemma greeted:
  assumes "fresh (Session cn kind)" and "cn_data cn ! k = NUL"
  shows "\<exists>cn'. reaches session_enabled (session_react libs net) (session_start (Session cn kind), w) (greeting kind)
    (Session cn' kind, w) \<and> waits_for 0 k cn' \<and> cn_out cn' = []"
proof -
  have cn: "cn = new_connection (cn_data cn) (cn_buffer cn)" "length (cn_data cn) = max_length"
    using assms(1) by simp_all
  define cn' where "cn' = (new_connection (cn_data cn) (cn_buffer cn))\<lparr>cn_pending := [Reading]\<rparr>"
  have ok: "waits_for 0 k cn'" "cn_out cn' = []"
    using assms(2) cn(2) by (simp_all add: cn'_def waits_for_def new_connection_def new_parser_def ready_def)
  have "reaches session_enabled (session_react libs net) (session_start (Session cn kind), w) (greeting kind)
      (Session cn' kind, w)"
  proof (cases kind)
    case (Tls m)
    have "session_react libs net (session_start (Session cn kind), w) (Handshake_done False) =
        Inr (Some (Session cn' kind, w))"
      by (subst cn(1)) (simp add: Tls cn'_def tls_start_def start_operation_def new_connection_def
          handle_handshake_def complete_def)
    moreover have "session_enabled (session_start (Session cn kind), w) (Handshake_done False)"
      by (subst cn(1)) (simp add: Tls session_enabled_def enabled_def tls_start_def start_operation_def new_connection_def)
    ultimately show ?thesis by (simp add: greeting_def Tls reaches_one)
  next
    case (Plain hostname)
    have "session_start (Session cn kind) = Session cn' kind"
      by (subst cn(1)) (simp add: Plain cn'_def http_start_def start_operation_def new_connection_def)
    then show ?thesis by (simp add: greeting_def Plain reaches.start)
  qed
  with ok show ?thesis by blast
qed

lemma client_run:
  assumes "server_ok (sys_servers s ! i)" and "i < length (sys_servers s)" and "world_ok (sys_world s)"
    and "sv_kind (sys_servers s ! i) = kind"
    and "length (fst a) = max_length" and "length (snd a) = max_length" and "exchanges_ok 0 (x # xs)"
    and "cn_data (session_connection (sv_accepting (sys_servers s ! i))) ! length (message x) = NUL"
    and "serve_all (counted (kind_respond libs net kind) world_record) (sys_world s) (map request_of (x # xs)) =
      Inr (rsps, w')"
  shows "\<exists>s' cn'. reaches system_enabled (system_react libs net) s
      (client_events i (length (sys_sessions s)) kind a (x # xs)) s' \<and>
    sys_sessions s' = sys_sessions s @ [Session cn' kind] \<and> sys_world s' = w' \<and>
    cn_out cn' = map wire rsps \<and> cn_pending cn' = [Reading] \<and> cn_alive cn'"
proof -
  let ?sv = "sys_servers s ! i" and ?j = "length (sys_sessions s)"
  let ?run = "reaches system_enabled (system_react libs net)"
  obtain cn where cn: "sv_accepting ?sv = Session cn kind" using assms(1,4) by (auto simp: server_ok_def)
  then have fresh: "fresh (Session cn kind)" "kind_ok kind" "cn_data cn ! length (message x) = NUL"
    using assms(1,4,8) by (simp_all only: server_ok_def session_connection.simps)
  define s1 where "s1 = s\<lparr>sys_servers := (sys_servers s)[i := start_accept a ?sv],
    sys_sessions := sys_sessions s @ [session_start (Session cn kind)]\<rparr>"
  define at where "at ses w = s1\<lparr>sys_sessions := (sys_sessions s1)[?j := ses], sys_world := w\<rparr>" for ses w
  have at_s1: "at (session_start (Session cn kind)) (sys_world s) = s1" and j: "?j < length (sys_sessions s1)"
    by (simp_all add: at_def s1_def)
  have accepted: "?run s [Accepted i False a] s1"
    by (rule reaches_one) (use assms(2,5,6) in \<open>simp_all add: handle_accept_def cn s1_def\<close>)
  obtain cn1 where greet: "reaches session_enabled (session_react libs net) (session_start (Session cn kind), sys_world s)
      (greeting kind) (Session cn1 kind, sys_world s)"
    and cn1: "waits_for 0 (length (message x)) cn1" "cn_out cn1 = []"
    using greeted [OF fresh(1,3)] by blast
  obtain cn2 where serve: "reaches session_enabled (session_react libs net) (Session cn1 kind, sys_world s)
      (concat (map exchange_events (x # xs))) (Session cn2 kind, w')"
    and cn2: "cn_pending cn2 = [Reading]" "cn_alive cn2" "cn_out cn2 = cn_out cn1 @ map wire rsps"
    using session_serves [OF cn1(1) assms(7) fresh(2) assms(3,9)] by blast
  note in_system = session_in_system [OF reaches_append [OF serve greet] j]
  have "?run s1 (map (Completed ?j) (greeting kind @ concat (map exchange_events (x # xs)))) (at (Session cn2 kind) w')"
    using in_system unfolding at_def [symmetric] at_s1 .
  from reaches_append [OF this accepted]
  have "?run s (client_events i ?j kind a (x # xs)) (at (Session cn2 kind) w')"
    by (simp only: client_events_def append_Cons append_Nil)
  moreover have "sys_sessions (at (Session cn2 kind) w') = sys_sessions s @ [Session cn2 kind]"
    "sys_world (at (Session cn2 kind) w') = w'"
    by (simp_all add: at_def s1_def)
  ultimately show ?thesis using cn1(2) cn2 by auto
qed

section \<open>Properties\<close>



end
