(* ===== verification/Isolation.thy ===== *)
theory Isolation
  imports Client_Runs
begin

text \<open>
  Sessions do not disturb each other.  The sessions of the running program share the world; a session
  whose handlers depend on nothing in it but the files behaves, in every interleaving with the others,
  as it behaves alone: the state of its connection and every byte it sends are determined by its own
  events, its handler table and the files.
\<close>

section \<open>Responders that see only part of the world\<close>

text \<open>
  Worlds that look the same to a responder: it answers the same, and the worlds after the answer look
  the same again.
\<close>

locale steady =
  fixes respond :: "'w responder" and record_it :: "'w recorder" and same :: "'w \<Rightarrow> 'w \<Rightarrow> bool"
  assumes respond_same: "same w v \<Longrightarrow> respond w r = Inr (rsp, w') \<Longrightarrow> \<exists>v'. respond v r = Inr (rsp, v') \<and> same w' v'"
    and record_same: "same w v \<Longrightarrow> same (record_it u code w) (record_it u code v)"
begin

lemma answer_same:
  assumes "same w v" and "answer respond record_it cn w = Inr (cn', w')"
  shows "\<exists>v'. answer respond record_it cn v = Inr (cn', v') \<and> same w' v'"
proof -
  obtain rsp w1 where w1: "respond w (cn_request cn) = Inr (rsp, w1)"
    and cn': "cn' = start_write (deep_copy_response rsp cn)"
    and w': "w' = record_it (req_uri (cn_request cn)) (rsp_code rsp) w1"
    using assms(2) by (auto simp: answer_def and_then_Inr_iff)
  from respond_same [OF assms(1) w1] obtain v1 where "respond v (cn_request cn) = Inr (rsp, v1)" "same w1 v1" by blast
  then show ?thesis by (simp add: answer_def cn' w' record_same)
qed

lemma after_parsing_same:
  assumes "same w v" and "after_parsing respond record_it cn result w = Inr (cn', w')"
  shows "\<exists>v'. after_parsing respond record_it cn result v = Inr (cn', v') \<and> same w' v'"
proof (cases result)
  case good
  with assms(2) obtain cn1 where "answer respond record_it (cn\<lparr>cn_parser := reset (cn_parser cn)\<rparr>) w = Inr (cn1, w')"
    and "cn' = cn1\<lparr>cn_data := zeros\<rparr>"
    by (auto simp: after_parsing_def and_then_Inr_iff)
  with answer_same [OF assms(1) this(1)] show ?thesis by (auto simp: after_parsing_def good)
qed (use assms record_same in \<open>auto simp: after_parsing_def answer_bad_request_def Let_def and_then_Inr_iff\<close>)

lemma handle_read_same:
  assumes "same w v" and "handle_read respond record_it cn error n reads w = Inr (Some (cn', w'))"
  shows "\<exists>v'. handle_read respond record_it cn error n reads v = Inr (Some (cn', v')) \<and> same w' v'"
proof (cases error)
  case True
  with assms show ?thesis by (auto simp: handle_read_def)
next
  case False
  with assms(2) obtain result p r cn1 result1 failed where
    parse: "parse_data (cn_parser cn) empty_request (cn_data cn) n = Inr (result, p, r)"
    and more_reads: "read_more n (cn\<lparr>cn_parser := p, cn_request := r\<rparr>) result reads = Inr (Some (cn1, result1, failed))"
    and rest: "(if failed then Inr (Some (cn1, w))
      else and_then (after_parsing respond record_it cn1 result1 w) (\<lambda>s. Inr (Some s))) = Inr (Some (cn', w'))"
    by (auto simp: handle_read_def and_then_Inr_iff split: option.splits)
  have run: "handle_read respond record_it cn error n reads v = (if failed then Inr (Some (cn1, v))
      else and_then (after_parsing respond record_it cn1 result1 v) (\<lambda>s. Inr (Some s)))"
    using False by (simp add: handle_read_def parse more_reads)
  show ?thesis
  proof (cases failed)
    case True
    with rest run assms(1) show ?thesis by auto
  next
    case False
    then have "after_parsing respond record_it cn1 result1 w = Inr (cn', w')" using rest by (auto simp: and_then_Inr_iff)
    from after_parsing_same [OF assms(1) this] run False show ?thesis by auto
  qed
qed

lemma handle_final_read_same:
  assumes "same w v" and "handle_final_read respond record_it cn w = Inr (cn', w')"
  shows "\<exists>v'. handle_final_read respond record_it cn v = Inr (cn', v') \<and> same w' v'"
proof -
  obtain body cn1 where body: "c_string (cn_buffer cn) = Inr body"
    and run: "answer respond record_it (cn\<lparr>cn_request := (cn_request cn)\<lparr>req_body := body\<rparr>\<rparr>) w = Inr (cn1, w')"
    and cn': "cn' = cn1\<lparr>cn_data := zeros, cn_buffer := zeros\<rparr>"
    using assms(2) by (auto simp: handle_final_read_def and_then_Inr_iff)
  from answer_same [OF assms(1) run] show ?thesis by (auto simp: handle_final_read_def body cn')
qed

end

section \<open>Both sessions\<close>

text \<open>The handlers that look at the files at most.\<close>

fun steady_handler :: "handler \<Rightarrow> bool" where
  "steady_handler EchoHandler \<longleftrightarrow> True"
| "steady_handler HealthHandler \<longleftrightarrow> True"
| "steady_handler NotFoundHandler \<longleftrightarrow> True"
| "steady_handler (StaticHandler h) \<longleftrightarrow> st_auth_path h = []"
| "steady_handler _ \<longleftrightarrow> False"

definition steady_table :: "handler_map \<Rightarrow> bool" where
  "steady_table m \<longleftrightarrow> table_ok m \<and> (\<forall>k h. smap_find m k = Some (Some h) \<longrightarrow> steady_handler h)"

fun steady_kind :: "server_kind \<Rightarrow> bool" where
  "steady_kind (Tls m) \<longleftrightarrow> steady_table m"
| "steady_kind (Plain hostname) \<longleftrightarrow> True"

lemma steady_answer:
  assumes "steady_handler h" and "w_files w = w_files v" and "handle_request libs net h w r = Inr (rsp, w')"
  shows "\<exists>v'. handle_request libs net h v r = Inr (rsp, v') \<and> w_files w' = w_files v'"
  using assms
  by (cases h) (auto simp: on_collector_def and_then_Inr_iff echo_handle_def health_handle_def not_found_handle_def
      static_handle_def static_response_def serve_file_def open_file_def split: option.splits)

text \<open>Worlds with the same files, for a session whose handler table is \<open>m\<close>.\<close>

definition same_files :: "handler_map \<Rightarrow> 'db tls_world \<Rightarrow> 'db tls_world \<Rightarrow> bool" where
  "same_files m s t \<longleftrightarrow> steady_table m \<and> snd s = m \<and> snd t = m \<and> w_files (fst s) = w_files (fst t)"

lemma tls_respond_same:
  assumes "same_files m s t" and "tls_respond libs net s r = Inr (rsp, s')"
  shows "\<exists>t'. tls_respond libs net t r = Inr (rsp, t') \<and> same_files m s' t'"
proof -
  obtain w v s1 m1 where s: "s = (w, m)" "t = (v, m)" "s' = (s1, m1)"
    and m: "steady_table m" and files: "w_files w = w_files v"
    using assms(1) by (cases s; cases t; cases s') (auto simp: same_files_def)
  obtain h where d: "dispatch_handler (req_uri r) m = (Some h, m1)"
    and run: "handle_request libs net h w r = Inr (rsp, s1)"
    using assms(2) by (auto simp: s and_then_Inr_iff split: prod.splits option.splits)
  have m1: "m1 = m" by (rule dispatch_keeps_table [OF _ d]) (use m in \<open>simp add: steady_table_def\<close>)
  have "steady_handler h"
  proof -
    obtain k where k: "m1 = smap_touch None k m" "or_default None (smap_find m1 k) = Some h"
      using d by (auto simp: dispatch_handler_def Let_def split: prod.splits)
    then have "smap_find m k = Some (Some h)" by (cases "smap_find m k") (simp_all add: m1)
    with m show ?thesis by (auto simp: steady_table_def)
  qed
  from steady_answer [OF this files run] obtain v' where "handle_request libs net h v r = Inr (rsp, v')"
    and "w_files s1 = w_files v'" by blast
  then show ?thesis using d m by (simp add: s m1 same_files_def)
qed

interpretation tls_steady: steady "tls_respond libs net" tls_record "same_files m"
proof unfold_locales
  fix w v :: "'b tls_world" and r rsp w' u code
  show "same_files m w v \<Longrightarrow> tls_respond libs net w r = Inr (rsp, w') \<Longrightarrow>
      \<exists>v'. tls_respond libs net v r = Inr (rsp, v') \<and> same_files m w' v'"
    by (rule tls_respond_same)
  show "same_files m w v \<Longrightarrow> same_files m (tls_record u code w) (tls_record u code v)"
    by (cases w; cases v) (simp add: same_files_def)
qed

interpretation plain_steady: steady "http_respond hostname" increment_request "\<lambda>_ _. True"
  by unfold_locales (simp_all add: http_respond_def)

lemma tls_react_same:
  assumes "same_files m s t" and "tls_react libs net (cn, s) e = Inr (Some (cn', s'))"
  shows "\<exists>t'. tls_react libs net (cn, t) e = Inr (Some (cn', t')) \<and> same_files m s' t'"
proof (cases e)
  case (Read_done peer error chunk reads)
  with assms(2) have "cn_alive cn" "peer" and
    "handle_read (tls_respond libs net) tls_record
      ((complete e cn)\<lparr>cn_data := receive (cn_data (complete e cn)) chunk\<rparr>) error (length chunk) reads s = Inr (Some (cn', s'))"
    by (auto simp: tls_handle_read_def split: if_splits)
  with tls_steady.handle_read_same [OF assms(1) this(3)] Read_done show ?thesis
    by (auto simp: tls_handle_read_def)
next
  case (Final_done peer error chunk)
  with assms(2) have "cn_alive cn" "peer" and
    "handle_final_read (tls_respond libs net) tls_record
      ((complete e cn)\<lparr>cn_buffer := receive (cn_buffer (complete e cn)) chunk\<rparr>) s = Inr (cn', s')"
    by (auto simp: tls_handle_final_read_def and_then_Inr_iff split: if_splits)
  with tls_steady.handle_final_read_same [OF assms(1) this(3)] Final_done show ?thesis
    by (auto simp: tls_handle_final_read_def)
qed (use assms in \<open>auto simp del: split_paired_Ex split: if_splits\<close>)

lemma http_react_same:
  assumes "http_react hostname (cn, c) e = Inr (Some (cn', c'))"
  shows "\<exists>d'. http_react hostname (cn, d) e = Inr (Some (cn', d'))"
proof (cases e)
  case (Read_done peer error chunk reads)
  with assms have "cn_alive cn" "peer" and
    "handle_read (http_respond hostname) increment_request
      ((complete e cn)\<lparr>cn_data := receive (cn_data (complete e cn)) chunk\<rparr>) error (length chunk) reads c = Inr (Some (cn', c'))"
    by (auto simp: http_handle_read_def split: if_splits)
  with plain_steady.handle_read_same [where v = d, OF TrueI this(3)] Read_done show ?thesis
    by (auto simp: http_handle_read_def)
next
  case (Final_done peer error chunk)
  with assms have "cn_alive cn" "peer" and
    "handle_final_read (http_respond hostname) increment_request
      ((complete e cn)\<lparr>cn_buffer := receive (cn_buffer (complete e cn)) chunk\<rparr>) c = Inr (cn', c')"
    by (auto simp: http_handle_final_read_def and_then_Inr_iff split: if_splits)
  with plain_steady.handle_final_read_same [where v = d, OF TrueI this(3)] Final_done show ?thesis
    by (auto simp: http_handle_final_read_def)
qed (use assms in \<open>auto split: if_splits\<close>)

section \<open>In the running program\<close>

lemma session_react_same:
  assumes "steady_kind kind" and "w_files w = w_files v"
    and "session_react libs net (Session cn kind, w) e = Inr (Some (ses', w'))"
  shows "\<exists>cn' v'. ses' = Session cn' kind \<and>
    session_react libs net (Session cn kind, v) e = Inr (Some (ses', v')) \<and> (w_files w' = w_files w \<longrightarrow> w_files v' = w_files v)"
proof (cases kind)
  case (Tls m)
  then have same: "same_files m (w, m) (v, m)" using assms(1,2) by (simp add: same_files_def)
  obtain cn' m' where run: "tls_react libs net (cn, (w, m)) e = Inr (Some (cn', (w', m')))"
    and ses': "ses' = Session cn' (Tls m')"
    using assms(3) by (auto simp: Tls and_then_Inr_iff split: option.splits)
  from tls_react_same [OF same run] obtain v' where
    "tls_react libs net (cn, (v, m)) e = Inr (Some (cn', (v', m)))" "w_files w' = w_files v'" "m' = m"
    by (auto simp: same_files_def)
  then show ?thesis using assms(2) by (auto simp: Tls ses')
next
  case (Plain hostname)
  obtain cn' c' where run: "http_react hostname (cn, w_collector w) e = Inr (Some (cn', c'))"
    and ses': "ses' = Session cn' (Plain hostname)" "w' = w\<lparr>w_collector := c'\<rparr>"
    using assms(3) by (auto simp: Plain and_then_Inr_iff split: option.splits)
  from http_react_same [OF run, of "w_collector v"] show ?thesis by (auto simp: Plain ses' simp del: http_react.simps)
qed

text \<open>The events of session \<open>j\<close> in a run of the program.\<close>

fun own :: "nat \<Rightarrow> system_event list \<Rightarrow> event list" where
  "own j [] = []"
| "own j (Completed i e # es) = (if i = j then e # own j es else own j es)"
| "own j (Accepted i error a # es) = own j es"
| "own j (Passed n # es) = own j es"

lemma own_append [simp]: "own j (es @ es') = own j es @ own j es'"
  by (induction j es rule: own.induct) simp_all

text \<open>The session is where its own events alone lead, from arrays that do not depend on the world.\<close>

definition alone ::
    "('d, 'db) login_libs \<Rightarrow> network \<Rightarrow> (string \<Rightarrow> string option) \<Rightarrow> event list \<Rightarrow> session \<Rightarrow> bool" where
  "alone libs net files es ses \<longleftrightarrow> (\<exists>a. length (fst a) = max_length \<and> length (snd a) = max_length \<and>
     (\<forall>v :: 'db world. w_files v = files \<longrightarrow> (\<exists>v'. w_files v' = files \<and>
        reaches session_enabled (session_react libs net) (session_start (new_session (session_kind ses) a), v) es (ses, v'))))"

lemma alone_start:
  assumes "fresh (Session cn kind)"
  shows "alone libs net files [] (session_start (Session cn kind))"
proof -
  have "new_session kind (cn_data cn, cn_buffer cn) = Session cn kind"
    using assms by (simp add: new_session_def)
  moreover have "session_kind (session_start (Session cn kind)) = kind" by (cases kind) simp_all
  ultimately show ?thesis
    unfolding alone_def using assms
    by (intro exI [of _ "(cn_data cn, cn_buffer cn)"]) (auto intro: reaches.start)
qed

lemma alone_step:
  assumes "alone libs net (w_files w) es (Session cn kind)" and "steady_kind kind"
    and "enabled (cn, ()) e" and "session_react libs net (Session cn kind, w) e = Inr (Some (ses', w'))"
    and "w_files w' = w_files w"
  shows "alone libs net (w_files w) (es @ [e]) ses'"
proof -
  obtain a where a: "length (fst a) = max_length" "length (snd a) = max_length"
    and run: "\<And>v. w_files v = w_files w \<Longrightarrow> \<exists>v'. w_files v' = w_files w \<and>
      reaches session_enabled (session_react libs net) (session_start (new_session kind a), v) es (Session cn kind, v')"
    using assms(1) by (auto simp: alone_def)
  obtain cn' where ses': "ses' = Session cn' kind" using session_react_same [OF assms(2) refl assms(4)] by blast
  show ?thesis
    unfolding alone_def
  proof (intro exI [of _ a] conjI a allI impI)
    fix v :: "'b world"
    assume "w_files v = w_files w"
    from run [OF this] obtain v1 where v1: "w_files v1 = w_files w"
      and r: "reaches session_enabled (session_react libs net) (session_start (new_session kind a), v) es (Session cn kind, v1)"
      by blast
    from session_react_same [OF assms(2) v1 [symmetric] assms(4)] assms(5) v1 obtain v2 where
      "session_react libs net (Session cn kind, v1) e = Inr (Some (ses', v2))" and v2: "w_files v2 = w_files w"
      by auto
    from reaches.step [OF r _ this(1)] assms(3)
    have "reaches session_enabled (session_react libs net) (session_start (new_session kind a), v) (es @ [e]) (ses', v2)"
      by (simp add: session_enabled_def)
    with v2 show "\<exists>v'. w_files v' = w_files w \<and> reaches session_enabled (session_react libs net)
        (session_start (new_session (session_kind ses') a), v) (es @ [e]) (ses', v')"
      by (auto simp: ses')
  qed
qed

definition all_alone ::
    "('d, 'db) login_libs \<Rightarrow> network \<Rightarrow> (string \<Rightarrow> string option) \<Rightarrow> system_event list \<Rightarrow> 'db system \<Rightarrow> bool" where
  "all_alone libs net files es s \<longleftrightarrow> w_files (sys_world s) = files \<and>
     (\<forall>j < length (sys_sessions s). steady_kind (session_kind (sys_sessions s ! j)) \<longrightarrow>
        alone libs net files (own j es) (sys_sessions s ! j)) \<and>
     (\<forall>j \<ge> length (sys_sessions s). own j es = [])"

lemma all_alone_step:
  assumes "all_alone libs net files es s" and "system_inv c0 s"
    and "system_enabled s e" and "system_react libs net s e = Inr (Some s')"
  shows "all_alone libs net files (es @ [e]) s'"
proof (cases e)
  case (Accepted i error a)
  have "server_ok (sys_servers s ! i)" using assms(2,3) by (simp add: system_inv_def Accepted list_all_length)
  then obtain cn where cn: "sv_accepting (sys_servers s ! i) = Session cn (sv_kind (sys_servers s ! i))"
    and fresh: "fresh (Session cn (sv_kind (sys_servers s ! i)))" by (auto simp: server_ok_def)
  show ?thesis
    using assms(1,4) alone_start [OF fresh, of libs net files]
    by (auto simp: all_alone_def Accepted handle_accept_def cn nth_append less_Suc_eq split: if_splits)
next
  case (Completed i ev)
  obtain ses w where run: "session_react libs net (sys_sessions s ! i, sys_world s) ev = Inr (Some (ses, w))"
    and s': "s' = s\<lparr>sys_sessions := (sys_sessions s)[i := ses], sys_world := w\<rparr>"
    using assms(4) by (auto simp: Completed and_then_Inr_iff split: option.splits)
  have i: "i < length (sys_sessions s)" and en: "enabled (session_connection (sys_sessions s ! i), ()) ev"
    using assms(3) by (simp_all add: Completed)
  have "session_ok (sys_sessions s ! i)" "world_ok (sys_world s)"
    using assms(2) i by (simp_all add: system_inv_def list_all_length)
  from session_react_step [OF run this en] have files: "w_files w = w_files (sys_world s)"
    and kind: "session_kind ses = session_kind (sys_sessions s ! i)" by simp_all
  obtain cn where ses: "sys_sessions s ! i = Session cn (session_kind ses)"
    using kind by (cases "sys_sessions s ! i") simp
  have "alone libs net files (own i es @ [ev]) ses" if "steady_kind (session_kind ses)"
  proof -
    have "alone libs net (w_files (sys_world s)) (own i es) (sys_sessions s ! i)"
      using assms(1) i that by (simp add: all_alone_def kind)
    then have "alone libs net (w_files (sys_world s)) (own i es) (Session cn (session_kind ses))"
      unfolding ses .
    from alone_step [OF this that _ run [unfolded ses] files] en assms(1) show ?thesis
      by (simp add: ses all_alone_def)
  qed
  with assms(1) i files show ?thesis
    by (auto simp: all_alone_def Completed s' nth_list_update)
next
  case (Passed n)
  with assms(1,4) show ?thesis by (auto simp: all_alone_def)
qed

section \<open>Properties\<close>

text \<open>
  C9: Sessions are isolated.  In every run of the program, whatever the other clients send and however
  the callbacks interleave, a session that redirects, or whose table holds echo, health, 404 and
  unprotected static handlers, is in the state, and has sent the bytes, to which its own events lead
  it when it runs alone, in any world with the same files.
\<close>

theorem sessions_isolated:
  assumes "list_all server_ok (sys_servers s0)" and "sys_sessions s0 = []" and "world_ok (sys_world s0)"
    and "reaches system_enabled (system_react libs net) s0 es s"
    and "j < length (sys_sessions s)" and "steady_kind (session_kind (sys_sessions s ! j))"
  shows "\<exists>a. length (fst a) = max_length \<and> length (snd a) = max_length \<and>
    (\<forall>v. w_files v = w_files (sys_world s0) \<longrightarrow> (\<exists>v'.
       reaches session_enabled (session_react libs net)
         (session_start (new_session (session_kind (sys_sessions s ! j)) a), v) (own j es) (sys_sessions s ! j, v')))"
proof -
  let ?c = "w_collector (sys_world s0)"
  have inv: "system_inv ?c s0" using assms(1-3) by (simp add: system_inv_def sent_def exI [of _ "[]"])
  from assms(4) have "all_alone libs net (w_files (sys_world s0)) es s"
  proof (induction rule: reaches.induct)
    case start
    show ?case using assms(2) by (simp add: all_alone_def)
  next
    case (step es s e s')
    show ?case
      by (rule all_alone_step [OF step.IH system.reaches_inv [OF step.hyps(1) inv] step.hyps(2,3)])
  qed
  with assms(5,6) have "alone libs net (w_files (sys_world s0)) (own j es) (sys_sessions s ! j)"
    by (simp add: all_alone_def)
  then show ?thesis unfolding alone_def by blast
qed

lemma own_completed: "own j (map (Completed i) es) = (if i = j then es else [])"
  by (induction es) auto

text \<open>A client of the plain server while another one waits, on another clock.\<close>

theorem sessions_isolated_witness:
  "\<exists>s a v'. reaches system_enabled (system_react example_libs example_network) example_system
      ([Accepted 0 False (zeros, zeros)] @ client_events 0 1 (Plain ''foxy.net'') (zeros, zeros) example_exchanges) s \<and>
    length (sys_sessions s) = 2 \<and> cn_out (session_connection (sys_sessions s ! 1)) \<noteq> [] \<and>
    reaches session_enabled (session_react example_libs example_network)
      (session_start (new_session (Plain ''foxy.net'') a), accounts_world\<lparr>w_now := 5\<rparr>)
      (concat (map exchange_events example_exchanges)) (sys_sessions s ! 1, v')"
proof -
  let ?react = "system_react example_libs example_network" and ?e = "Accepted 0 False (zeros, zeros)"
    and ?kind = "Plain ''foxy.net''" and ?x = "(get_text ''/health'', [])" and ?xs = "[(example_post, ''abc'')]"
  obtain s1 where step: "?react example_system ?e = Inr (Some s1)" and s1: "sys_world s1 = accounts_world"
    "length (sys_sessions s1) = 1" "0 < length (sys_servers s1)" "sv_kind (sys_servers s1 ! 0) = ?kind"
    "server_ok (sys_servers s1 ! 0)" "cn_data (session_connection (sv_accepting (sys_servers s1 ! 0))) = zeros"
    using example_system_ok
    by (simp add: handle_accept_def start_accept_def example_system_def new_server_def new_session_def
        new_connection_def server_ok_def)
  have run1: "reaches system_enabled ?react example_system [?e] s1"
    by (rule reaches_one [where react = "?react", OF _ step]) (simp add: example_system_def)
  have ok: "exchanges_ok 0 (?x # ?xs)" using example_exchanges_ok by (simp only: example_exchanges_def)
  have "length (message ?x) < max_length" using ok by simp
  then have nul: "cn_data (session_connection (sv_accepting (sys_servers s1 ! 0))) ! length (message ?x) = NUL"
    unfolding s1(6) zeros_def by (rule nth_replicate)
  have world: "world_ok (sys_world s1)" by (simp add: s1)
  obtain rsps w' where serve: "serve_all (counted (kind_respond example_libs example_network ?kind) world_record)
      (sys_world s1) (map request_of (?x # ?xs)) = Inr (rsps, w')" and rsps: "rsps \<noteq> []"
    by (simp add: counted_def kind_respond_def del: request_of.simps)
  have zs: "length (fst (zeros, zeros)) = max_length" "length (snd (zeros, zeros)) = max_length" by simp_all
  obtain s cn' where run2: "reaches system_enabled ?react s1 (client_events 0 (length (sys_sessions s1)) ?kind (zeros, zeros) (?x # ?xs)) s"
    and sessions: "sys_sessions s = sys_sessions s1 @ [Session cn' ?kind]" and out: "cn_out cn' = map wire rsps"
    using client_run [OF s1(5,3) world s1(4) zs ok nul serve] by blast
  have run: "reaches system_enabled ?react example_system
      ([?e] @ client_events 0 1 ?kind (zeros, zeros) example_exchanges) s"
    using reaches_append [OF run2 run1] by (simp only: s1(2) example_exchanges_def)
  have ses: "sys_sessions s ! 1 = Session cn' ?kind" "length (sys_sessions s) = 2"
    using nth_append_length [of "sys_sessions s1" "Session cn' ?kind" "[]"] by (simp_all add: sessions s1(2))
  have own: "own 1 ([?e] @ client_events 0 1 ?kind (zeros, zeros) example_exchanges) = concat (map exchange_events example_exchanges)"
    by (simp add: client_events_def greeting_def own_completed)
  have sys: "sys_sessions example_system = []" "world_ok (sys_world example_system)" "sys_world example_system = accounts_world"
    by (simp_all add: example_system_def)
  have j: "1 < length (sys_sessions s)" by (simp add: ses(2))
  have steady: "steady_kind (session_kind (sys_sessions s ! 1))" unfolding ses(1) by simp
  have files: "w_files (accounts_world\<lparr>w_now := 5\<rparr>) = w_files (sys_world example_system)" by (simp add: sys)
  from sessions_isolated [OF example_system_ok sys(1,2) run j steady, unfolded own ses(1) session_kind.simps] files
  obtain a v' where "reaches session_enabled (session_react example_libs example_network)
      (session_start (new_session ?kind a), accounts_world\<lparr>w_now := 5\<rparr>)
      (concat (map exchange_events example_exchanges)) (Session cn' ?kind, v')"
    by blast
  with run ses out rsps show ?thesis
    by (intro exI [of _ s] exI [of _ a] exI [of _ v']) simp
qed

end
