(* ===== verification/Base64.thy ===== *)
theory Base64
  imports Foxy_Prelude Codec "HOL-Library.Word"
begin

text \<open>
  The base64 functions of jwt-cpp (\<open>src/include/jwt-cpp/base.h\<close>), with the alphabet and the padding as
  parameters, on 32-bit unsigned integers as in the code; and that decoding inverts encoding, with and
  without padding.
\<close>

section \<open>Alphabets\<close>

definition base64_common :: string where
  "base64_common = ''ABCDEFGHIJKLMNOPQRSTUVWXYZabcdefghijklmnopqrstuvwxyz0123456789''"

definition base64_data :: string where
  "base64_data = base64_common @ ''+/''"

definition base64_fill :: string where
  "base64_fill = ''=''"

definition base64url_data :: string where
  "base64url_data = base64_common @ ''-_''"

definition base64url_fill :: string where
  "base64url_fill = ''%3d''"

section \<open>Encoding\<close>

type_synonym uint32 = "32 word"

definition octet :: "char \<Rightarrow> uint32" where
  "octet c = word_of_nat (of_char c)"

definition octet_triple :: "uint32 \<Rightarrow> uint32 \<Rightarrow> uint32 \<Rightarrow> uint32" where
  "octet_triple a b c = push_bit 16 a + push_bit 8 b + c"

definition letter :: "string \<Rightarrow> uint32 \<Rightarrow> nat \<Rightarrow> char" where
  "letter alphabet triple k = alphabet ! unat (and (drop_bit (k * 6) triple) 0x3F)"

text \<open>The loop over complete triples, then one or two octets that are left.\<close>

fun base_encode :: "string \<Rightarrow> string \<Rightarrow> string \<Rightarrow> string" where
  "base_encode alphabet fill (a # b # c # bin) =
     (let triple = octet_triple (octet a) (octet b) (octet c)
      in letter alphabet triple 3 # letter alphabet triple 2 # letter alphabet triple 1 #
         letter alphabet triple 0 # base_encode alphabet fill bin)"
| "base_encode alphabet fill [a] =
     (let triple = octet_triple (octet a) 0 0
      in [letter alphabet triple 3, letter alphabet triple 2] @ fill @ fill)"
| "base_encode alphabet fill [a, b] =
     (let triple = octet_triple (octet a) (octet b) 0
      in [letter alphabet triple 3, letter alphabet triple 2, letter alphabet triple 1] @ fill)"
| "base_encode alphabet fill [] = []"

section \<open>Decoding\<close>

text \<open>The padding is counted and taken off; a third one is an error.\<close>

function strip_fill :: "string \<Rightarrow> nat \<Rightarrow> string \<Rightarrow> (nat \<times> string) outcome" where
  "strip_fill fill fill_cnt base =
     (if length fill < length base \<and> drop (length base - length fill) base = fill then
        (if fill_cnt + 1 > 2 then Inl StdRuntimeError
         else strip_fill fill (fill_cnt + 1) (take (length base - length fill) base))
      else Inr (fill_cnt, base))"
  by pat_completeness auto
termination
  by (relation "measure (\<lambda>(fill, fill_cnt, base). 3 - fill_cnt)") auto

declare strip_fill.simps [simp del]

fun index_from :: "nat \<Rightarrow> string \<Rightarrow> char \<Rightarrow> nat option" where
  "index_from i [] c = None"
| "index_from i (x # xs) c = (if x = c then Some i else index_from (Suc i) xs c)"

definition get_sextet :: "string \<Rightarrow> char \<Rightarrow> uint32 outcome" where
  "get_sextet alphabet c = (case index_from 0 alphabet c of
     None \<Rightarrow> Inl StdRuntimeError | Some i \<Rightarrow> Inr (word_of_nat i))"

definition sextet_triple :: "uint32 \<Rightarrow> uint32 \<Rightarrow> uint32 \<Rightarrow> uint32 \<Rightarrow> uint32" where
  "sextet_triple a b c d = push_bit 18 a + push_bit 12 b + push_bit 6 c + d"

definition byte :: "uint32 \<Rightarrow> nat \<Rightarrow> char" where
  "byte triple k = char_of (unat (and (drop_bit (k * 8) triple) 0xFF))"

text \<open>
  The loop over groups of four letters, then the last group when there is padding: without a third
  letter it gives one byte, with one it gives two.
\<close>

fun decode_letters :: "string \<Rightarrow> nat \<Rightarrow> string \<Rightarrow> string outcome" where
  "decode_letters alphabet fill_cnt (a # b # c # d # base) =
     and_then (get_sextet alphabet a) (\<lambda>a. and_then (get_sextet alphabet b) (\<lambda>b.
     and_then (get_sextet alphabet c) (\<lambda>c. and_then (get_sextet alphabet d) (\<lambda>d.
       let triple = sextet_triple a b c d in
       and_then (decode_letters alphabet fill_cnt base) (\<lambda>rest.
         Inr (byte triple 2 # byte triple 1 # byte triple 0 # rest))))))"
| "decode_letters alphabet fill_cnt [a, b, c] =
     (if fill_cnt = 0 then Inr []
      else and_then (get_sextet alphabet a) (\<lambda>a. and_then (get_sextet alphabet b) (\<lambda>b.
        let triple = push_bit 18 a + push_bit 12 b in
        if fill_cnt = 1 then
          and_then (get_sextet alphabet c) (\<lambda>c. let triple = or triple (push_bit 6 c) in
            Inr [byte triple 2, byte triple 1])
        else if fill_cnt = 2 then Inr [byte triple 2]
        else Inr [])))"
| "decode_letters alphabet fill_cnt [a, b] =
     (if fill_cnt = 0 then Inr []
      else and_then (get_sextet alphabet a) (\<lambda>a. and_then (get_sextet alphabet b) (\<lambda>b.
        let triple = push_bit 18 a + push_bit 12 b in
        if fill_cnt = 2 then Inr [byte triple 2] else Inl Undefined)))"
| "decode_letters alphabet fill_cnt _ = (if fill_cnt = 0 then Inr [] else Inl Undefined)"

definition base_decode :: "string \<Rightarrow> string \<Rightarrow> string \<Rightarrow> string outcome" where
  "base_decode alphabet fill base =
     and_then (strip_fill fill 0 base) (\<lambda>(fill_cnt, base).
       if (length base + fill_cnt) mod 4 \<noteq> 0 then Inl StdRuntimeError
       else decode_letters alphabet fill_cnt base)"

section \<open>Padding\<close>

definition base_pad :: "string \<Rightarrow> string \<Rightarrow> string" where
  "base_pad fill base =
     base @ (if length base mod 4 = 1 then fill @ fill @ fill
             else if length base mod 4 = 2 then fill @ fill
             else if length base mod 4 = 3 then fill else [])"

text \<open>\<open>base.substr(0, base.find(fill))\<close>\<close>

fun base_trim :: "string \<Rightarrow> string \<Rightarrow> string" where
  "base_trim fill [] = []"
| "base_trim fill (c # base) = (if starts_with (c # base) fill then [] else c # base_trim fill base)"

section \<open>Arithmetic of the groups\<close>

lemma octet_triple_nat:
  "octet_triple (word_of_nat a) (word_of_nat b) (word_of_nat c) = word_of_nat (65536 * a + 256 * b + c)"
  by (simp add: octet_triple_def push_bit_eq_mult)

lemma sextet_triple_nat:
  "sextet_triple (word_of_nat a) (word_of_nat b) (word_of_nat c) (word_of_nat d) =
     word_of_nat (262144 * a + 4096 * b + 64 * c + d)"
  by (simp add: sextet_triple_def push_bit_eq_mult)

lemma field_nat:
  assumes "n < 2 ^ 32"
  shows "unat (and (drop_bit k (word_of_nat n :: uint32)) (mask m)) = n div 2 ^ k mod 2 ^ m"
proof -
  have "unat (word_of_nat n :: uint32) = n" using assms by (simp add: unat_of_nat)
  moreover have "unat (and (drop_bit k w) (mask m)) = take_bit m (drop_bit k (unat w))" for w :: uint32
  proof -
    have "unat w < 2 ^ LENGTH(32)" by (rule unsigned_less)
    then show ?thesis
      by (simp add: unsigned_take_bit_eq unsigned_drop_bit_eq take_bit_nat_eq_self flip: take_bit_eq_mask)
  qed
  ultimately show ?thesis by (simp only:) (simp add: take_bit_eq_mod drop_bit_eq_div)
qed

lemma letter_nat:
  assumes "n < 2 ^ 32"
  shows "letter alphabet (word_of_nat n) k = alphabet ! (n div 64 ^ k mod 64)"
proof -
  have "(0x3F :: uint32) = mask 6" by (simp add: mask_eq_exp_minus_1)
  with field_nat [OF assms, of "k * 6" 6] show ?thesis by (simp add: letter_def power_mult [of 2 6] mult.commute [of k])
qed

lemma byte_nat:
  assumes "n < 2 ^ 32"
  shows "byte (word_of_nat n) k = char_of (n div 256 ^ k mod 256)"
proof -
  have "(0xFF :: uint32) = mask 8" by (simp add: mask_eq_exp_minus_1)
  with field_nat [OF assms, of "k * 8" 8] show ?thesis by (simp add: byte_def power_mult [of 2 8] mult.commute [of k])
qed


section \<open>Decoding inverts encoding\<close>

text \<open>An alphabet of 64 different letters, none of which starts the padding.\<close>

definition alphabet_ok :: "string \<Rightarrow> string \<Rightarrow> bool" where
  "alphabet_ok alphabet fill \<longleftrightarrow>
     length alphabet = 64 \<and> distinct alphabet \<and> fill \<noteq> [] \<and> hd fill \<notin> set alphabet \<and> length fill \<le> 3"

lemma index_from_nth:
  "distinct xs \<Longrightarrow> i < length xs \<Longrightarrow> index_from k xs (xs ! i) = Some (k + i)"
proof (induction xs arbitrary: i k)
  case Nil
  then show ?case by simp
next
  case (Cons x xs)
  show ?case
  proof (cases i)
    case 0
    then show ?thesis by simp
  next
    case (Suc j)
    with Cons.prems have "xs ! j \<noteq> x" using nth_mem by force
    with Suc Cons.prems Cons.IH [of j "Suc k"] show ?thesis by simp
  qed
qed

lemma get_sextet_letter:
  assumes "alphabet_ok alphabet fill" and "i < 64"
  shows "get_sextet alphabet (alphabet ! i) = Inr (word_of_nat i)"
  using assms index_from_nth [of alphabet i 0] by (simp add: get_sextet_def alphabet_ok_def)

text \<open>Three octets as four sextets and back.\<close>

lemma sextets_of_triple:
  fixes n :: nat
  assumes "n < 2 ^ 24"
  shows "262144 * (n div 262144 mod 64) + 4096 * (n div 4096 mod 64) + 64 * (n div 64 mod 64) + n mod 64 = n"
proof -
  have "n div 262144 mod 64 = n div 262144" using assms by simp
  moreover have "n div 4096 = 64 * (n div 262144) + n div 4096 mod 64"
    using div_mult2_eq [of n 4096 64] by simp
  moreover have "n div 64 = 64 * (n div 4096) + n div 64 mod 64"
    using div_mult2_eq [of n 64 64] by simp
  moreover have "64 * (n div 64) + n mod 64 = n" by (rule mult_div_mod_eq)
  ultimately show ?thesis by linarith
qed

lemma bytes_of_triple:
  fixes a b c :: nat
  assumes "a < 256" "b < 256" "c < 256"
  defines "n \<equiv> 65536 * a + 256 * b + c"
  shows "n < 2 ^ 24" "n div 65536 mod 256 = a" "n div 256 mod 256 = b" "n mod 256 = c"
proof -
  have n: "n = c + 256 * (256 * a + b)" by (simp add: n_def)
  have "n div 256 = 256 * a + b" using assms(3) by (simp add: n)
  moreover have "n mod 256 = c" using assms(3) by (simp only: n mod_mult_self2 mod_less)
  moreover have "n div 65536 = n div 256 div 256" by (simp flip: div_mult2_eq)
  ultimately show "n div 65536 mod 256 = a" "n div 256 mod 256 = b" "n mod 256 = c"
    using assms(1,2) by simp_all
  show "n < 2 ^ 24" using assms by (simp add: n_def)
qed

text \<open>
  The letters of a group denote its sextets, and the group of the sextets is the triple.
\<close>

lemma group_decodes:
  fixes a b c :: char
  assumes "alphabet_ok alphabet fill"
  defines "t \<equiv> octet_triple (octet a) (octet b) (octet c)"
  shows "\<exists>s3 s2 s1 s0. get_sextet alphabet (letter alphabet t 3) = Inr (word_of_nat s3) \<and>
    get_sextet alphabet (letter alphabet t 2) = Inr (word_of_nat s2) \<and>
    get_sextet alphabet (letter alphabet t 1) = Inr (word_of_nat s1) \<and>
    get_sextet alphabet (letter alphabet t 0) = Inr (word_of_nat s0) \<and>
    s3 < 64 \<and> s2 < 64 \<and> s1 < 64 \<and> s0 < 64 \<and>
    262144 * s3 + 4096 * s2 + 64 * s1 + s0 = 65536 * of_char a + 256 * of_char b + (of_char c :: nat)"
proof -
  define n :: nat where "n = 65536 * of_char a + 256 * of_char b + of_char c"
  have t: "t = word_of_nat n" by (simp add: t_def octet_def octet_triple_nat n_def)
  have n: "n < 2 ^ 24" unfolding n_def by (rule bytes_of_triple) simp_all
  then have "letter alphabet t k = alphabet ! (n div 64 ^ k mod 64)" for k
    unfolding t by (intro letter_nat) simp
  then have k: "get_sextet alphabet (letter alphabet t k) = Inr (word_of_nat (n div 64 ^ k mod 64))" for k
    using get_sextet_letter [OF assms(1)] by simp
  have "n div 64 ^ 3 mod 64 < 64" "n div 64 ^ 2 mod 64 < 64" "n div 64 ^ 1 mod 64 < 64" "n div 64 ^ 0 mod 64 < 64"
    by simp_all
  moreover have "262144 * (n div 64 ^ 3 mod 64) + 4096 * (n div 64 ^ 2 mod 64) + 64 * (n div 64 ^ 1 mod 64) +
      n div 64 ^ 0 mod 64 = n"
  proof -
    have "(64 :: nat) ^ 3 = 262144" "(64 :: nat) ^ 2 = 4096" "(64 :: nat) ^ 1 = 64" "(64 :: nat) ^ 0 = 1" by simp_all
    then show ?thesis by (simp only: div_by_1 sextets_of_triple [OF n])
  qed
  ultimately show ?thesis unfolding n_def [symmetric] using k by blast
qed

lemma bytes_decode:
  fixes a b c :: char
  defines "n \<equiv> 65536 * of_char a + 256 * of_char b + (of_char c :: nat)"
  shows "byte (word_of_nat n) 2 = a" "byte (word_of_nat n) 1 = b" "byte (word_of_nat n) 0 = c"
proof -
  have "n < 2 ^ 32" "n div 256 ^ 2 mod 256 = of_char a" "n div 256 ^ 1 mod 256 = of_char b"
    "n div 256 ^ 0 mod 256 = of_char c"
    using bytes_of_triple [of "of_char a" "of_char b" "of_char c"] by (simp_all add: n_def)
  note n = this
  show "byte (word_of_nat n) 2 = a" "byte (word_of_nat n) 1 = b" "byte (word_of_nat n) 0 = c"
    by (simp_all only: byte_nat [OF n(1)] n(2-4) char_of_char)
qed

text \<open>One group.\<close>

lemma decode_group:
  assumes "alphabet_ok alphabet fill"
  defines "t \<equiv> \<lambda>a b c. octet_triple (octet a) (octet b) (octet c)"
  shows "decode_letters alphabet k (letter alphabet (t a b c) 3 # letter alphabet (t a b c) 2 #
      letter alphabet (t a b c) 1 # letter alphabet (t a b c) 0 # base) =
    and_then (decode_letters alphabet k base) (\<lambda>rest. Inr (a # b # c # rest))"
proof -
  obtain s3 s2 s1 s0 where s: "get_sextet alphabet (letter alphabet (t a b c) 3) = Inr (word_of_nat s3)"
    "get_sextet alphabet (letter alphabet (t a b c) 2) = Inr (word_of_nat s2)"
    "get_sextet alphabet (letter alphabet (t a b c) 1) = Inr (word_of_nat s1)"
    "get_sextet alphabet (letter alphabet (t a b c) 0) = Inr (word_of_nat s0)"
    and sum: "262144 * s3 + 4096 * s2 + 64 * s1 + s0 = 65536 * of_char a + 256 * of_char b + (of_char c :: nat)"
    using group_decodes [OF assms(1), of a b c] unfolding t_def by blast
  show ?thesis
    by (simp add: s sextet_triple_nat Let_def sum bytes_decode del: One_nat_def of_nat_add of_nat_mult)
qed


text \<open>The letters of an encoding, without its padding; the padding has its last two cases.\<close>

definition fill_count :: "string \<Rightarrow> nat" where
  "fill_count bin = (if length bin mod 3 = 1 then 2 else if length bin mod 3 = 2 then 1 else 0)"

definition fills :: "nat \<Rightarrow> string \<Rightarrow> string" where
  "fills k fill = concat (replicate k fill)"

lemma fills_simps [simp]: "fills 0 fill = []" "fills (Suc k) fill = fill @ fills k fill"
  by (simp_all add: fills_def)

text \<open>Every encoding is letters of the alphabet, as many as make full groups with the padding.\<close>

lemma letter_in:
  assumes "alphabet_ok alphabet fill"
  shows "letter alphabet t k \<in> set alphabet"
proof -
  have "unat (and (drop_bit (k * 6) t) 0x3F) < 64"
  proof -
    have "(0x3F :: uint32) = mask 6" by (simp add: mask_eq_exp_minus_1)
    then have "unat (and (drop_bit (k * 6) t) 0x3F) = take_bit 6 (unat (drop_bit (k * 6) t))"
      by (simp only: flip: take_bit_eq_mask) (rule unsigned_take_bit_eq)
    also have "\<dots> < 2 ^ 6" by (rule take_bit_nat_less_exp)
    finally show ?thesis by simp
  qed
  then show ?thesis using assms by (simp add: letter_def alphabet_ok_def)
qed

lemma word_zero: "(0 :: uint32) = octet NUL"
  by (simp add: octet_def)

lemma remainder_zero:
  fixes m x y z :: nat
  assumes "m * x + y = m * z" and "y < m"
  shows "y = 0"
proof -
  have "y = (m * x + y) mod m" using assms(2) by simp
  also have "\<dots> = 0" by (simp add: assms(1))
  finally show ?thesis .
qed

lemma decode_two:
  fixes a b :: char
  assumes "alphabet_ok alphabet fill"
  defines "t \<equiv> octet_triple (octet a) 0 0"
  shows "decode_letters alphabet 2 [letter alphabet t 3, letter alphabet t 2] = Inr [a]"
proof -
  obtain s3 s2 s1 s0 where s: "get_sextet alphabet (letter alphabet t 3) = Inr (word_of_nat s3)"
    "get_sextet alphabet (letter alphabet t 2) = Inr (word_of_nat s2)" and less: "s1 < 64" "s0 < 64"
    and sum: "262144 * s3 + 4096 * s2 + 64 * s1 + s0 = 65536 * of_char a + 256 * of_char NUL + (of_char NUL :: nat)"
    using group_decodes [OF assms(1), of a NUL NUL] unfolding t_def word_zero by blast
  have "4096 * (64 * s3 + s2) + (64 * s1 + s0) = 4096 * (16 * of_char a)" using sum by simp
  moreover have "64 * s1 + s0 < 4096" using less by simp
  ultimately have "64 * s1 + s0 = 0" by (rule remainder_zero)
  with sum have n: "262144 * s3 + 4096 * s2 = 65536 * of_char a + 256 * of_char NUL + (of_char NUL :: nat)" by simp
  have "push_bit 18 (word_of_nat s3) + push_bit 12 (word_of_nat s2) = (word_of_nat (262144 * s3 + 4096 * s2) :: uint32)"
    by (simp add: push_bit_eq_mult)
  then have byte: "byte (push_bit 18 (word_of_nat s3) + push_bit 12 (word_of_nat s2)) 2 = a"
    by (simp only: n bytes_decode)
  show ?thesis by (simp add: s byte)
qed

lemma decode_three:
  fixes a b :: char
  assumes "alphabet_ok alphabet fill"
  defines "t \<equiv> octet_triple (octet a) (octet b) 0"
  shows "decode_letters alphabet 1 [letter alphabet t 3, letter alphabet t 2, letter alphabet t 1] = Inr [a, b]"
proof -
  obtain s3 s2 s1 s0 where s: "get_sextet alphabet (letter alphabet t 3) = Inr (word_of_nat s3)"
    "get_sextet alphabet (letter alphabet t 2) = Inr (word_of_nat s2)"
    "get_sextet alphabet (letter alphabet t 1) = Inr (word_of_nat s1)" and less: "s1 < 64" "s0 < 64"
    and sum: "262144 * s3 + 4096 * s2 + 64 * s1 + s0 = 65536 * of_char a + 256 * of_char b + (of_char NUL :: nat)"
    using group_decodes [OF assms(1), of a b NUL] unfolding t_def word_zero by blast
  have "64 * (4096 * s3 + 64 * s2 + s1) + s0 = 64 * (1024 * of_char a + 4 * of_char b)" using sum by simp
  from this less(2) have "s0 = 0" by (rule remainder_zero)
  with sum have n: "262144 * s3 + 4096 * s2 + 64 * s1 = 65536 * of_char a + 256 * of_char b + (of_char NUL :: nat)" by simp
  let ?high = "push_bit 18 (word_of_nat s3) + push_bit 12 (word_of_nat s2) :: uint32"
  have high: "?high = push_bit 12 (word_of_nat (64 * s3 + s2))" by (simp add: push_bit_eq_mult algebra_simps)
  have low: "(word_of_nat s1 :: uint32) = take_bit 6 (word_of_nat s1)"
  proof -
    have "take_bit 6 s1 = s1" using less(1) by (intro take_bit_nat_eq_self) simp
    then show ?thesis by (simp only: take_bit_of_nat)
  qed
  have "or ?high (push_bit 6 (word_of_nat s1)) = ?high + push_bit 6 (word_of_nat s1)"
    unfolding high by (subst low, subst (2) low)
      (rule disjunctive_add [symmetric], auto simp: bit_push_bit_iff bit_take_bit_iff)
  also have "\<dots> = word_of_nat (262144 * s3 + 4096 * s2 + 64 * s1)" by (simp add: push_bit_eq_mult)
  finally have "byte (or ?high (push_bit 6 (word_of_nat s1))) 2 = a" "byte (or ?high (push_bit 6 (word_of_nat s1))) 1 = b"
    by (simp_all only: n bytes_decode)
  then show ?thesis by (simp add: s del: One_nat_def)
qed

lemma base_encode_letters:
  "alphabet_ok alphabet fill \<Longrightarrow>
   \<exists>ls. base_encode alphabet fill bin = ls @ fills (fill_count bin) fill \<and> set ls \<subseteq> set alphabet \<and>
     (length ls + fill_count bin) mod 4 = 0 \<and> decode_letters alphabet (fill_count bin) ls = Inr bin"
proof (induction alphabet fill bin rule: base_encode.induct)
  case (1 alphabet fill a b c bin)
  then obtain ls where ls: "base_encode alphabet fill bin = ls @ fills (fill_count bin) fill" "set ls \<subseteq> set alphabet"
    "(length ls + fill_count bin) mod 4 = 0" "decode_letters alphabet (fill_count bin) ls = Inr bin"
    by auto
  let ?t = "octet_triple (octet a) (octet b) (octet c)"
  let ?ls = "letter alphabet ?t 3 # letter alphabet ?t 2 # letter alphabet ?t 1 # letter alphabet ?t 0 # ls"
  have "fill_count (a # b # c # bin) = fill_count bin" by (simp add: fill_count_def mod_Suc)
  then show ?case
    using ls letter_in [OF "1.prems"] decode_group [OF "1.prems", of "fill_count bin" a b c ls]
    by (intro exI [of _ ?ls]) (simp add: Let_def mod_Suc)
next
  case (2 alphabet fill a)
  let ?t = "octet_triple (octet a) 0 0"
  have "fill_count [a] = 2" by (simp add: fill_count_def)
  then show ?case
    using letter_in [OF "2.prems"] decode_two [OF "2.prems", of a]
    by (intro exI [of _ "[letter alphabet ?t 3, letter alphabet ?t 2]"])
      (simp add: Let_def numeral_2_eq_2 del: decode_letters.simps)
next
  case (3 alphabet fill a b)
  let ?t = "octet_triple (octet a) (octet b) 0"
  have "fill_count [a, b] = 1" by (simp add: fill_count_def)
  then show ?case
    using letter_in [OF "3.prems"] decode_three [OF "3.prems", of a b]
    by (intro exI [of _ "[letter alphabet ?t 3, letter alphabet ?t 2, letter alphabet ?t 1]"])
      (simp add: Let_def del: decode_letters.simps)
next
  case (4 alphabet fill)
  then show ?case by (intro exI [of _ "[]"]) (simp add: fill_count_def)
qed


section \<open>Padding is recovered\<close>

lemma fills_commute: "fill @ fills k fill = fills k fill @ fill"
  by (induction k) simp_all

lemma strip_fill_letters:
  assumes "fill \<noteq> []" and "hd fill \<notin> set ls"
  shows "n + k \<le> 2 \<Longrightarrow> (0 < k \<longrightarrow> ls \<noteq> []) \<Longrightarrow> strip_fill fill n (ls @ fills k fill) = Inr (n + k, ls)"
proof (induction k arbitrary: n)
  case 0
  have "drop (length ls - length fill) ls \<noteq> fill"
  proof
    assume "drop (length ls - length fill) ls = fill"
    with assms(1) have "hd fill \<in> set ls" by (metis hd_in_set in_set_dropD)
    with assms(2) show False ..
  qed
  then show ?case by (simp add: strip_fill.simps)
next
  case (Suc k)
  have e: "ls @ fills (Suc k) fill = (ls @ fills k fill) @ fill" by (simp add: fills_commute)
  have "0 < length ls" using Suc.prems(2) by simp
  with Suc.prems(1) Suc.IH [of "n + 1"] Suc.prems(2) show ?case
    unfolding e by (subst strip_fill.simps) simp
qed

lemma trim_letters:
  assumes "fill \<noteq> []" and "hd fill \<notin> set ls"
  shows "base_trim fill (ls @ fills k fill) = ls"
  using assms(2)
proof (induction ls)
  case Nil
  show ?case
  proof (cases k)
    case (Suc j)
    with assms(1) show ?thesis by (cases fill) (simp_all add: starts_with_def)
  qed simp
next
  case (Cons c ls)
  then have "\<not> starts_with (c # ls @ fills k fill) fill"
    using assms(1) by (cases fill) (auto simp: starts_with_def)
  with Cons show ?case by simp
qed

lemma pad_letters:
  assumes "(length ls + k) mod 4 = 0" and "k \<le> 2"
  shows "base_pad fill ls = ls @ fills k fill"
proof -
  have "k = 0 \<or> k = 1 \<or> k = 2" using assms(2) by auto
  then show ?thesis
  proof (elim disjE)
    assume k: "k = 1"
    with assms(1) have "length ls mod 4 = 3" by presburger
    with k show ?thesis by (simp add: base_pad_def)
  next
    assume k: "k = 2"
    with assms(1) have "length ls mod 4 = 2" by presburger
    with k show ?thesis by (simp add: base_pad_def numeral_2_eq_2)
  qed (use assms(1) in \<open>simp add: base_pad_def\<close>)
qed

lemma base_encode_cases:
  assumes "alphabet_ok alphabet fill"
  obtains ls k where "base_encode alphabet fill bin = ls @ fills k fill" and "set ls \<subseteq> set alphabet"
    and "k \<le> 2" and "(length ls + k) mod 4 = 0" and "decode_letters alphabet k ls = Inr bin"
    and "strip_fill fill 0 (ls @ fills k fill) = Inr (k, ls)" and "hd fill \<notin> set ls" and "fill \<noteq> []"
proof -
  obtain ls where ls: "base_encode alphabet fill bin = ls @ fills (fill_count bin) fill" "set ls \<subseteq> set alphabet"
    "(length ls + fill_count bin) mod 4 = 0" "decode_letters alphabet (fill_count bin) ls = Inr bin"
    using base_encode_letters [OF assms, of bin] by auto
  have k: "fill_count bin \<le> 2" by (simp add: fill_count_def)
  have nonempty: "0 < fill_count bin \<longrightarrow> ls \<noteq> []"
    using ls(3) k by (cases "fill_count bin = 1") auto
  have fill: "hd fill \<notin> set ls" "fill \<noteq> []" using assms ls(2) by (auto simp: alphabet_ok_def)
  show ?thesis
    by (rule that [OF ls(1,2) k ls(3,4) _ fill])
      (use strip_fill_letters [OF fill(2,1), of 0 "fill_count bin"] k nonempty in simp)
qed

lemma base_decode_encode:
  assumes "alphabet_ok alphabet fill"
  shows "base_decode alphabet fill (base_encode alphabet fill bin) = Inr bin"
proof -
  obtain ls k where ls: "base_encode alphabet fill bin = ls @ fills k fill" "(length ls + k) mod 4 = 0"
    "decode_letters alphabet k ls = Inr bin" "strip_fill fill 0 (ls @ fills k fill) = Inr (k, ls)"
    by (rule base_encode_cases [OF assms])
  then show ?thesis by (simp add: base_decode_def)
qed

lemma base_decode_trimmed:
  assumes "alphabet_ok alphabet fill"
  shows "base_decode alphabet fill (base_pad fill (base_trim fill (base_encode alphabet fill bin))) = Inr bin \<and>
    set (base_trim fill (base_encode alphabet fill bin)) \<subseteq> set alphabet"
proof -
  obtain ls k where ls: "base_encode alphabet fill bin = ls @ fills k fill" "set ls \<subseteq> set alphabet" "k \<le> 2"
    "(length ls + k) mod 4 = 0" "decode_letters alphabet k ls = Inr bin"
    "strip_fill fill 0 (ls @ fills k fill) = Inr (k, ls)" "hd fill \<notin> set ls" "fill \<noteq> []"
    by (rule base_encode_cases [OF assms])
  have "base_trim fill (base_encode alphabet fill bin) = ls" unfolding ls(1) by (rule trim_letters [OF ls(8,7)])
  with ls show ?thesis by (simp add: base_decode_def pad_letters)
qed

section \<open>The two alphabets\<close>

lemma base64_ok: "alphabet_ok base64_data base64_fill"
  by code_simp

lemma base64url_ok: "alphabet_ok base64url_data base64url_fill"
  by code_simp

text \<open>A part of a token: encoded, with the padding cut off; and back.\<close>

definition encode_part :: "string \<Rightarrow> string" where
  "encode_part data = base_trim base64url_fill (base_encode base64url_data base64url_fill data)"

definition decode_part :: "string \<Rightarrow> string outcome" where
  "decode_part data = base_decode base64url_data base64url_fill (base_pad base64url_fill data)"

lemma decode_encode_part [simp]: "decode_part (encode_part data) = Inr data"
  using base_decode_trimmed [OF base64url_ok] by (simp add: decode_part_def encode_part_def)

lemma encode_part_letters: "set (encode_part data) \<subseteq> set base64url_data"
  using base_decode_trimmed [OF base64url_ok] by (simp add: encode_part_def)

interpretation token_part: codec encode_part "\<lambda>t. case decode_part t of Inl e \<Rightarrow> None | Inr s \<Rightarrow> Some s" "\<lambda>_. True"
  by unfold_locales (simp_all split: sum.splits)

section \<open>Decoding is defined on every text\<close>

lemma strip_fill_cnt:
  "strip_fill fill n base = Inr (cnt, ls) \<Longrightarrow> n \<le> 2 \<Longrightarrow> cnt \<le> 2"
proof (induction fill n base rule: strip_fill.induct)
  case (1 fill n base)
  show ?case
  proof (cases "length fill < length base \<and> drop (length base - length fill) base = fill \<and> n + 1 \<le> 2")
    case True
    with "1.prems" have "strip_fill fill (n + 1) (take (length base - length fill) base) = Inr (cnt, ls)"
      by (subst (asm) strip_fill.simps) simp
    with "1.IH" True show ?thesis by simp
  next
    case False
    with "1.prems" show ?thesis by (subst (asm) strip_fill.simps) (auto split: if_splits)
  qed
qed

lemma strip_fill_error: "strip_fill fill n base = Inl e \<Longrightarrow> e = StdRuntimeError"
proof (induction fill n base rule: strip_fill.induct)
  case (1 fill n base)
  then show ?case by (subst (asm) strip_fill.simps) (auto split: if_splits)
qed

lemma get_sextet_error: "get_sextet alphabet c = Inl e \<Longrightarrow> e = StdRuntimeError"
  by (auto simp: get_sextet_def split: option.splits)

lemma one_letter: "k \<le> 2 \<Longrightarrow> Suc k mod 4 \<noteq> 0"
  by presburger

lemma decode_letters_error:
  "decode_letters alphabet cnt ls = Inl e \<Longrightarrow> (length ls + cnt) mod 4 = 0 \<Longrightarrow> cnt \<le> 2 \<Longrightarrow> e = StdRuntimeError"
proof (induction alphabet cnt ls rule: decode_letters.induct)
  case (1 alphabet cnt a b c d base)
  have "(length base + cnt) mod 4 = 0" using "1.prems"(2) by simp
  with 1 show ?case by (auto simp: and_then_Inl_iff Let_def dest: get_sextet_error)
next
  case (2 alphabet cnt a b c)
  then have "(3 + cnt) mod 4 = 0" "cnt \<le> 2" by simp_all
  then have "cnt = 1" by presburger
  with 2 show ?case by (auto simp: and_then_Inl_iff Let_def dest: get_sextet_error)
next
  case (3 alphabet cnt a b)
  then have "(2 + cnt) mod 4 = 0" "cnt \<le> 2" by simp_all
  then have "cnt = 2" by presburger
  with 3 show ?case by (auto simp: and_then_Inl_iff Let_def dest: get_sextet_error)
qed (use one_letter in \<open>auto split: if_splits\<close>)

lemma base_decode_error:
  assumes "base_decode alphabet fill base = Inl e"
  shows "e = StdRuntimeError"
proof (cases "strip_fill fill 0 base")
  case (Inl e')
  with assms strip_fill_error show ?thesis by (simp add: base_decode_def)
next
  case (Inr x)
  obtain cnt ls where x: "x = (cnt, ls)" by force
  have "cnt \<le> 2" using strip_fill_cnt [of fill 0 base cnt ls] Inr x by simp
  with assms Inr x decode_letters_error [of alphabet cnt ls e] show ?thesis
    by (simp add: base_decode_def split: if_splits)
qed

lemma decode_part_error: "decode_part data = Inl e \<Longrightarrow> e = StdRuntimeError"
  by (simp add: decode_part_def base_decode_error)

section \<open>Properties\<close>

text \<open>
  C27: base64 round trips, for every byte string and both alphabets: decoding gives back what was
  encoded; for tokens also when the padding is cut off before and restored after.
\<close>

theorem base64_roundtrip:
  "base_decode base64_data base64_fill (base_encode base64_data base64_fill bin) = Inr bin \<and>
   base_decode base64url_data base64url_fill (base_encode base64url_data base64url_fill bin) = Inr bin \<and>
   base_decode base64url_data base64url_fill
     (base_pad base64url_fill (base_trim base64url_fill (base_encode base64url_data base64url_fill bin))) = Inr bin"
  by (simp add: base_decode_encode [OF base64_ok] base_decode_encode [OF base64url_ok]
      base_decode_trimmed [OF base64url_ok])

end
