(* ===== verification/Json.thy ===== *)
theory Json
  imports Cpp_Map Codec
begin

text \<open>
  picojson (\<open>src/include/picojson/picojson.h\<close>): JSON values, serialisation, and the parser with its
  input class, which jwt-cpp uses for the parts of a token.  Conversions between floating point
  numbers and text are the C library's (\<open>strtod\<close>, \<open>snprintf\<close>) and are a parameter.  Proved here:
  the parser always ends, and it inverts the serialisation.
\<close>

section \<open>Values\<close>

datatype 'n json =
    JNull | JBool bool | JNumber 'n | JInt64 int | JString string
  | JArray "'n json list" | JObject "(string \<times> 'n json) list"

text \<open>
  \<open>fl_strtod s\<close> is the number and how many characters were used; \<open>fl_print\<close> is the format of
  \<open>to_str\<close>, in the C locale.
\<close>

record 'n floats =
  fl_strtod :: "string \<Rightarrow> 'n \<times> nat"
  fl_print :: "'n \<Rightarrow> string"
  fl_finite :: "'n \<Rightarrow> bool"
  fl_zero :: "'n \<Rightarrow> bool"
  fl_equal :: "'n \<Rightarrow> 'n \<Rightarrow> bool"

fun evaluate_as_boolean :: "'n floats \<Rightarrow> 'n json \<Rightarrow> bool" where
  "evaluate_as_boolean fl JNull = False"
| "evaluate_as_boolean fl (JBool b) = b"
| "evaluate_as_boolean fl (JNumber x) = (\<not> fl_zero fl x)"
| "evaluate_as_boolean fl (JInt64 n) = (n \<noteq> 0)"
| "evaluate_as_boolean fl (JString s) = (s \<noteq> [])"
| "evaluate_as_boolean fl v = True"

text \<open>Elements and members; a missing one is the null value, a wrong type throws.\<close>

definition get_element :: "nat \<Rightarrow> 'n json \<Rightarrow> 'n json outcome" where
  "get_element idx v = (case v of
     JArray vs \<Rightarrow> Inr (if idx < length vs then vs ! idx else JNull) | _ \<Rightarrow> Inl StdRuntimeError)"

definition get_member :: "string \<Rightarrow> 'n json \<Rightarrow> 'n json outcome" where
  "get_member key v = (case v of
     JObject m \<Rightarrow> Inr (or_default JNull (smap_find m key)) | _ \<Rightarrow> Inl StdRuntimeError)"

definition contains_element :: "nat \<Rightarrow> 'n json \<Rightarrow> bool outcome" where
  "contains_element idx v = (case v of JArray vs \<Rightarrow> Inr (idx < length vs) | _ \<Rightarrow> Inl StdRuntimeError)"

definition contains_member :: "string \<Rightarrow> 'n json \<Rightarrow> bool outcome" where
  "contains_member key v = (case v of JObject m \<Rightarrow> Inr (smap_find m key \<noteq> None) | _ \<Rightarrow> Inl StdRuntimeError)"

section \<open>Serialisation\<close>

fun to_str :: "'n floats \<Rightarrow> 'n json \<Rightarrow> string" where
  "to_str fl JNull = ''null''"
| "to_str fl (JBool b) = (if b then ''true'' else ''false'')"
| "to_str fl (JInt64 n) = int_to_string n"
| "to_str fl (JNumber x) = fl_print fl x"
| "to_str fl (JString s) = s"
| "to_str fl (JArray vs) = ''array''"
| "to_str fl (JObject m) = ''object''"

abbreviation (input) BACKSLASH :: char where "BACKSLASH \<equiv> CHR 0x5C"

definition hex_digit :: "nat \<Rightarrow> char" where
  "hex_digit d = (if d < 10 then char_of (48 + d) else char_of (87 + d))"

definition serialize_str_char :: "char \<Rightarrow> string" where
  "serialize_str_char c =
     (if c = DQUOTE then [BACKSLASH, DQUOTE]
      else if c = BACKSLASH then [BACKSLASH, BACKSLASH]
      else if c = SLASH then [BACKSLASH, SLASH]
      else if c = CHR 0x08 then [BACKSLASH, CHR ''b'']
      else if c = CHR 0x0C then [BACKSLASH, CHR ''f'']
      else if c = LF then [BACKSLASH, CHR ''n'']
      else if c = CR then [BACKSLASH, CHR ''r'']
      else if c = HT then [BACKSLASH, CHR ''t'']
      else let n = of_char c :: nat in
        if n < 0x20 \<or> c = CHR 0x7F
        then [BACKSLASH, CHR ''u'', CHR ''0'', CHR ''0'', hex_digit (n div 16), hex_digit (n mod 16)]
        else [c])"

definition serialize_str :: "string \<Rightarrow> string" where
  "serialize_str s = DQUOTE # concat (map serialize_str_char s) @ [DQUOTE]"

definition indent_to :: "int \<Rightarrow> string" where
  "indent_to indent = LF # replicate (nat (indent * 2)) SP"

fun with_commas :: "string list \<Rightarrow> string" where
  "with_commas [] = []"
| "with_commas [x] = x"
| "with_commas (x # xs) = x @ CHR '','' # with_commas xs"

text \<open>\<open>indent\<close> is -1 for the compact form.\<close>

fun serialize_at :: "'n floats \<Rightarrow> int \<Rightarrow> 'n json \<Rightarrow> string" where
  "serialize_at fl indent (JString s) = serialize_str s @ (if indent = 0 then [LF] else [])"
| "serialize_at fl indent (JArray vs) =
     (let inner = (if indent \<noteq> -1 then indent + 1 else indent);
          sep = (if inner \<noteq> -1 then indent_to inner else [])
      in CHR ''['' # with_commas (map (\<lambda>v. sep @ serialize_at fl inner v) vs) @
         (if indent \<noteq> -1 \<and> vs \<noteq> [] then indent_to indent else []) @ CHR '']'' #
         (if indent = 0 then [LF] else []))"
| "serialize_at fl indent (JObject m) =
     (let inner = (if indent \<noteq> -1 then indent + 1 else indent);
          sep = (if inner \<noteq> -1 then indent_to inner else []);
          gap = (if inner \<noteq> -1 then [SP] else [])
      in CHR ''{'' # with_commas (map (\<lambda>(k, v). sep @ serialize_str k @ CHR '':'' # gap @ serialize_at fl inner v) m) @
         (if indent \<noteq> -1 \<and> m \<noteq> [] then indent_to indent else []) @ CHR ''}'' #
         (if indent = 0 then [LF] else []))"
| "serialize_at fl indent v = to_str fl v @ (if indent = 0 then [LF] else [])"

definition serialize :: "'n floats \<Rightarrow> bool \<Rightarrow> 'n json \<Rightarrow> string" where
  "serialize fl prettify v = serialize_at fl (if prettify then 0 else -1) v"

section \<open>Input\<close>

text \<open>\<open>cur\<close> is the text from \<open>cur_\<close> to \<open>end_\<close>; a character that was read is passed over by the next read.\<close>

record input =
  cur :: string
  consumed :: bool
  line :: int

definition new_input :: "string \<Rightarrow> input" where
  "new_input s = \<lparr>cur = s, consumed = False, line = 1\<rparr>"

definition getc :: "input \<Rightarrow> int \<times> input" where
  "getc i =
     (let i = (if consumed i
               then i\<lparr>cur := tl (cur i), line := (if hd (cur i) = LF then line i + 1 else line i)\<rparr> else i)
      in case cur i of
           [] \<Rightarrow> (-1, i\<lparr>consumed := False\<rparr>)
         | c # cs \<Rightarrow> (int (of_char c), i\<lparr>consumed := True\<rparr>))"

definition ungetc :: "input \<Rightarrow> input" where
  "ungetc i = i\<lparr>consumed := False\<rparr>"

text \<open>What is still to be read.\<close>

definition rest :: "input \<Rightarrow> string" where
  "rest i = (if consumed i then tl (cur i) else cur i)"

lemma rest_new [simp]: "rest (new_input s) = s"
  by (simp add: rest_def new_input_def)

lemma fst_getc: "fst (getc i) = (case rest i of [] \<Rightarrow> -1 | c # cs \<Rightarrow> int (of_char c))"
  by (simp add: getc_def rest_def Let_def split: list.split)

lemma rest_getc [simp]: "rest (snd (getc i)) = tl (rest i)"
  by (simp add: getc_def rest_def Let_def split: list.split)

lemma rest_ungetc_getc [simp]: "rest (ungetc (snd (getc i))) = rest i"
  by (simp add: getc_def rest_def ungetc_def Let_def split: list.split)

lemma getc_eof [simp]: "fst (getc i) = -1 \<longleftrightarrow> rest i = []"
  by (simp add: fst_getc split: list.split)

lemma getc_progress: "(ch, i') = getc i \<Longrightarrow> 0 \<le> ch \<Longrightarrow> length (rest i') < length (rest i)"
  by (cases "rest i") (auto simp: fst_getc prod_eq_iff)

lemma getc_progress_eof: "(ch, i') = getc i \<Longrightarrow> ch \<noteq> -1 \<Longrightarrow> length (rest i') < length (rest i)"
  by (cases "rest i") (auto simp: fst_getc prod_eq_iff)

function skip_ws :: "input \<Rightarrow> input" where
  "skip_ws i = (case getc i of (ch, i') \<Rightarrow> if ch \<in> {32, 9, 10, 13} then skip_ws i' else ungetc i')"
  by pat_completeness auto
termination
  by (relation "measure (length \<circ> rest)") (auto dest!: getc_progress)

declare skip_ws.simps [simp del]

definition expect :: "int \<Rightarrow> input \<Rightarrow> bool \<times> input" where
  "expect expected i = (case getc (skip_ws i) of (ch, i) \<Rightarrow>
     if ch \<noteq> expected then (False, ungetc i) else (True, i))"

fun match_text :: "string \<Rightarrow> input \<Rightarrow> bool \<times> input" where
  "match_text [] i = (True, i)"
| "match_text (p # ps) i = (case getc i of (ch, i) \<Rightarrow>
     if ch \<noteq> int (of_char p) then (False, ungetc i) else match_text ps i)"

declare match_text.simps [simp del]

section \<open>Strings\<close>

fun parse_quadhex :: "nat \<Rightarrow> int \<Rightarrow> input \<Rightarrow> int \<times> input" where
  "parse_quadhex 0 uni_ch i = (uni_ch, i)"
| "parse_quadhex (Suc k) uni_ch i = (case getc i of (hex, i) \<Rightarrow>
     if hex = -1 then (-1, i)
     else if 48 \<le> hex \<and> hex \<le> 57 then parse_quadhex k (uni_ch * 16 + (hex - 48)) i
     else if 65 \<le> hex \<and> hex \<le> 70 then parse_quadhex k (uni_ch * 16 + (hex - 55)) i
     else if 97 \<le> hex \<and> hex \<le> 102 then parse_quadhex k (uni_ch * 16 + (hex - 87)) i
     else (-1, ungetc i))"

definition char_cast_int :: "int \<Rightarrow> char" where
  "char_cast_int n = char_of (nat (n mod 256))"

text \<open>The bytes that are pushed for a code point.\<close>

definition utf8_bytes :: "int \<Rightarrow> string" where
  "utf8_bytes u =
     (if u < 0x80 then [char_cast_int u]
      else if u < 0x800 then [char_cast_int (or 0xC0 (drop_bit 6 u)), char_cast_int (or 0x80 (and u 0x3F))]
      else if u < 0x10000 then [char_cast_int (or 0xE0 (drop_bit 12 u)),
        char_cast_int (or 0x80 (and (drop_bit 6 u) 0x3F)), char_cast_int (or 0x80 (and u 0x3F))]
      else [char_cast_int (or 0xF0 (drop_bit 18 u)), char_cast_int (or 0x80 (and (drop_bit 12 u) 0x3F)),
        char_cast_int (or 0x80 (and (drop_bit 6 u) 0x3F)), char_cast_int (or 0x80 (and u 0x3F))])"

definition parse_codepoint :: "string \<Rightarrow> input \<Rightarrow> bool \<times> string \<times> input" where
  "parse_codepoint out i = (case parse_quadhex 4 0 i of (u, i) \<Rightarrow>
     if u = -1 then (False, out, i)
     else if 0xD800 \<le> u \<and> u \<le> 0xDFFF then
       (if 0xDC00 \<le> u then (False, out, i)
        else case getc i of (c1, i) \<Rightarrow>
          if c1 \<noteq> 92 then (False, out, ungetc i)
          else case getc i of (c2, i) \<Rightarrow>
            if c2 \<noteq> 117 then (False, out, ungetc i)
            else case parse_quadhex 4 0 i of (u2, i) \<Rightarrow>
              if \<not> (0xDC00 \<le> u2 \<and> u2 \<le> 0xDFFF) then (False, out, i)
              else (True, out @ utf8_bytes
                (or (push_bit 10 (u - 0xD800)) (and (u2 - 0xDC00) 0x3FF) + 0x10000), i))
     else (True, out @ utf8_bytes u, i))"

definition simple_escape :: "int \<Rightarrow> char option" where
  "simple_escape ch =
     (if ch = 34 then Some DQUOTE else if ch = 92 then Some BACKSLASH else if ch = 47 then Some SLASH
      else if ch = 98 then Some (CHR 0x08) else if ch = 102 then Some (CHR 0x0C)
      else if ch = 110 then Some LF else if ch = 114 then Some CR else if ch = 116 then Some HT else None)"

lemma rest_quadhex: "length (rest (snd (parse_quadhex k u i))) \<le> length (rest i)"
proof (induction k arbitrary: u i)
  case (Suc k)
  have "length (rest (snd (parse_quadhex k u (snd (getc i))))) \<le> length (rest i)" for u
    by (rule order_trans [OF Suc]) simp
  then show ?case by (simp add: case_prod_beta)
qed simp

lemma rest_codepoint: "length (rest (snd (snd (parse_codepoint out i)))) \<le> length (rest i)"
proof -
  let ?i1 = "snd (parse_quadhex 4 0 i)"
  let ?i3 = "snd (getc (snd (getc ?i1)))"
  have "length (rest ?i1) \<le> length (rest i)" by (rule rest_quadhex)
  moreover have "length (rest (snd (parse_quadhex 4 0 ?i3))) \<le> length (rest ?i3)" by (rule rest_quadhex)
  ultimately show ?thesis by (auto simp: parse_codepoint_def case_prod_beta)
qed

lemma codepoint_progress:
  "(found, out', i') = parse_codepoint out i \<Longrightarrow> length (rest i') \<le> length (rest i)"
  using rest_codepoint [of out i] by (metis snd_conv)

function parse_string :: "string \<Rightarrow> input \<Rightarrow> bool \<times> string \<times> input" where
  "parse_string out i = (case getc i of (ch, i1) \<Rightarrow>
     if ch < 32 then (False, out, ungetc i1)
     else if ch = 34 then (True, out, i1)
     else if ch = 92 then (case getc i1 of (ch, i2) \<Rightarrow>
       if ch = -1 then (False, out, i2)
       else case simple_escape ch of
         Some c \<Rightarrow> parse_string (out @ [c]) i2
       | None \<Rightarrow>
           if ch = 117 then (case parse_codepoint out i2 of (found, out, i3) \<Rightarrow>
             if found then parse_string out i3 else (False, out, i3))
           else (False, out, i2))
     else parse_string (out @ [char_cast_int ch]) i1)"
  by pat_completeness auto

termination
  by (relation "measure (\<lambda>(out, i). length (rest i))")
    (auto simp: simple_escape_def dest!: getc_progress codepoint_progress split: if_splits)

declare parse_string.simps [simp del]

section \<open>Numbers\<close>

definition number_char :: "int \<Rightarrow> bool" where
  "number_char ch \<longleftrightarrow> (48 \<le> ch \<and> ch \<le> 57) \<or> ch = 43 \<or> ch = 45 \<or> ch = 101 \<or> ch = 69 \<or> ch = 46"

function parse_number :: "string \<Rightarrow> input \<Rightarrow> string \<times> input" where
  "parse_number num_str i = (case getc i of (ch, i) \<Rightarrow>
     if number_char ch then parse_number (num_str @ [char_cast_int ch]) i else (num_str, ungetc i))"
  by pat_completeness auto
termination
  by (relation "measure (\<lambda>(num_str, i). length (rest i))") (auto simp: number_char_def dest!: getc_progress)

declare parse_number.simps [simp del]

text \<open>
  \<open>strtoimax\<close> in base 10 when it uses the whole text, which starts with a digit or a minus, and the
  value fits.
\<close>

definition int64_range :: "int \<Rightarrow> bool" where
  "int64_range n \<longleftrightarrow> - (2 ^ 63) \<le> n \<and> n < 2 ^ 63"

definition whole_int64 :: "string \<Rightarrow> int option" where
  "whole_int64 s =
     (let (neg, ds) = stoi_sign s;
          n = (if neg then - int (digits_val ds) else int (digits_val ds))
      in if ds \<noteq> [] \<and> list_all c_isdigit ds \<and> int64_range n then Some n else None)"

text \<open>A number that is not finite makes the constructor throw \<open>std::overflow_error\<close>.\<close>

definition number_value :: "'n floats \<Rightarrow> string \<Rightarrow> 'n json option outcome" where
  "number_value fl num_str =
     (if num_str = [] then Inr None
      else case whole_int64 num_str of
        Some n \<Rightarrow> Inr (Some (JInt64 n))
      | None \<Rightarrow> (case fl_strtod fl num_str of (f, used) \<Rightarrow>
          if used = length num_str
          then (if fl_finite fl f then Inr (Some (JNumber f)) else Inl StdRuntimeError)
          else Inr None))"

section \<open>The parser\<close>

text \<open>
  The recursion over values, array items and object members is bounded by the first argument;
  \<open>Inr None\<close> means that it was used up.  A parse that fails gives no value: the part that was built
  is not used by any caller.
\<close>

type_synonym 'n parsed_json = "('n json option \<times> input) option outcome"

fun parse_value :: "'n floats \<Rightarrow> nat \<Rightarrow> input \<Rightarrow> 'n parsed_json"
  and parse_items :: "'n floats \<Rightarrow> nat \<Rightarrow> 'n json list \<Rightarrow> input \<Rightarrow> 'n parsed_json"
  and parse_members :: "'n floats \<Rightarrow> nat \<Rightarrow> 'n json smap \<Rightarrow> input \<Rightarrow> 'n parsed_json" where
  "parse_value fl 0 i = Inr None"
| "parse_value fl (Suc fuel) i = (case getc (skip_ws i) of (ch, i) \<Rightarrow>
     if ch = 110 then (case match_text ''ull'' i of (found, i) \<Rightarrow>
       Inr (Some (if found then Some JNull else None, i)))
     else if ch = 102 then (case match_text ''alse'' i of (found, i) \<Rightarrow>
       Inr (Some (if found then Some (JBool False) else None, i)))
     else if ch = 116 then (case match_text ''rue'' i of (found, i) \<Rightarrow>
       Inr (Some (if found then Some (JBool True) else None, i)))
     else if ch = 34 then (case parse_string [] i of (found, s, i) \<Rightarrow>
       Inr (Some (if found then Some (JString s) else None, i)))
     else if ch = 91 then (case expect 93 i of (found, i) \<Rightarrow>
       if found then Inr (Some (Some (JArray []), i)) else parse_items fl fuel [] i)
     else if ch = 123 then (case expect 125 i of (found, i) \<Rightarrow>
       if found then Inr (Some (Some (JObject []), i)) else parse_members fl fuel [] i)
     else if (48 \<le> ch \<and> ch \<le> 57) \<or> ch = 45 then (case parse_number [] (ungetc i) of (num_str, i) \<Rightarrow>
       and_then (number_value fl num_str) (\<lambda>v. Inr (Some (v, i))))
     else Inr (Some (None, ungetc i)))"
| "parse_items fl 0 vs i = Inr None"
| "parse_items fl (Suc fuel) vs i =
     and_then (parse_value fl fuel i) (\<lambda>x. case x of
       None \<Rightarrow> Inr None
     | Some (None, i) \<Rightarrow> Inr (Some (None, i))
     | Some (Some v, i) \<Rightarrow> (case expect 44 i of (more_items, i) \<Rightarrow>
         if more_items then parse_items fl fuel (vs @ [v]) i
         else case expect 93 i of (found, i) \<Rightarrow>
           Inr (Some (if found then Some (JArray (vs @ [v])) else None, i))))"
| "parse_members fl 0 m i = Inr None"
| "parse_members fl (Suc fuel) m i =
     (case expect 34 i of (found, i) \<Rightarrow>
        if \<not> found then Inr (Some (None, i))
        else case parse_string [] i of (found, key, i) \<Rightarrow>
          if \<not> found then Inr (Some (None, i))
          else case expect 58 i of (found, i) \<Rightarrow>
            if \<not> found then Inr (Some (None, i))
            else and_then (parse_value fl fuel i) (\<lambda>x. case x of
              None \<Rightarrow> Inr None
            | Some (None, i) \<Rightarrow> Inr (Some (None, i))
            | Some (Some v, i) \<Rightarrow> (case expect 44 i of (more_items, i) \<Rightarrow>
                if more_items then parse_members fl fuel (smap_put key v m) i
                else case expect 125 i of (found, i) \<Rightarrow>
                  Inr (Some (if found then Some (JObject (smap_put key v m)) else None, i)))))"


text \<open>The message of an error, with the rest of the line where parsing stopped.\<close>

function error_rest :: "input \<Rightarrow> string" where
  "error_rest i = (case getc i of (ch, i) \<Rightarrow>
     if ch = -1 \<or> ch = 10 then []
     else if 32 \<le> ch then char_cast_int ch # error_rest i else error_rest i)"
  by pat_completeness auto
termination
  by (relation "measure (length \<circ> rest)") (auto dest: getc_progress_eof)

declare error_rest.simps [simp del]

text \<open>
  \<open>picojson::parse\<close>: the error text, empty for success, and the value.  Text after the value is not
  looked at.  The bound is enough: every second step of the recursion reads a character.
\<close>

definition json_fuel :: "string \<Rightarrow> nat" where
  "json_fuel s = 2 * length s + 2"

definition parse_json :: "'n floats \<Rightarrow> string \<Rightarrow> (string \<times> 'n json option) option outcome" where
  "parse_json fl s =
     and_then (parse_value fl (json_fuel s) (new_input s)) (\<lambda>x. Inr (case x of
       None \<Rightarrow> None
     | Some (Some v, i) \<Rightarrow> Some ([], Some v)
     | Some (None, i) \<Rightarrow>
         Some (''syntax error at line '' @ int_to_string (line i) @ '' near: '' @ error_rest i, None)))"

section \<open>The parser ends\<close>

lemma rest_skip_ws_le: "length (rest (skip_ws i)) \<le> length (rest i)"
proof (induction i rule: skip_ws.induct)
  case (1 i)
  show ?case
  proof (cases "fst (getc i) \<in> {32, 9, 10, 13}")
    case True
    then have "length (rest (skip_ws (snd (getc i)))) \<le> length (rest (snd (getc i)))"
      by (rule "1.IH" [OF prod.collapse])
    with True show ?thesis by (subst skip_ws.simps) (simp add: case_prod_beta)
  next
    case False
    then show ?thesis by (subst skip_ws.simps) (simp add: case_prod_beta)
  qed
qed

lemma expect_le: "expect c i = (found, i') \<Longrightarrow> length (rest i') \<le> length (rest i)"
  using rest_skip_ws_le [of i] by (auto simp: expect_def case_prod_beta split: if_splits)

lemma expect_less: "expect c i = (True, i') \<Longrightarrow> 0 \<le> c \<Longrightarrow> length (rest i') < length (rest i)"
  using rest_skip_ws_le [of i] by (cases "rest (skip_ws i)") (auto simp: expect_def case_prod_beta fst_getc split: if_splits)

lemma match_text_le: "match_text ps i = (found, i') \<Longrightarrow> length (rest i') \<le> length (rest i)"
proof (induction ps arbitrary: i)
  case (Cons p ps)
  show ?case
  proof (cases "fst (getc i) = int (of_char p)")
    case True
    with Cons.prems have "match_text ps (snd (getc i)) = (found, i')" by (simp add: match_text.simps case_prod_beta)
    from Cons.IH [OF this] show ?thesis by simp
  qed (use Cons.prems in \<open>auto simp: match_text.simps case_prod_beta\<close>)
qed (auto simp: match_text.simps)

lemma parse_string_le: "parse_string out i = (found, out', i') \<Longrightarrow> length (rest i') \<le> length (rest i)"
proof (induction out i rule: parse_string.induct)
  case (1 out i)
  let ?i1 = "snd (getc i)" and ?ch = "fst (getc i)"
  let ?i2 = "snd (getc ?i1)" and ?ch2 = "fst (getc ?i1)"
  have le: "length (rest ?i1) \<le> length (rest i)" "length (rest ?i2) \<le> length (rest i)" by simp_all
  note step = "1.prems" [unfolded parse_string.simps [of out i] case_prod_beta fst_conv snd_conv]
  show ?case
  proof (cases "?ch < 32 \<or> ?ch = 34")
    case True
    with step le show ?thesis by (auto split: if_splits)
  next
    case no_end: False
    show ?thesis
    proof (cases "?ch = 92")
      case False
      with no_end step have "parse_string (out @ [char_cast_int ?ch]) ?i1 = (found, out', i')" by simp
      from "1.IH"(3) [OF prod.collapse _ _ False this] no_end le(1) show ?thesis by auto
    next
      case esc: True
      show ?thesis
      proof (cases "?ch2 = -1")
        case True
        with esc step le show ?thesis by auto
      next
        case no_eof: False
        show ?thesis
        proof (cases "simple_escape ?ch2")
          case (Some c)
          with esc no_eof step have "parse_string (out @ [c]) ?i2 = (found, out', i')" by simp
          from "1.IH"(2) [OF prod.collapse _ _ esc prod.collapse no_eof Some this] no_end le(2)
          show ?thesis by auto
        next
          case None
          obtain f3 out3 i3 where cp: "parse_codepoint out ?i2 = (f3, out3, i3)" by (metis surj_pair)
          have le3: "length (rest i3) \<le> length (rest i)" using codepoint_progress [OF cp [symmetric]] le(2) by simp
          show ?thesis
          proof (cases "?ch2 = 117 \<and> f3")
            case True
            with esc no_eof None step cp have "parse_string out3 i3 = (found, out', i')" by simp
            from "1.IH"(1) [OF prod.collapse _ _ esc prod.collapse no_eof None _
                cp [symmetric] refl _ this] True no_end le3
            show ?thesis by auto
          next
            case False
            with esc no_eof None step cp le le3 show ?thesis by (auto split: if_splits)
          qed
        qed
      qed
    qed
  qed
qed

lemma parse_number_le: "parse_number s i = (s', i') \<Longrightarrow> length (rest i') \<le> length (rest i)"
proof (induction s i rule: parse_number.induct)
  case (1 s i)
  show ?case
  proof (cases "number_char (fst (getc i))")
    case True
    with "1.prems" have "parse_number (s @ [char_cast_int (fst (getc i))]) (snd (getc i)) = (s', i')"
      by (subst (asm) parse_number.simps) (simp add: case_prod_beta)
    from "1.IH" [OF prod.collapse True this] show ?thesis by simp
  next
    case False
    with "1.prems" show ?thesis by (subst (asm) parse_number.simps) (auto simp: case_prod_beta)
  qed
qed


lemma first_le:
  assumes "getc (skip_ws i) = (ch, i')"
  shows "length (rest i') \<le> length (rest i)" and "length (rest (ungetc i')) \<le> length (rest i)"
    and "0 \<le> ch \<Longrightarrow> length (rest i') < length (rest i)"
proof -
  have i': "i' = snd (getc (skip_ws i))" "ch = fst (getc (skip_ws i))" using assms by simp_all
  note rest_skip_ws_le [of i]
  then show "length (rest i') \<le> length (rest i)" "length (rest (ungetc i')) \<le> length (rest i)" by (simp_all add: i')
  show "length (rest i') < length (rest i)" if "0 \<le> ch"
    using getc_progress [OF assms [symmetric] that] rest_skip_ws_le [of i] by simp
qed

lemma parse_items_cases:
  assumes "parse_items fl (Suc n) vs i = Inr r"
  obtains (stuck) "parse_value fl n i = Inr None" "r = None"
    | (wrong) i1 where "parse_value fl n i = Inr (Some (None, i1))" "r = Some (None, i1)"
    | (comma) v i1 i2 where "parse_value fl n i = Inr (Some (Some v, i1))" "expect 44 i1 = (True, i2)"
        "parse_items fl n (vs @ [v]) i2 = Inr r"
    | (stop) v i1 i2 found i3 where "parse_value fl n i = Inr (Some (Some v, i1))" "expect 44 i1 = (False, i2)"
        "expect 93 i2 = (found, i3)" "r = Some (if found then Some (JArray (vs @ [v])) else None, i3)"
proof -
  obtain x where x: "parse_value fl n i = Inr x"
    using assms by (cases "parse_value fl n i") simp_all
  show ?thesis
  proof (cases x)
    case None
    with x assms stuck show ?thesis by simp
  next
    case (Some y)
    obtain v' i1 where y: "y = (v', i1)" by force
    show ?thesis
    proof (cases v')
      case None
      have e: "parse_value fl n i = Inr (Some (None, i1))" by (simp add: x Some y None)
      show ?thesis by (rule wrong [OF e]) (use assms e in simp)
    next
      case v: (Some v)
      obtain found i2 where "expect 44 i1 = (found, i2)" by force
      moreover obtain found' i3 where "expect 93 i2 = (found', i3)" by force
      ultimately show ?thesis
        using x Some y v assms comma stop by (cases found) auto
    qed
  qed
qed

lemma parse_members_cases:
  assumes "parse_members fl (Suc n) m i = Inr r"
  obtains (wrong) i1 where "r = Some (None, i1)" "length (rest i1) \<le> length (rest i)"
    | (stuck) i3 where "length (rest i3) + 2 \<le> length (rest i)" "parse_value fl n i3 = Inr None" "r = None"
    | (wrong_value) i3 i4 where "length (rest i3) + 2 \<le> length (rest i)"
        "parse_value fl n i3 = Inr (Some (None, i4))" "r = Some (None, i4)"
    | (comma) key v i3 i4 i5 where "length (rest i3) + 2 \<le> length (rest i)"
        "parse_value fl n i3 = Inr (Some (Some v, i4))" "expect 44 i4 = (True, i5)"
        "parse_members fl n (smap_put key v m) i5 = Inr r"
    | (stop) key v i3 i4 i5 found i6 where "length (rest i3) + 2 \<le> length (rest i)"
        "parse_value fl n i3 = Inr (Some (Some v, i4))" "expect 44 i4 = (False, i5)"
        "expect 125 i5 = (found, i6)" "r = Some (if found then Some (JObject (smap_put key v m)) else None, i6)"
proof -
  obtain f1 i1 where quote: "expect 34 i = (f1, i1)" by force
  obtain f2 key i2 where key: "parse_string [] i1 = (f2, key, i2)" by (metis surj_pair)
  obtain f3 i3 where colon: "expect 58 i2 = (f3, i3)" by force
  note le = expect_le [OF quote] parse_string_le [OF key] expect_le [OF colon]
  show ?thesis
  proof (cases "f1 \<and> f2 \<and> f3")
    case False
    have "\<exists>i1. r = Some (None, i1) \<and> length (rest i1) \<le> length (rest i)"
      using False assms quote key colon le by (auto split: if_splits)
    then show ?thesis using wrong by blast
  next
    case True
    have less: "length (rest i3) + 2 \<le> length (rest i)"
      using True expect_less [of 34 i i1] expect_less [of 58 i2 i3] quote colon le(2) by simp
    obtain x where x: "parse_value fl n i3 = Inr x"
      using assms True quote key colon by (cases "parse_value fl n i3") simp_all
    show ?thesis
    proof (cases x)
      case None
      with x assms True quote key colon stuck [OF less] show ?thesis by simp
    next
      case (Some y)
      obtain v' i4 where y: "y = (v', i4)" by force
      show ?thesis
      proof (cases v')
        case None
        have e: "parse_value fl n i3 = Inr (Some (None, i4))" by (simp add: x Some y None)
        show ?thesis by (rule wrong_value [OF less e]) (use assms True quote key colon e in simp)
      next
        case v: (Some v)
        obtain found i5 where "expect 44 i4 = (found, i5)" by force
        moreover obtain found' i6 where "expect 125 i5 = (found', i6)" by force
        ultimately show ?thesis
          using x Some y v assms True quote key colon comma [OF less] stop [OF less] by (cases found) auto
      qed
    qed
  qed
qed

lemma parse_le:
  "(\<forall>i v i'. parse_value fl n i = Inr (Some (v, i')) \<longrightarrow> length (rest i') \<le> length (rest i)) \<and>
   (\<forall>vs i v i'. parse_items fl n vs i = Inr (Some (v, i')) \<longrightarrow> length (rest i') \<le> length (rest i)) \<and>
   (\<forall>m i v i'. parse_members fl n m i = Inr (Some (v, i')) \<longrightarrow> length (rest i') \<le> length (rest i))"
proof (induction n)
  case 0
  then show ?case by simp
next
  case (Suc n)
  have le_value: "parse_value fl n i = Inr (Some (v, i')) \<Longrightarrow> length (rest i') \<le> length (rest i)" for i v i'
    using Suc by blast
  have le_items: "parse_items fl n vs i = Inr (Some (v, i')) \<Longrightarrow> length (rest i') \<le> length (rest i)" for vs i v i'
    using Suc by blast
  have le_members: "parse_members fl n m i = Inr (Some (v, i')) \<Longrightarrow> length (rest i') \<le> length (rest i)" for m i v i'
    using Suc by blast
  show ?case
  proof (intro conjI allI impI)
    fix i v i'
    assume run: "parse_value fl (Suc n) i = Inr (Some (v, i'))"
    obtain ch i1 where first: "getc (skip_ws i) = (ch, i1)" by force
    show "length (rest i') \<le> length (rest i)"
      using run first_le(1,2) [OF first]
      by (auto simp: first and_then_Inr_iff split: if_splits prod.splits
          dest!: match_text_le expect_le parse_string_le parse_number_le le_items le_members)
  next
    fix vs i v i'
    assume "parse_items fl (Suc n) vs i = Inr (Some (v, i'))"
    then show "length (rest i') \<le> length (rest i)"
      by (cases rule: parse_items_cases) (auto dest!: expect_le le_value le_items)
  next
    fix m i v i'
    assume "parse_members fl (Suc n) m i = Inr (Some (v, i'))"
    then show "length (rest i') \<le> length (rest i)"
      by (cases rule: parse_members_cases) (auto dest!: expect_le le_value le_members)
  qed
qed

text \<open>Enough fuel: two for each character that is left.\<close>

lemma parse_ends:
  "(\<forall>i. 2 * length (rest i) < n \<longrightarrow> parse_value fl n i \<noteq> Inr None) \<and>
   (\<forall>vs i. 2 * length (rest i) + 1 < n \<longrightarrow> parse_items fl n vs i \<noteq> Inr None) \<and>
   (\<forall>m i. 2 * length (rest i) < n \<longrightarrow> parse_members fl n m i \<noteq> Inr None)"
proof (induction n)
  case 0
  then show ?case by simp
next
  case (Suc n)
  have le_value: "parse_value fl n i = Inr (Some (v, i')) \<Longrightarrow> length (rest i') \<le> length (rest i)" for i v i'
    using parse_le [of fl n] by blast
  have end_value: "parse_value fl n i = Inr None \<Longrightarrow> \<not> 2 * length (rest i) < n" for i
    using Suc by blast
  have end_items: "parse_items fl n vs i = Inr None \<Longrightarrow> \<not> 2 * length (rest i) + 1 < n" for vs i
    using Suc by blast
  have end_members: "parse_members fl n m i = Inr None \<Longrightarrow> \<not> 2 * length (rest i) < n" for m i
    using Suc by blast
  show ?case
  proof (intro conjI allI impI notI)
    fix i
    assume fuel: "2 * length (rest i) < Suc n" and run: "parse_value fl (Suc n) i = Inr None"
    obtain ch i1 where first: "getc (skip_ws i) = (ch, i1)" by force
    show False
      using run fuel first_le(3) [OF first]
      by (auto simp: first and_then_Inr_iff split: if_splits prod.splits dest!: expect_le end_items end_members)
  next
    fix vs i
    assume fuel: "2 * length (rest i) + 1 < Suc n" and run: "parse_items fl (Suc n) vs i = Inr None"
    from run show False
      by (cases rule: parse_items_cases) (use fuel in \<open>auto dest!: expect_less le_value end_value end_items\<close>)
  next
    fix m i
    assume fuel: "2 * length (rest i) < Suc n" and run: "parse_members fl (Suc n) m i = Inr None"
    from run show False
      by (cases rule: parse_members_cases) (use fuel in \<open>auto dest!: expect_less le_value end_value end_members\<close>)
  qed
qed

lemma parse_json_ends: "parse_json fl s \<noteq> Inr None"
proof -
  have "parse_value fl (json_fuel s) (new_input s) \<noteq> Inr None"
    using parse_ends [of "json_fuel s" fl] by (simp add: json_fuel_def)
  then show ?thesis by (auto simp: parse_json_def and_then_Inr_iff split: option.splits)
qed


section \<open>The parser inverts the serialisation\<close>

definition white :: "char \<Rightarrow> bool" where
  "white c \<longleftrightarrow> c = SP \<or> c = HT \<or> c = LF \<or> c = CR"

lemma same_code: "int (of_char c) = int (of_char d) \<longleftrightarrow> c = d"
  by simp

lemma white_codes: "32 = int (of_char SP)" "9 = int (of_char HT)" "10 = int (of_char LF)" "13 = int (of_char CR)"
  by code_simp+

lemma white_code: "int (of_char c) \<in> {32, 9, 10, 13} \<longleftrightarrow> white c"
  by (simp only: insert_iff empty_iff white_codes same_code white_def simp_thms)

lemma getc_Cons: "rest i = c # t \<Longrightarrow> \<exists>i'. getc i = (int (of_char c), i') \<and> rest i' = t \<and> rest (ungetc i') = c # t"
  by (rule exI [of _ "snd (getc i)"]) (simp add: prod_eq_iff fst_getc)

lemma skip_ws_none:
  assumes "rest i = [] \<or> \<not> white (hd (rest i))"
  shows "rest (skip_ws i) = rest i"
proof -
  have "fst (getc i) \<notin> {32, 9, 10, 13}"
  proof (cases "rest i")
    case (Cons c t)
    then have "fst (getc i) = int (of_char c)" by (simp add: fst_getc)
    then show ?thesis using assms Cons by (simp only: white_code) simp
  qed (simp add: fst_getc)
  then show ?thesis by (subst skip_ws.simps) (simp add: case_prod_beta)
qed

lemma expect_here:
  assumes "rest i = c # t" and "\<not> white c"
  shows "\<exists>i'. expect (int (of_char c)) i = (True, i') \<and> rest i' = t"
  using getc_Cons [of "skip_ws i" c t] assms skip_ws_none [of i] by (auto simp: expect_def)

lemma expect_other:
  assumes "rest i = c # t" and "\<not> white c" and "int (of_char c) \<noteq> e"
  shows "\<exists>i'. expect e i = (False, i') \<and> rest i' = c # t"
  using getc_Cons [of "skip_ws i" c t] assms skip_ws_none [of i] by (auto simp: expect_def)

lemma match_here: "rest i = ps @ t \<Longrightarrow> \<exists>i'. match_text ps i = (True, i') \<and> rest i' = t"
proof (induction ps arbitrary: i)
  case Nil
  then show ?case by (simp add: match_text.simps)
next
  case (Cons p ps)
  then obtain i1 where i1: "getc i = (int (of_char p), i1)" "rest i1 = ps @ t" using getc_Cons [of i p "ps @ t"] by auto
  from Cons.IH [OF i1(2)] show ?case by (simp add: match_text.simps i1(1))
qed

subsection \<open>Strings\<close>

lemma char_cast_int_of_char [simp]: "char_cast_int (int (of_char c)) = c"
  by (simp add: char_cast_int_def nat_mod_distrib)

lemma hex_digit_read:
  assumes "d < 16" and "rest i = hex_digit d # t"
  shows "\<exists>i'. parse_quadhex (Suc k) u i = parse_quadhex k (u * 16 + int d) i' \<and> rest i' = t"
proof -
  obtain i1 where i1: "getc i = (int (of_char (hex_digit d)), i1)" "rest i1 = t"
    using getc_Cons [OF assms(2)] by auto
  show ?thesis
    using assms(1) by (intro exI [of _ i1]) (simp add: i1 hex_digit_def)
qed

lemma quadhex_of_char:
  assumes "rest i = CHR ''0'' # CHR ''0'' # hex_digit (of_char c div 16) # hex_digit (of_char c mod 16) # t"
  shows "\<exists>i'. parse_quadhex 4 0 i = (int (of_char c), i') \<and> rest i' = t"
proof -
  have zero: "CHR ''0'' = hex_digit 0" by code_simp
  have less: "of_char c div 16 < (16 :: nat)" "of_char c mod 16 < (16 :: nat)" "(0 :: nat) < 16"
    using nat_of_char_less_256 [of c] by (simp_all add: less_mult_imp_div_less)
  obtain i1 where 1: "parse_quadhex (Suc (Suc (Suc (Suc 0)))) 0 i = parse_quadhex (Suc (Suc (Suc 0))) (0 * 16 + int 0) i1"
    "rest i1 = hex_digit 0 # hex_digit (of_char c div 16) # hex_digit (of_char c mod 16) # t"
    using hex_digit_read [OF less(3) assms [unfolded zero]] by blast
  obtain i2 where 2: "parse_quadhex (Suc (Suc (Suc 0))) (0 * 16 + int 0) i1 =
      parse_quadhex (Suc (Suc 0)) ((0 * 16 + int 0) * 16 + int 0) i2"
    "rest i2 = hex_digit (of_char c div 16) # hex_digit (of_char c mod 16) # t"
    using hex_digit_read [OF less(3) 1(2)] by blast
  obtain i3 where 3: "parse_quadhex (Suc (Suc 0)) ((0 * 16 + int 0) * 16 + int 0) i2 =
      parse_quadhex (Suc 0) (((0 * 16 + int 0) * 16 + int 0) * 16 + int (of_char c div 16)) i3"
    "rest i3 = hex_digit (of_char c mod 16) # t"
    using hex_digit_read [OF less(1) 2(2)] by blast
  obtain i4 where 4: "parse_quadhex (Suc 0) (((0 * 16 + int 0) * 16 + int 0) * 16 + int (of_char c div 16)) i3 =
      parse_quadhex 0 ((((0 * 16 + int 0) * 16 + int 0) * 16 + int (of_char c div 16)) * 16 + int (of_char c mod 16)) i4"
    "rest i4 = t"
    using hex_digit_read [OF less(2) 3(2)] by blast
  have four: "(4 :: nat) = Suc (Suc (Suc (Suc 0)))" by simp
  have "int (of_char c div 16) * 16 + int (of_char c mod 16) = int (of_char c div 16 * 16 + of_char c mod 16)"
    by (simp only: of_nat_add of_nat_mult of_nat_numeral)
  also have "\<dots> = int (of_char c)" by (simp only: div_mult_mod_eq)
  finally have sum: "((((0 * 16 + int 0) * 16 + int 0) * 16 + int (of_char c div 16)) * 16 + int (of_char c mod 16)) =
      int (of_char c)" by (simp del: of_nat_mod of_nat_div)
  note trans [OF 1(1) trans [OF 2(1) trans [OF 3(1) 4(1)]]]
  then have "parse_quadhex 4 0 i = (int (of_char c), i4)" by (simp only: four sum parse_quadhex.simps(1))
  with 4(2) show ?thesis by blast
qed

text \<open>One character of a string.\<close>

lemma escape_codes:
  "int (of_char BACKSLASH) = 92" "int (of_char DQUOTE) = 34" "int (of_char SLASH) = 47" "int (of_char (CHR ''b'')) = 98"
  "int (of_char (CHR ''f'')) = 102" "int (of_char (CHR ''n'')) = 110" "int (of_char (CHR ''r'')) = 114"
  "int (of_char (CHR ''t'')) = 116" "int (of_char (CHR ''u'')) = 117"
  by code_simp+

lemma parse_simple_escape:
  assumes "rest i = BACKSLASH # e # t" and "simple_escape (int (of_char e)) = Some c"
  shows "\<exists>i'. parse_string out i = parse_string (out @ [c]) i' \<and> rest i' = t"
proof -
  obtain i1 where 1: "getc i = (int (of_char BACKSLASH), i1)" "rest i1 = e # t" using getc_Cons [OF assms(1)] by blast
  obtain i2 where 2: "getc i1 = (int (of_char e), i2)" "rest i2 = t" using getc_Cons [OF 1(2)] by blast
  show ?thesis
    using assms(2) 1 2 by (intro exI [of _ i2]) (subst parse_string.simps, simp)
qed

lemma parse_control_escape:
  assumes "rest i = BACKSLASH # CHR ''u'' # CHR ''0'' # CHR ''0'' # hex_digit (of_char c div 16) #
      hex_digit (of_char c mod 16) # t"
    and "of_char c < (128 :: nat)"
  shows "\<exists>i'. parse_string out i = parse_string (out @ [c]) i' \<and> rest i' = t"
proof -
  obtain i1 where 1: "getc i = (int (of_char BACKSLASH), i1)"
    "rest i1 = CHR ''u'' # CHR ''0'' # CHR ''0'' # hex_digit (of_char c div 16) # hex_digit (of_char c mod 16) # t"
    using getc_Cons [OF assms(1)] by blast
  obtain i2 where 2: "getc i1 = (int (of_char (CHR ''u'')), i2)"
    "rest i2 = CHR ''0'' # CHR ''0'' # hex_digit (of_char c div 16) # hex_digit (of_char c mod 16) # t"
    using getc_Cons [OF 1(2)] by blast
  obtain i3 where 3: "parse_quadhex 4 0 i2 = (int (of_char c), i3)" "rest i3 = t"
    using quadhex_of_char [OF 2(2)] by blast
  have "utf8_bytes (int (of_char c)) = [c]" using assms(2) by (simp add: utf8_bytes_def)
  then have "parse_codepoint out i2 = (True, out @ [c], i3)"
    using assms(2) by (simp add: parse_codepoint_def 3(1))
  moreover have "simple_escape 117 = None" by code_simp
  ultimately show ?thesis
    by (intro exI [of _ i3]) (subst parse_string.simps, simp add: 1(1) 2(1) 3(2))
qed

lemma parse_plain_char:
  assumes "rest i = c # t" and "32 \<le> (of_char c :: nat)" and "c \<noteq> DQUOTE" "c \<noteq> BACKSLASH"
  shows "\<exists>i'. parse_string out i = parse_string (out @ [c]) i' \<and> rest i' = t"
proof -
  obtain i1 where 1: "getc i = (int (of_char c), i1)" "rest i1 = t" using getc_Cons [OF assms(1)] by blast
  have "int (of_char c) \<noteq> 34" "int (of_char c) \<noteq> 92"
    unfolding escape_codes(1,2) [symmetric] same_code using assms(3,4) by simp_all
  then show ?thesis
    using assms(2) by (intro exI [of _ i1]) (subst parse_string.simps, simp add: 1)
qed

lemma parse_string_char:
  assumes "rest i = serialize_str_char c @ t"
  shows "\<exists>i'. parse_string out i = parse_string (out @ [c]) i' \<and> rest i' = t"
proof (cases "\<exists>e. serialize_str_char c = [BACKSLASH, e] \<and> simple_escape (int (of_char e)) = Some c")
  case True
  then show ?thesis using assms parse_simple_escape [of i _ t c out] by auto
next
  case False
  have "simple_escape 34 = Some DQUOTE" "simple_escape 92 = Some BACKSLASH" "simple_escape 47 = Some SLASH"
    "simple_escape 98 = Some (CHR 0x08)" "simple_escape 102 = Some (CHR 0x0C)" "simple_escape 110 = Some LF"
    "simple_escape 114 = Some CR" "simple_escape 116 = Some HT"
    by (simp_all add: simple_escape_def)
  with False have c: "c \<notin> {DQUOTE, BACKSLASH, SLASH, CHR 0x08, CHR 0x0C, LF, CR, HT}"
    by (auto simp: serialize_str_char_def escape_codes)
  show ?thesis
  proof (cases "of_char c < (32 :: nat) \<or> c = CHR 0x7F")
    case True
    then have "of_char c < (128 :: nat)" by auto
    moreover have "rest i = BACKSLASH # CHR ''u'' # CHR ''0'' # CHR ''0'' # hex_digit (of_char c div 16) #
        hex_digit (of_char c mod 16) # t"
      using assms c True by (auto simp: serialize_str_char_def Let_def)
    ultimately show ?thesis by (intro parse_control_escape)
  next
    case False
    then have "rest i = c # t" using assms c by (simp add: serialize_str_char_def Let_def)
    then show ?thesis using False c by (intro parse_plain_char) auto
  qed
qed

lemma parse_serialized_string:
  "rest i = concat (map serialize_str_char s) @ DQUOTE # t \<Longrightarrow>
     \<exists>i'. parse_string out i = (True, out @ s, i') \<and> rest i' = t"
proof (induction s arbitrary: out i)
  case Nil
  then obtain i1 where "getc i = (int (of_char DQUOTE), i1)" "rest i1 = t" using getc_Cons [of i DQUOTE t] by auto
  then show ?case by (intro exI [of _ i1]) (subst parse_string.simps, simp)
next
  case (Cons c s)
  then obtain i1 where "parse_string out i = parse_string (out @ [c]) i1"
    "rest i1 = concat (map serialize_str_char s) @ DQUOTE # t"
    using parse_string_char [of i c _ out] by auto
  with Cons.IH [of i1 "out @ [c]"] show ?case by simp
qed


subsection \<open>Numbers\<close>

abbreviation numeric :: "char \<Rightarrow> bool" where
  "numeric c \<equiv> number_char (int (of_char c))"

lemma digit_numeric: "c_isdigit c \<Longrightarrow> numeric c"
  by (simp add: c_isdigit_iff number_char_def)

lemma int_text_numeric: "list_all numeric (int_to_string n)"
  using to_string_digits digit_numeric by (auto simp: int_to_string_def list_all_iff number_char_def)

lemma parse_number_here:
  "list_all numeric s \<Longrightarrow> rest i = s @ t \<Longrightarrow> t = [] \<or> \<not> numeric (hd t) \<Longrightarrow>
     \<exists>i'. parse_number acc i = (acc @ s, i') \<and> rest i' = t"
proof (induction s arbitrary: acc i)
  case Nil
  then have "\<not> number_char (fst (getc i))" by (cases t) (simp_all add: fst_getc number_char_def)
  then have "parse_number acc i = (acc, ungetc (snd (getc i)))"
    by (subst parse_number.simps) (simp add: case_prod_beta)
  with Nil show ?case by simp
next
  case (Cons c s)
  then obtain i1 where 1: "getc i = (int (of_char c), i1)" "rest i1 = s @ t" using getc_Cons [of i c "s @ t"] by auto
  with Cons.IH [of i1 "acc @ [c]"] Cons.prems show ?case by (subst parse_number.simps) simp
qed

lemma whole_int64_text:
  assumes "int64_range n"
  shows "whole_int64 (int_to_string n) = Some n"
proof -
  have sign: "stoi_sign (to_string k) = (False, to_string k)" for k
  proof (cases "to_string k")
    case (Cons c cs)
    then have "c_isdigit c" using to_string_digits [of k] by simp
    then show ?thesis using digit_not_space_sign [of c] Cons by simp
  qed simp
  show ?thesis
    using assms sign to_string_digits
    by (cases "n < 0") (simp_all add: whole_int64_def int_to_string_def Let_def)
qed

subsection \<open>Values\<close>

text \<open>Values without floating point numbers, with objects as \<open>std::map\<close> keeps them.\<close>

fun json_ok :: "'n json \<Rightarrow> bool" where
  "json_ok (JNumber x) \<longleftrightarrow> False"
| "json_ok (JInt64 n) \<longleftrightarrow> int64_range n"
| "json_ok (JArray vs) \<longleftrightarrow> list_all json_ok vs"
| "json_ok (JObject m) \<longleftrightarrow> smap_ok m \<and> list_all (\<lambda>(k, v). json_ok v) m"
| "json_ok v \<longleftrightarrow> True"

abbreviation compact :: "'n floats \<Rightarrow> 'n json \<Rightarrow> string" where
  "compact fl v \<equiv> serialize_at fl (-1) v"

definition starts_value :: "char \<Rightarrow> bool" where
  "starts_value c \<longleftrightarrow> c = DQUOTE \<or> c = CHR ''['' \<or> c = CHR ''{'' \<or> c = CHR ''n'' \<or> c = CHR ''t'' \<or> c = CHR ''f'' \<or>
     c = CHR ''-'' \<or> c_isdigit c"

lemma starts_value_not: "starts_value c \<Longrightarrow> \<not> white c \<and> c \<noteq> CHR '']'' \<and> c \<noteq> CHR '','' \<and> c \<noteq> CHR ''}''"
  by (auto simp: starts_value_def white_def c_isdigit_iff)

lemma compact_start: "json_ok v \<Longrightarrow> \<exists>c s. compact fl v = c # s \<and> starts_value c"
proof (cases v)
  case (JInt64 n)
  obtain c cs where "to_string (nat n) = c # cs" by (cases "to_string (nat n)") auto
  moreover have "c_isdigit c" using to_string_digits [of "nat n"] calculation by simp
  ultimately show ?thesis by (auto simp: JInt64 int_to_string_def starts_value_def)
qed (auto simp: serialize_str_def starts_value_def Let_def)

text \<open>What may follow a value.\<close>

definition ends_value :: "string \<Rightarrow> bool" where
  "ends_value t \<longleftrightarrow> t = [] \<or> (\<not> numeric (hd t))"

lemma punctuation_codes:
  "int (of_char (CHR ''['')) = 91" "int (of_char (CHR '']'')) = 93" "int (of_char (CHR ''{'')) = 123"
  "int (of_char (CHR ''}'')) = 125" "int (of_char (CHR '','')) = 44" "int (of_char (CHR '':'')) = 58"
  "int (of_char DQUOTE) = 34"
  by code_simp+

lemma punctuation [simp]:
  "\<not> numeric (CHR '','')" "\<not> numeric (CHR '']'')" "\<not> numeric (CHR ''}'')"
  "\<not> white (CHR '','')" "\<not> white (CHR '']'')" "\<not> white (CHR ''}'')" "\<not> white (CHR '':'')" "\<not> white DQUOTE"
  by code_simp+

text \<open>\<open>reads fl v\<close>: the parser reads the compact form of \<open>v\<close> back, given enough fuel.\<close>

definition reads :: "'n floats \<Rightarrow> 'n json \<Rightarrow> bool" where
  "reads fl v \<longleftrightarrow> (\<forall>n i t. rest i = compact fl v @ t \<longrightarrow> 2 * length (rest i) < n \<longrightarrow> ends_value t \<longrightarrow>
     (\<exists>i'. parse_value fl n i = Inr (Some (Some v, i')) \<and> rest i' = t))"

lemma readsD: "reads fl v \<Longrightarrow> rest i = compact fl v @ t \<Longrightarrow> 2 * length (rest i) < n \<Longrightarrow> ends_value t \<Longrightarrow>
    \<exists>i'. parse_value fl n i = Inr (Some (Some v, i')) \<and> rest i' = t"
  by (simp add: reads_def)

lemma parse_items_here:
  "vs \<noteq> [] \<Longrightarrow> list_all (reads fl) vs \<Longrightarrow> list_all json_ok vs \<Longrightarrow>
   rest i = with_commas (map (compact fl) vs) @ CHR '']'' # t \<Longrightarrow> 2 * length (rest i) + 1 < n \<Longrightarrow>
   \<exists>i'. parse_items fl n acc i = Inr (Some (Some (JArray (acc @ vs)), i')) \<and> rest i' = t"
proof (induction vs arbitrary: n acc i)
  case Nil
  then show ?case by simp
next
  case (Cons v vs)
  obtain n' where n: "n = Suc n'" using Cons.prems(5) by (cases n) auto
  let ?tail = "(if vs = [] then CHR '']'' # t else CHR '','' # with_commas (map (compact fl) vs) @ CHR '']'' # t)"
  have whole: "rest i = compact fl v @ ?tail" using Cons.prems(4) by (cases vs) simp_all
  have "ends_value ?tail" by (simp add: ends_value_def number_char_def)
  with readsD [of fl v i ?tail n'] whole Cons.prems(2,5) n
  obtain i1 where 1: "parse_value fl n' i = Inr (Some (Some v, i1))" "rest i1 = ?tail" by auto
  show ?case
  proof (cases "vs = []")
    case True
    obtain i2 where 2: "expect 44 i1 = (False, i2)" "rest i2 = CHR '']'' # t"
      using expect_other [of i1 "CHR '']''" t 44] 1(2) True by auto
    obtain i3 where 3: "expect 93 i2 = (True, i3)" "rest i3 = t"
      using expect_here [OF 2(2)] unfolding punctuation_codes by auto
    show ?thesis using True by (simp add: n 1(1) 2(1) 3)
  next
    case False
    obtain i2 where 2: "expect 44 i1 = (True, i2)" "rest i2 = with_commas (map (compact fl) vs) @ CHR '']'' # t"
      using expect_here [of i1 "CHR '',''"] 1(2) False unfolding punctuation_codes by auto
    obtain c s where "compact fl v = c # s" using compact_start [of v fl] Cons.prems(3) by auto
    then have fuel: "2 * length (rest i2) + 1 < n'" using Cons.prems(5) n whole 2(2) False by simp
    from Cons.IH [OF False _ _ 2(2) fuel, of "acc @ [v]"] Cons.prems(2,3)
    show ?thesis by (simp add: n 1(1) 2(1))
  qed
qed

lemma smap_put_snoc: "list_all (\<lambda>(k', v'). k' < k) m \<Longrightarrow> smap_put k v m = m @ [(k, v)]"
  by (induction m) (auto simp: smap_put_def)

lemma smap_ok_snoc:
  assumes "smap_ok (acc @ (k, v) # m)"
  shows "smap_put k v acc = acc @ [(k, v)]"
  using assms by (intro smap_put_snoc) (auto simp: smap_ok_def sorted_wrt_append list_all_iff)

definition member_text :: "'n floats \<Rightarrow> string \<times> 'n json \<Rightarrow> string" where
  "member_text fl kv = serialize_str (fst kv) @ CHR '':'' # compact fl (snd kv)"

lemma parse_members_here:
  "m \<noteq> [] \<Longrightarrow> list_all (\<lambda>(k, v). reads fl v) m \<Longrightarrow> list_all (\<lambda>(k, v). json_ok v) m \<Longrightarrow> smap_ok (acc @ m) \<Longrightarrow>
   rest i = with_commas (map (member_text fl) m) @ CHR ''}'' # t \<Longrightarrow> 2 * length (rest i) < n \<Longrightarrow>
   \<exists>i'. parse_members fl n acc i = Inr (Some (Some (JObject (acc @ m)), i')) \<and> rest i' = t"
proof (induction m arbitrary: n acc i)
  case Nil
  then show ?case by simp
next
  case (Cons kv m)
  obtain k v where kv: "kv = (k, v)" by force
  obtain n' where n: "n = Suc n'" using Cons.prems(6) by (cases n) auto
  let ?tail = "(if m = [] then CHR ''}'' # t else CHR '','' # with_commas (map (member_text fl) m) @ CHR ''}'' # t)"
  have "rest i = member_text fl kv @ ?tail" using Cons.prems(5) by (cases m) simp_all
  then have whole: "rest i = DQUOTE # concat (map serialize_str_char k) @ DQUOTE # CHR '':'' # compact fl v @ ?tail"
    by (simp add: kv member_text_def serialize_str_def)
  obtain i1 where 1: "expect 34 i = (True, i1)"
    "rest i1 = concat (map serialize_str_char k) @ DQUOTE # CHR '':'' # compact fl v @ ?tail"
    using expect_here [OF whole] unfolding punctuation_codes by auto
  obtain i2 where 2: "parse_string [] i1 = (True, k, i2)" "rest i2 = CHR '':'' # compact fl v @ ?tail"
    using parse_serialized_string [OF 1(2), of "[]"] by auto
  obtain i3 where 3: "expect 58 i2 = (True, i3)" "rest i3 = compact fl v @ ?tail"
    using expect_here [OF 2(2)] unfolding punctuation_codes by auto
  have "ends_value ?tail" by (simp add: ends_value_def number_char_def)
  moreover have "2 * length (rest i3) < n'" using Cons.prems(6) n whole 3(2) by simp
  ultimately obtain i4 where 4: "parse_value fl n' i3 = Inr (Some (Some v, i4))" "rest i4 = ?tail"
    using readsD [of fl v i3 ?tail n'] 3(2) Cons.prems(2) kv by auto
  have put: "smap_put k v acc = acc @ [(k, v)]" using Cons.prems(4) by (intro smap_ok_snoc) (simp add: kv)
  show ?case
  proof (cases "m = []")
    case True
    obtain i5 where 5: "expect 44 i4 = (False, i5)" "rest i5 = CHR ''}'' # t"
      using expect_other [of i4 "CHR ''}''" t 44] 4(2) True by auto
    obtain i6 where 6: "expect 125 i5 = (True, i6)" "rest i6 = t"
      using expect_here [OF 5(2)] unfolding punctuation_codes by auto
    show ?thesis using True by (simp add: n 1(1) 2(1) 3(1) 4(1) 5(1) 6 put kv)
  next
    case False
    obtain i5 where 5: "expect 44 i4 = (True, i5)" "rest i5 = with_commas (map (member_text fl) m) @ CHR ''}'' # t"
      using expect_here [of i4 "CHR '',''"] 4(2) False unfolding punctuation_codes by auto
    have fuel: "2 * length (rest i5) < n'" using Cons.prems(6) n whole 5(2) False by simp
    from Cons.IH [OF False _ _ _ 5(2) fuel, of "acc @ [(k, v)]"] Cons.prems(2-4)
    show ?thesis by (simp add: n 1(1) 2(1) 3(1) 4(1) 5(1) put kv)
  qed
qed


lemma first_char:
  assumes "rest i = c # t" and "\<not> white c"
  shows "\<exists>i'. getc (skip_ws i) = (int (of_char c), i') \<and> rest i' = t \<and> rest (ungetc i') = c # t"
  using getc_Cons [of "skip_ws i" c t] skip_ws_none [of i] assms by simp

text \<open>The characters the parser decides on, as it sees them.\<close>

lemma word_codes:
  "int (of_char (CHR ''n'')) = 110" "int (of_char (CHR ''f'')) = 102" "int (of_char (CHR ''t'')) = 116"
  by code_simp+

lemma reads_word:
  assumes "w = ''null'' \<and> v = JNull \<or> w = ''true'' \<and> v = JBool True \<or> w = ''false'' \<and> v = JBool False"
    and "rest i = w @ t"
  shows "\<exists>i'. parse_value fl (Suc n) i = Inr (Some (Some v, i')) \<and> rest i' = t"
proof -
  obtain c ps where w: "w = c # ps" and ps: "c = CHR ''n'' \<and> ps = ''ull'' \<and> v = JNull \<or>
      c = CHR ''t'' \<and> ps = ''rue'' \<and> v = JBool True \<or> c = CHR ''f'' \<and> ps = ''alse'' \<and> v = JBool False"
    using assms(1) by auto
  then have "\<not> white c" by (auto simp: white_def)
  with first_char [of i c "ps @ t"] assms(2) w
  obtain i1 where 1: "getc (skip_ws i) = (int (of_char c), i1)" "rest i1 = ps @ t" by auto
  from match_here [OF 1(2)] obtain i2 where "match_text ps i1 = (True, i2)" "rest i2 = t" by blast
  with ps 1(1) show ?thesis by auto
qed

lemma reads_int:
  assumes "int64_range k" and "rest i = int_to_string k @ t" and "ends_value t"
  shows "\<exists>i'. parse_value fl (Suc n) i = Inr (Some (Some (JInt64 k), i')) \<and> rest i' = t"
proof -
  obtain c cs where c: "int_to_string k = c # cs" "c = CHR ''-'' \<or> c_isdigit c"
    using to_string_digits [of "nat k"]
    by (cases "k < 0"; cases "to_string (nat k)") (auto simp: int_to_string_def)
  then have "\<not> white c" by (auto simp: white_def c_isdigit_iff)
  with first_char [of i c "cs @ t"] assms(2) c(1)
  obtain i1 where 1: "getc (skip_ws i) = (int (of_char c), i1)" "rest (ungetc i1) = int_to_string k @ t" by auto
  have "t = [] \<or> \<not> numeric (hd t)" using assms(3) by (simp add: ends_value_def)
  from parse_number_here [OF int_text_numeric 1(2) this, of "[]"]
  obtain i2 where 2: "parse_number [] (ungetc i1) = (int_to_string k, i2)" "rest i2 = t" by auto
  have "number_value fl (int_to_string k) = Inr (Some (JInt64 k))"
    using c(1) whole_int64_text [OF assms(1)] by (simp add: number_value_def)
  moreover have "int (of_char c) = 45 \<or> 48 \<le> int (of_char c) \<and> int (of_char c) \<le> 57"
    using c(2) by (auto simp: c_isdigit_iff)
  ultimately show ?thesis using 2 by (auto simp: 1(1))
qed

lemma with_commas_Cons: "with_commas (x # xs) = x @ (if xs = [] then [] else CHR '','' # with_commas xs)"
  by (cases xs) simp_all

lemma reads_all: "json_ok v \<Longrightarrow> reads fl v"
proof (induction v)
  case JNull
  show ?case
    unfolding reads_def
  proof (intro allI impI)
    fix n i t
    assume "rest i = compact fl JNull @ t" "2 * length (rest i) < n"
    then show "\<exists>i'. parse_value fl n i = Inr (Some (Some JNull, i')) \<and> rest i' = t"
      using reads_word [of "''null''" JNull i t fl "n - 1"] by (cases n) auto
  qed
next
  case (JBool b)
  show ?case
    unfolding reads_def
  proof (intro allI impI)
    fix n i t
    assume "rest i = compact fl (JBool b) @ t" "2 * length (rest i) < n"
    then show "\<exists>i'. parse_value fl n i = Inr (Some (Some (JBool b), i')) \<and> rest i' = t"
      using reads_word [of "if b then ''true'' else ''false''" "JBool b" i t fl "n - 1"]
      by (cases n; cases b) auto
  qed
next
  case (JNumber x)
  then show ?case by simp
next
  case (JInt64 k)
  show ?case
    unfolding reads_def
  proof (intro allI impI)
    fix n i t
    assume "rest i = compact fl (JInt64 k) @ t" "2 * length (rest i) < n" "ends_value t"
    then show "\<exists>i'. parse_value fl n i = Inr (Some (Some (JInt64 k), i')) \<and> rest i' = t"
      using reads_int [of k i t fl "n - 1"] JInt64 by (cases n) auto
  qed
next
  case (JString s)
  show ?case
    unfolding reads_def
  proof (intro allI impI)
    fix n i t
    assume whole: "rest i = compact fl (JString s) @ t" and "2 * length (rest i) < n"
    then obtain n' where n: "n = Suc n'" by (cases n) auto
    obtain i1 where 1: "getc (skip_ws i) = (34, i1)" "rest i1 = concat (map serialize_str_char s) @ DQUOTE # t"
      using first_char [of i DQUOTE] whole by (auto simp: serialize_str_def white_def)
    from parse_serialized_string [OF 1(2), of "[]"]
    show "\<exists>i'. parse_value fl n i = Inr (Some (Some (JString s), i')) \<and> rest i' = t"
      by (auto simp: n 1(1))
  qed
next
  case (JArray vs)
  then have all: "list_all (reads fl) vs" "list_all json_ok vs" by (auto simp: list_all_iff)
  show ?case
    unfolding reads_def
  proof (intro allI impI)
    fix n i t
    assume whole: "rest i = compact fl (JArray vs) @ t" and fuel: "2 * length (rest i) < n"
    then obtain n' where n: "n = Suc n'" by (cases n) auto
    obtain i1 where 1: "getc (skip_ws i) = (91, i1)" "rest i1 = with_commas (map (compact fl) vs) @ CHR '']'' # t"
      using first_char [of i "CHR ''[''"] whole by (auto simp: white_def Let_def)
    show "\<exists>i'. parse_value fl n i = Inr (Some (Some (JArray vs), i')) \<and> rest i' = t"
    proof (cases "vs = []")
      case True
      with expect_here [of i1 "CHR '']''" t] 1(2) obtain i2 where "expect 93 i1 = (True, i2)" "rest i2 = t"
        unfolding punctuation_codes by auto
      with True show ?thesis by (simp add: n 1(1))
    next
      case False
      then obtain v ws where vs: "vs = v # ws" "json_ok v" using all(2) by (cases vs) auto
      with compact_start [of v fl] obtain c s where c: "rest i1 = c # s" "starts_value c"
        using 1(2) by (auto simp: with_commas_Cons)
      then have "int (of_char c) \<noteq> 93"
        using starts_value_not [of c] unfolding punctuation_codes(2) [symmetric] same_code by simp
      with expect_other [OF c(1)] starts_value_not [OF c(2)] obtain i2 where
        2: "expect 93 i1 = (False, i2)" "rest i2 = with_commas (map (compact fl) vs) @ CHR '']'' # t"
        using c(1) 1(2) by metis
      have "2 * length (rest i2) + 1 < n'" using fuel whole n 2(2) by (simp add: Let_def)
      from parse_items_here [OF False all 2(2) this, of "[]"] show ?thesis by (auto simp: n 1(1) 2(1))
    qed
  qed
next
  case (JObject m)
  then have all: "list_all (\<lambda>(k, v). reads fl v) m" "list_all (\<lambda>(k, v). json_ok v) m" "smap_ok ([] @ m)"
    by (auto simp: list_all_iff)
  have members: "(\<lambda>(k, v). serialize_str k @ CHR '':'' # compact fl v) = member_text fl"
    by (simp add: member_text_def fun_eq_iff)
  show ?case
    unfolding reads_def
  proof (intro allI impI)
    fix n i t
    assume whole: "rest i = compact fl (JObject m) @ t" and fuel: "2 * length (rest i) < n"
    then obtain n' where n: "n = Suc n'" by (cases n) auto
    obtain i1 where 1: "getc (skip_ws i) = (123, i1)" "rest i1 = with_commas (map (member_text fl) m) @ CHR ''}'' # t"
      using first_char [of i "CHR ''{''"] whole by (auto simp: white_def Let_def members)
    show "\<exists>i'. parse_value fl n i = Inr (Some (Some (JObject m), i')) \<and> rest i' = t"
    proof (cases "m = []")
      case True
      with expect_here [of i1 "CHR ''}''" t] 1(2) obtain i2 where "expect 125 i1 = (True, i2)" "rest i2 = t"
        unfolding punctuation_codes by auto
      with True show ?thesis by (simp add: n 1(1))
    next
      case False
      then obtain s where c: "rest i1 = DQUOTE # s"
        using 1(2) by (cases m; cases "tl m") (auto simp: member_text_def serialize_str_def)
      obtain i2 where 2: "expect 125 i1 = (False, i2)" "rest i2 = with_commas (map (member_text fl) m) @ CHR ''}'' # t"
        using expect_other [OF c, of 125] c unfolding 1(2) by (auto simp: white_def)
      have "2 * length (rest i2) < n'" using fuel whole n 2(2) by (simp add: Let_def members)
      from parse_members_here [OF False all 2(2) this] show ?thesis by (auto simp: n 1(1) 2(1))
    qed
  qed
qed

lemma parse_serialize:
  assumes "json_ok v"
  shows "parse_json fl (serialize fl False v) = Inr (Some ([], Some v))"
proof -
  have "rest (new_input (compact fl v)) = compact fl v @ []" by simp
  from readsD [OF reads_all [OF assms] this, of "json_fuel (compact fl v)"]
  show ?thesis by (auto simp: parse_json_def serialize_def json_fuel_def ends_value_def)
qed


text \<open>What a reader of compact JSON makes of a text.\<close>

definition read_json :: "'n floats \<Rightarrow> string \<Rightarrow> 'n json option" where
  "read_json fl s = (case parse_json fl s of
     Inr (Some (err, Some v)) \<Rightarrow> if json_ok v then Some v else None | _ \<Rightarrow> None)"

interpretation json_text: codec "serialize fl False" "read_json fl" json_ok
  by unfold_locales (auto simp: read_json_def parse_serialize split: sum.splits option.splits if_splits)

section \<open>Properties\<close>

text \<open>A library without numbers, for concrete runs.\<close>

definition no_floats :: "unit floats" where
  "no_floats = \<lparr>fl_strtod = (\<lambda>s. ((), 0)), fl_print = (\<lambda>_. []), fl_finite = (\<lambda>_. True), fl_zero = (\<lambda>_. False),
     fl_equal = (\<lambda>_ _. True)\<rparr>"

text \<open>
  C14: JSON round trips: the parser accepts the compact serialisation of every value without floating
  point numbers (any nesting; strings and keys of arbitrary bytes; 64-bit integers) and rebuilds it;
  so different values have different serialisations.
\<close>

theorem json_roundtrip:
  assumes "json_ok v"
  shows "parse_json fl (serialize fl False v) = Inr (Some ([], Some v)) \<and>
    (\<forall>v'. json_ok v' \<and> serialize fl False v' = serialize fl False v \<longrightarrow> v' = v)"
  using assms parse_serialize json_text.encode_inj by blast

theorem json_roundtrip_witness:
  "parse_json no_floats (serialize no_floats False
     (JObject [(''a'', JArray [JInt64 (-7), JNull]), (''b'', JString (CHR 0x0A # ''x''))])) =
   Inr (Some ([], Some (JObject [(''a'', JArray [JInt64 (-7), JNull]), (''b'', JString (CHR 0x0A # ''x''))])))"
  by (rule json_roundtrip [THEN conjunct1]) (simp add: smap_ok_def int64_range_def)

lemma parse_errors:
  "(\<forall>i e. parse_value fl n i = Inl e \<longrightarrow> e = StdRuntimeError) \<and>
   (\<forall>vs i e. parse_items fl n vs i = Inl e \<longrightarrow> e = StdRuntimeError) \<and>
   (\<forall>m i e. parse_members fl n m i = Inl e \<longrightarrow> e = StdRuntimeError)"
proof (induction n)
  case 0
  then show ?case by simp
next
  case (Suc n)
  have number: "number_value fl s = Inl e \<Longrightarrow> e = StdRuntimeError" for s e
    by (auto simp: number_value_def split: if_splits option.splits prod.splits)
  have IH: "parse_value fl n i = Inl e \<Longrightarrow> e = StdRuntimeError" "parse_items fl n vs i = Inl e \<Longrightarrow> e = StdRuntimeError"
    "parse_members fl n m i = Inl e \<Longrightarrow> e = StdRuntimeError" for i vs m e
    using Suc by blast+
  have after: "and_then (parse_value fl n i) f = Inl e \<Longrightarrow>
      (\<And>v i'. f (Some (Some v, i')) = Inl e \<Longrightarrow> e = StdRuntimeError) \<Longrightarrow>
      (\<And>i'. f (Some (None, i')) \<noteq> Inl e) \<Longrightarrow> f None \<noteq> Inl e \<Longrightarrow> e = StdRuntimeError" for i e
    and f :: "('a json option \<times> input) option \<Rightarrow> 'a parsed_json"
    using IH(1) [of i e] by (auto simp: and_then_Inl_iff) (metis option.exhaust prod.exhaust)
  show ?case
  proof (intro conjI allI impI)
    fix i e
    assume "parse_value fl (Suc n) i = Inl e"
    then show "e = StdRuntimeError"
      by (auto simp: and_then_Inl_iff case_prod_beta split: if_splits dest: number IH)
  next
    fix vs i e
    assume "parse_items fl (Suc n) vs i = Inl e"
    then show "e = StdRuntimeError"
      unfolding parse_items.simps by (elim after) (auto simp: case_prod_beta split: if_splits dest: IH)
  next
    fix m i e
    assume *: "parse_members fl (Suc n) m i = Inl e"
    obtain f1 i1 where quote: "expect 34 i = (f1, i1)" by force
    obtain f2 key i2 where key: "parse_string [] i1 = (f2, key, i2)" by (metis surj_pair)
    obtain f3 i3 where colon: "expect 58 i2 = (f3, i3)" by force
    from * quote key colon have "f1" "f2" "f3" by (auto split: if_splits)
    with * quote key colon show "e = StdRuntimeError"
      by (simp, elim after) (auto simp: case_prod_beta split: if_splits dest: IH)
  qed
qed

text \<open>
  C26: The parser ends on every input: the bound on its recursion is never reached, so the answer is
  a value, an error text, or the exception for a number that is not finite.
\<close>

theorem json_parser_ends:
  "(\<exists>err v. parse_json fl s = Inr (Some (err, v)) \<and> (err = [] \<longleftrightarrow> v \<noteq> None)) \<or> parse_json fl s = Inl StdRuntimeError"
proof -
  have "parse_value fl n i = Inl e \<Longrightarrow> e = StdRuntimeError" for n i e
    using parse_errors [of fl n] by blast
  then show ?thesis
    using parse_json_ends [of fl s]
    by (cases "parse_value fl (json_fuel s) (new_input s)")
      (auto simp: parse_json_def split: option.splits)
qed

end
