(* ===== verification/Jwt.thy ===== *)
theory Jwt
  imports Base64 Json
begin

text \<open>
  jwt-cpp (\<open>src/include/jwt-cpp/jwt.h\<close>) as far as the server uses it: the algorithms none and HS256
  to HS512, claims, building and signing a token, decoding it and verifying it.  The hash
  function is OpenSSL's \<open>HMAC\<close> and is a parameter; \<open>None\<close> is its null pointer.  A time point is a
  number of nanoseconds, a signed 64-bit integer.
\<close>

section \<open>Algorithms\<close>

datatype digest = SHA256 | SHA384 | SHA512

type_synonym hmac = "digest \<Rightarrow> string \<Rightarrow> string \<Rightarrow> string option"

record hmacsha =
  hs_secret :: string
  hs_md :: digest
  hs_name :: string

definition hs256 :: "string \<Rightarrow> hmacsha" where
  "hs256 key = \<lparr>hs_secret = key, hs_md = SHA256, hs_name = ''HS256''\<rparr>"

definition hs384 :: "string \<Rightarrow> hmacsha" where
  "hs384 key = \<lparr>hs_secret = key, hs_md = SHA384, hs_name = ''HS384''\<rparr>"

definition hs512 :: "string \<Rightarrow> hmacsha" where
  "hs512 key = \<lparr>hs_secret = key, hs_md = SHA512, hs_name = ''HS512''\<rparr>"

definition hmac_sign :: "hmac \<Rightarrow> hmacsha \<Rightarrow> string \<Rightarrow> string outcome" where
  "hmac_sign hmac a data = (case hmac (hs_md a) (hs_secret a) data of
     None \<Rightarrow> Inl StdRuntimeError | Some res \<Rightarrow> Inr res)"

text \<open>The comparison looks at every position, whatever it has found before.\<close>

fun match_loop :: "string \<Rightarrow> string \<Rightarrow> bool \<Rightarrow> bool" where
  "match_loop (r # res) (s # signature) matched = match_loop res signature (if r \<noteq> s then False else matched)"
| "match_loop _ _ matched = matched"

definition hmac_verify :: "hmac \<Rightarrow> hmacsha \<Rightarrow> string \<Rightarrow> string \<Rightarrow> unit outcome" where
  "hmac_verify hmac a data signature = (case hmac_sign hmac a data of
     Inl e \<Rightarrow> Inl StdRuntimeError
   | Inr res \<Rightarrow>
       let matched = match_loop res signature True;
           matched = (if length res \<noteq> length signature then False else matched)
       in if \<not> matched then Inl StdRuntimeError else Inr ())"

definition none_sign :: "string \<Rightarrow> string outcome" where
  "none_sign data = Inr []"

definition none_verify :: "string \<Rightarrow> string \<Rightarrow> unit outcome" where
  "none_verify data signature = (if signature \<noteq> [] then Inl StdRuntimeError else Inr ())"

text \<open>
  What the templates of the builder and the verifier are used with.  The algorithms with a key pair are
  in \<open>Public_Keys\<close>; here they are their name and their two functions.
\<close>

datatype algorithm =
    No_signature | Hmac hmacsha
  | Public_key string "string \<Rightarrow> string outcome" "string \<Rightarrow> string \<Rightarrow> unit outcome"

fun alg_name :: "algorithm \<Rightarrow> string" where
  "alg_name No_signature = ''none''"
| "alg_name (Hmac a) = hs_name a"
| "alg_name (Public_key name s v) = name"

fun alg_sign :: "hmac \<Rightarrow> algorithm \<Rightarrow> string \<Rightarrow> string outcome" where
  "alg_sign hmac No_signature data = none_sign data"
| "alg_sign hmac (Hmac a) data = hmac_sign hmac a data"
| "alg_sign hmac (Public_key name s v) data = s data"

fun alg_verify :: "hmac \<Rightarrow> algorithm \<Rightarrow> string \<Rightarrow> string \<Rightarrow> unit outcome" where
  "alg_verify hmac No_signature data signature = none_verify data signature"
| "alg_verify hmac (Hmac a) data signature = hmac_verify hmac a data signature"
| "alg_verify hmac (Public_key name s v) data signature = v data signature"

lemma match_loop_iff: "match_loop res sig m \<longleftrightarrow> m \<and> take (min (length res) (length sig)) res = take (min (length res) (length sig)) sig"
  by (induction res sig m rule: match_loop.induct) auto

lemma hmac_verify_iff [simp]:
  "hmac_verify hmac a data signature = Inr () \<longleftrightarrow> hmac (hs_md a) (hs_secret a) data = Some signature"
  by (auto simp: hmac_verify_def hmac_sign_def match_loop_iff Let_def split: option.split)

lemma hmac_verify_cases: "hmac_verify hmac a data signature = Inr () \<or> hmac_verify hmac a data signature = Inl StdRuntimeError"
  by (auto simp: hmac_verify_def Let_def split: sum.split)

section \<open>Dates\<close>

text \<open>Nanoseconds, the ticks of \<open>system_clock\<close>.\<close>

definition SECOND :: int where
  "SECOND = 10 ^ 9"

lemma SECOND_pos [simp]: "0 < SECOND" "0 \<le> SECOND" "1 \<le> SECOND" "SECOND \<noteq> 0"
  by (simp_all add: SECOND_def)

definition from_time_t :: "int \<Rightarrow> int outcome" where
  "from_time_t t = (if int64_range (t * SECOND) then Inr (t * SECOND) else Inl Undefined)"

definition to_time_t :: "int \<Rightarrow> int" where
  "to_time_t d = (if d < 0 then - ((- d) div SECOND) else d div SECOND)"

text \<open>A \<open>size_t\<close> as the count of \<open>std::chrono::seconds\<close>.\<close>

definition signed64 :: "int \<Rightarrow> int" where
  "signed64 n = (n + 2 ^ 63) mod 2 ^ 64 - 2 ^ 63"

definition plus_seconds :: "int \<Rightarrow> int \<Rightarrow> int outcome" where
  "plus_seconds d s = (if int64_range (s * SECOND) \<and> int64_range (d + s * SECOND) then Inr (d + s * SECOND) else Inl Undefined)"

definition minus_seconds :: "int \<Rightarrow> int \<Rightarrow> int outcome" where
  "minus_seconds d s = (if int64_range (s * SECOND) \<and> int64_range (d - s * SECOND) then Inr (d - s * SECOND) else Inl Undefined)"

section \<open>Claims\<close>

text \<open>A claim wraps a JSON value.  A \<open>std::set\<close> of strings is the sorted list of its elements.\<close>

type_synonym string_set = "unit smap"

definition claim_of_string :: "string \<Rightarrow> 'n json" where
  "claim_of_string s = JString s"

definition claim_of_date :: "int \<Rightarrow> 'n json" where
  "claim_of_date d = JInt64 (to_time_t d)"

definition claim_of_set :: "string_set \<Rightarrow> 'n json" where
  "claim_of_set s = JArray (map (\<lambda>(e, _). JString e) s)"

datatype claim_type = Null_type | Boolean_type | Number_type | String_type | Array_type | Object_type | Int64_type

fun claim_get_type :: "'n json \<Rightarrow> claim_type" where
  "claim_get_type JNull = Null_type"
| "claim_get_type (JBool b) = Boolean_type"
| "claim_get_type (JInt64 n) = Int64_type"
| "claim_get_type (JNumber x) = Number_type"
| "claim_get_type (JString s) = String_type"
| "claim_get_type (JArray vs) = Array_type"
| "claim_get_type (JObject m) = Object_type"

definition as_string :: "'n json \<Rightarrow> string outcome" where
  "as_string c = (case c of JString s \<Rightarrow> Inr s | _ \<Rightarrow> Inl StdBadCast)"

definition as_int :: "'n json \<Rightarrow> int outcome" where
  "as_int c = (case c of JInt64 n \<Rightarrow> Inr n | _ \<Rightarrow> Inl StdBadCast)"

definition as_bool :: "'n json \<Rightarrow> bool outcome" where
  "as_bool c = (case c of JBool b \<Rightarrow> Inr b | _ \<Rightarrow> Inl StdBadCast)"

definition as_date :: "'n json \<Rightarrow> int outcome" where
  "as_date c = and_then (as_int c) from_time_t"

definition as_array :: "'n json \<Rightarrow> 'n json list outcome" where
  "as_array c = (case c of JArray vs \<Rightarrow> Inr vs | _ \<Rightarrow> Inl StdBadCast)"

fun insert_strings :: "string_set \<Rightarrow> 'n json list \<Rightarrow> string_set outcome" where
  "insert_strings res [] = Inr res"
| "insert_strings res (e # es) = and_then (as_string e) (\<lambda>s. insert_strings (smap_insert s () res) es)"

definition as_set :: "'n json \<Rightarrow> string_set outcome" where
  "as_set c = and_then (as_array c) (insert_strings [])"

section \<open>Header and payload\<close>

text \<open>
  The claims of a part are an \<open>unordered_map\<close>; the model keeps them sorted, since no result depends on
  the order.
\<close>

type_synonym 'n claims = "'n json smap"

definition has_claim :: "'n claims \<Rightarrow> string \<Rightarrow> bool" where
  "has_claim cs name \<longleftrightarrow> smap_find cs name \<noteq> None"

definition get_claim :: "'n claims \<Rightarrow> string \<Rightarrow> 'n json outcome" where
  "get_claim cs name = (case smap_find cs name of None \<Rightarrow> Inl StdRuntimeError | Some c \<Rightarrow> Inr c)"

definition get_audience :: "'n claims \<Rightarrow> string_set outcome" where
  "get_audience cs = and_then (get_claim cs ''aud'') (\<lambda>aud.
     if claim_get_type aud = String_type then and_then (as_string aud) (\<lambda>s. Inr [(s, ())]) else as_set aud)"

section \<open>Decoding\<close>

record 'n decoded_jwt =
  dj_token :: string
  dj_header :: string
  dj_header_base64 :: string
  dj_payload :: string
  dj_payload_base64 :: string
  dj_signature :: string
  dj_signature_base64 :: string
  dj_header_claims :: "'n claims"
  dj_payload_claims :: "'n claims"

definition parse_claims :: "'n floats \<Rightarrow> string \<Rightarrow> 'n claims outcome" where
  "parse_claims fl str = and_then (parse_json fl str) (\<lambda>x. case x of
     None \<Rightarrow> Inl Undefined
   | Some (err, v) \<Rightarrow>
       if err \<noteq> [] then Inl StdRuntimeError
       else (case v of Some (JObject m) \<Rightarrow> Inr m | _ \<Rightarrow> Inl StdRuntimeError))"

definition decode_jwt :: "'n floats \<Rightarrow> string \<Rightarrow> 'n decoded_jwt outcome" where
  "decode_jwt fl token = (case str_find ''.'' token of
     None \<Rightarrow> Inl InvalidArgument
   | Some hdr_end \<Rightarrow> (case str_find ''.'' (drop (hdr_end + 1) token) of
       None \<Rightarrow> Inl InvalidArgument
     | Some n \<Rightarrow>
         let header_base64 = take hdr_end token;
             payload_base64 = take n (drop (hdr_end + 1) token);
             signature_base64 = drop (hdr_end + 1 + n + 1) token in
         and_then (decode_part header_base64) (\<lambda>header.
         and_then (decode_part payload_base64) (\<lambda>payload.
         and_then (decode_part signature_base64) (\<lambda>signature.
         and_then (parse_claims fl header) (\<lambda>header_claims.
         and_then (parse_claims fl payload) (\<lambda>payload_claims.
           Inr \<lparr>dj_token = token, dj_header = header, dj_header_base64 = header_base64,
             dj_payload = payload, dj_payload_base64 = payload_base64,
             dj_signature = signature, dj_signature_base64 = signature_base64,
             dj_header_claims = header_claims, dj_payload_claims = payload_claims\<rparr>)))))))"

section \<open>Building\<close>

record 'n builder =
  b_header_claims :: "'n claims"
  b_payload_claims :: "'n claims"

definition create :: "'n builder" where
  "create = \<lparr>b_header_claims = [], b_payload_claims = []\<rparr>"

definition set_header_claim :: "string \<Rightarrow> 'n json \<Rightarrow> 'n builder \<Rightarrow> 'n builder" where
  "set_header_claim name c b = b\<lparr>b_header_claims := smap_put name c (b_header_claims b)\<rparr>"

definition set_payload_claim :: "string \<Rightarrow> 'n json \<Rightarrow> 'n builder \<Rightarrow> 'n builder" where
  "set_payload_claim name c b = b\<lparr>b_payload_claims := smap_put name c (b_payload_claims b)\<rparr>"

definition set_issuer :: "string \<Rightarrow> 'n builder \<Rightarrow> 'n builder" where
  "set_issuer str = set_payload_claim ''iss'' (claim_of_string str)"

definition set_audience :: "string_set \<Rightarrow> 'n builder \<Rightarrow> 'n builder" where
  "set_audience l = set_payload_claim ''aud'' (claim_of_set l)"

definition set_expires_at :: "int \<Rightarrow> 'n builder \<Rightarrow> 'n builder" where
  "set_expires_at d = set_payload_claim ''exp'' (claim_of_date d)"

definition set_not_before :: "int \<Rightarrow> 'n builder \<Rightarrow> 'n builder" where
  "set_not_before d = set_payload_claim ''nbf'' (claim_of_date d)"

definition set_issued_at :: "int \<Rightarrow> 'n builder \<Rightarrow> 'n builder" where
  "set_issued_at d = set_payload_claim ''iat'' (claim_of_date d)"

definition object_of_header :: "algorithm \<Rightarrow> 'n builder \<Rightarrow> 'n claims" where
  "object_of_header algo b =
     foldl (\<lambda>m (k, v). smap_put k v m) (smap_put ''alg'' (JString (alg_name algo)) []) (b_header_claims b)"

definition object_of_payload :: "'n builder \<Rightarrow> 'n claims" where
  "object_of_payload b = foldl (\<lambda>m (k, v). smap_insert k v m) [] (b_payload_claims b)"

definition sign :: "'n floats \<Rightarrow> hmac \<Rightarrow> algorithm \<Rightarrow> 'n builder \<Rightarrow> string outcome" where
  "sign fl hmac algo b =
     (let header = encode_part (serialize fl False (JObject (object_of_header algo b)));
          payload = encode_part (serialize fl False (JObject (object_of_payload b)));
          token = header @ ''.'' @ payload
      in and_then (alg_sign hmac algo token) (\<lambda>signature. Inr (token @ ''.'' @ encode_part signature)))"

section \<open>Verifying\<close>

text \<open>The clock is an argument of \<open>verify\<close>.\<close>

record 'n verifier =
  v_claims :: "'n claims"
  v_leeway :: nat
  v_algs :: "algorithm smap"

definition new_verifier :: "'n verifier" where
  "new_verifier = \<lparr>v_claims = [], v_leeway = 0, v_algs = []\<rparr>"

definition leeway :: "nat \<Rightarrow> 'n verifier \<Rightarrow> 'n verifier" where
  "leeway l v = v\<lparr>v_leeway := l\<rparr>"

definition with_claim :: "string \<Rightarrow> 'n json \<Rightarrow> 'n verifier \<Rightarrow> 'n verifier" where
  "with_claim name c v = v\<lparr>v_claims := smap_put name c (v_claims v)\<rparr>"

definition with_leeway :: "string \<Rightarrow> nat \<Rightarrow> 'n verifier \<Rightarrow> 'n verifier outcome" where
  "with_leeway name l v = and_then (from_time_t (signed64 (int l))) (\<lambda>d. Inr (with_claim name (claim_of_date d) v))"

definition with_issuer :: "string \<Rightarrow> 'n verifier \<Rightarrow> 'n verifier" where
  "with_issuer iss = with_claim ''iss'' (claim_of_string iss)"

definition with_audience :: "string_set \<Rightarrow> 'n verifier \<Rightarrow> 'n verifier" where
  "with_audience aud = with_claim ''aud'' (claim_of_set aud)"

definition allow_algorithm :: "algorithm \<Rightarrow> 'n verifier \<Rightarrow> 'n verifier" where
  "allow_algorithm alg v = v\<lparr>v_algs := smap_put (alg_name alg) alg (v_algs v)\<rparr>"

text \<open>Every failed check throws \<open>token_verification_exception\<close>.\<close>

definition ensure :: "bool \<Rightarrow> unit outcome" where
  "ensure b = (if b then Inr () else Inl StdRuntimeError)"

lemma ensure_iff [simp]: "ensure b = Inr () \<longleftrightarrow> b" "ensure b = Inr u \<longleftrightarrow> b" "ensure b \<noteq> Inl Undefined"
  by (simp_all add: ensure_def)

fun same_elements :: "string_set \<Rightarrow> string_set \<Rightarrow> bool" where
  "same_elements ((a, _) # s1) ((b, _) # s2) = (if a \<noteq> b then False else same_elements s1 s2)"
| "same_elements _ _ = True"

definition assert_claim_eq :: "'n floats \<Rightarrow> 'n claims \<Rightarrow> string \<Rightarrow> 'n json \<Rightarrow> unit outcome" where
  "assert_claim_eq fl payload key c =
     (if \<not> has_claim payload key then Inl StdRuntimeError
      else and_then (get_claim payload key) (\<lambda>jc.
        if claim_get_type jc \<noteq> claim_get_type c then Inl StdRuntimeError
        else case claim_get_type c of
          Int64_type \<Rightarrow> and_then (as_date c) (\<lambda>d1. and_then (as_date jc) (\<lambda>d2. ensure (d1 = d2)))
        | Array_type \<Rightarrow> and_then (as_set c) (\<lambda>s1. and_then (as_set jc) (\<lambda>s2.
            if length s1 \<noteq> length s2 then Inl StdRuntimeError else ensure (same_elements s1 s2)))
        | Object_type \<Rightarrow> ensure (serialize fl False c = serialize fl False jc)
        | String_type \<Rightarrow> and_then (as_string c) (\<lambda>s1. and_then (as_string jc) (\<lambda>s2. ensure (s1 = s2)))
        | _ \<Rightarrow> Inl StdRuntimeError))"

text \<open>The leeway of a date: a claim of the verifier with the name of the date, or the default.\<close>

definition leeway_of :: "'n verifier \<Rightarrow> string \<Rightarrow> int outcome" where
  "leeway_of v name = (case smap_find (v_claims v) name of
     Some c \<Rightarrow> and_then (as_date c) (\<lambda>d. Inr (signed64 (to_time_t d)))
   | None \<Rightarrow> Inr (signed64 (int (v_leeway v))))"

definition check_date ::
    "'n verifier \<Rightarrow> 'n claims \<Rightarrow> string \<Rightarrow> (int \<Rightarrow> int \<Rightarrow> int outcome) \<Rightarrow> (int \<Rightarrow> bool) \<Rightarrow> unit outcome" where
  "check_date v payload name shift in_time =
     (if has_claim payload name then
        and_then (leeway_of v name) (\<lambda>l.
        and_then (and_then (get_claim payload name) as_date) (\<lambda>d.
        and_then (shift d l) (\<lambda>limit. ensure (in_time limit))))
      else Inr ())"

definition check_audience :: "'n claims \<Rightarrow> 'n json \<Rightarrow> unit outcome" where
  "check_audience payload c =
     (if \<not> has_claim payload ''aud'' then Inl StdRuntimeError
      else and_then (get_audience payload) (\<lambda>aud. and_then (as_set c) (\<lambda>expected.
        ensure (list_all (\<lambda>(e, _). smap_find aud e \<noteq> None) expected))))"

definition check_claim :: "'n floats \<Rightarrow> 'n claims \<Rightarrow> string \<Rightarrow> 'n json \<Rightarrow> unit outcome" where
  "check_claim fl payload key c =
     (if key = ''exp'' \<or> key = ''iat'' \<or> key = ''nbf'' then Inr ()
      else if key = ''aud'' then check_audience payload c
      else assert_claim_eq fl payload key c)"

fun check_claims :: "'n floats \<Rightarrow> 'n claims \<Rightarrow> 'n claims \<Rightarrow> unit outcome" where
  "check_claims fl payload [] = Inr ()"
| "check_claims fl payload ((key, c) # cs) = and_then (check_claim fl payload key c) (\<lambda>_. check_claims fl payload cs)"

definition check_signature :: "hmac \<Rightarrow> 'n verifier \<Rightarrow> 'n decoded_jwt \<Rightarrow> unit outcome" where
  "check_signature hmac v jwt =
     (let data = dj_header_base64 jwt @ ''.'' @ dj_payload_base64 jwt in
      and_then (and_then (get_claim (dj_header_claims jwt) ''alg'') as_string) (\<lambda>algo.
        case smap_find (v_algs v) algo of
          None \<Rightarrow> Inl StdRuntimeError
        | Some alg \<Rightarrow> alg_verify hmac alg data (dj_signature jwt)))"

definition verify :: "'n floats \<Rightarrow> hmac \<Rightarrow> 'n verifier \<Rightarrow> int \<Rightarrow> 'n decoded_jwt \<Rightarrow> unit outcome" where
  "verify fl hmac v time jwt =
     (let payload = dj_payload_claims jwt in
      and_then (check_signature hmac v jwt) (\<lambda>_.
      and_then (check_date v payload ''exp'' plus_seconds (\<lambda>limit. time \<le> limit)) (\<lambda>_.
      and_then (check_date v payload ''iat'' minus_seconds (\<lambda>limit. limit \<le> time)) (\<lambda>_.
      and_then (check_date v payload ''nbf'' minus_seconds (\<lambda>limit. limit \<le> time)) (\<lambda>_.
        check_claims fl payload (v_claims v))))))"

section \<open>A signed token is decoded to what was signed\<close>

text \<open>Claims that survive the text form: no floating point numbers, 64-bit integers.\<close>

definition claims_ok :: "'n claims \<Rightarrow> bool" where
  "claims_ok cs \<longleftrightarrow> smap_ok cs \<and> list_all (\<lambda>(k, v). json_ok v) cs"

lemma claims_ok_put [simp]: "claims_ok cs \<Longrightarrow> json_ok c \<Longrightarrow> claims_ok (smap_put k c cs)"
  by (simp add: claims_ok_def smap_put_def list_all_smap_modify)

lemma claims_ok_insert [simp]: "claims_ok cs \<Longrightarrow> json_ok c \<Longrightarrow> claims_ok (smap_insert k c cs)"
  by (auto simp add: claims_ok_def smap_insert_def intro!: list_all_smap_modify)

lemma claims_ok_Nil [simp]: "claims_ok []"
  by (simp add: claims_ok_def)

definition builder_ok :: "'n builder \<Rightarrow> bool" where
  "builder_ok b \<longleftrightarrow> claims_ok (b_header_claims b) \<and> claims_ok (b_payload_claims b)"

lemma builder_ok_create [simp]: "builder_ok create"
  by (simp add: builder_ok_def create_def)

lemma builder_ok_set [simp]:
  "builder_ok b \<Longrightarrow> json_ok c \<Longrightarrow> builder_ok (set_header_claim name c b)"
  "builder_ok b \<Longrightarrow> json_ok c \<Longrightarrow> builder_ok (set_payload_claim name c b)"
  by (simp_all add: builder_ok_def set_header_claim_def set_payload_claim_def)

text \<open>Copying the entries of a map one by one gives the map; over other entries it overrides them.\<close>

lemma foldl_put:
  assumes "smap_ok m" and "smap_ok es"
  shows "smap_ok (foldl (\<lambda>m (k, v). smap_put k v m) m es) \<and>
    smap_find (foldl (\<lambda>m (k, v). smap_put k v m) m es) k =
      (case smap_find es k of None \<Rightarrow> smap_find m k | Some v \<Rightarrow> Some v)"
  using assms
proof (induction es arbitrary: m)
  case Nil
  then show ?case by simp
next
  case (Cons e es)
  obtain k' v where e: "e = (k', v)" by force
  have ok: "smap_ok es" and less: "\<forall>x\<in>set (map fst es). k' < x"
    using Cons.prems(2) by (simp_all add: e smap_ok_def)
  have "smap_find es k' = None" using less by (rule smap_find_notin)
  then show ?case
    using Cons.IH [of "smap_put k' v m"] Cons.prems(1) ok
    by (auto simp: e smap_find_Cons split: option.split)
qed

lemma foldl_insert:
  assumes "smap_ok m" and "smap_ok es" and "\<forall>k. smap_find m k \<noteq> None \<longrightarrow> smap_find es k = None"
  shows "smap_ok (foldl (\<lambda>m (k, v). smap_insert k v m) m es) \<and>
    smap_find (foldl (\<lambda>m (k, v). smap_insert k v m) m es) k =
      (case smap_find es k of None \<Rightarrow> smap_find m k | Some v \<Rightarrow> Some v)"
  using assms
proof (induction es arbitrary: m)
  case Nil
  then show ?case by simp
next
  case (Cons e es)
  obtain k' v where e: "e = (k', v)" by force
  have ok: "smap_ok es" and less: "\<forall>x\<in>set (map fst es). k' < x"
    using Cons.prems(2) by (simp_all add: e smap_ok_def)
  have absent: "smap_find es k' = None" using less by (rule smap_find_notin)
  have here: "smap_find (e # es) k' = Some v" by (simp add: e smap_find_Cons)
  then have new: "smap_find m k' = None" using Cons.prems(3) by (cases "smap_find m k'") auto
  have "\<forall>k. smap_find (smap_insert k' v m) k \<noteq> None \<longrightarrow> smap_find es k = None"
    using Cons.prems(1,3) absent by (auto simp: e smap_find_Cons split: if_splits)
  from Cons.IH [OF _ ok this] Cons.prems(1) absent new show ?case
    by (auto simp: e smap_find_Cons split: option.split)
qed

lemma claims_ok_iff: "claims_ok cs \<longleftrightarrow> smap_ok cs \<and> (\<forall>k v. smap_find cs k = Some v \<longrightarrow> json_ok v)"
proof (cases "smap_ok cs")
  case True
  then show ?thesis using smap.entries_mem [OF True] by (force simp: claims_ok_def list_all_iff)
qed (simp add: claims_ok_def)

lemma object_of_header:
  assumes "builder_ok b"
  shows "claims_ok (object_of_header algo b)"
    and "smap_find (object_of_header algo b) k = (case smap_find (b_header_claims b) k of
      None \<Rightarrow> if k = ''alg'' then Some (JString (alg_name algo)) else None | Some v \<Rightarrow> Some v)"
proof -
  have ok: "smap_ok (b_header_claims b)" "\<forall>k v. smap_find (b_header_claims b) k = Some v \<longrightarrow> json_ok v"
    using assms by (simp_all add: builder_ok_def claims_ok_iff)
  have start: "smap_ok (smap_put ''alg'' (JString (alg_name algo)) [])" by simp
  note copy = foldl_put [OF start ok(1)]
  then show find: "smap_find (object_of_header algo b) k = (case smap_find (b_header_claims b) k of
      None \<Rightarrow> if k = ''alg'' then Some (JString (alg_name algo)) else None | Some v \<Rightarrow> Some v)" for k
    by (simp add: object_of_header_def split: option.split)
  show "claims_ok (object_of_header algo b)"
    using ok(2) copy unfolding claims_ok_iff find
    by (auto simp: object_of_header_def split: option.splits if_splits)
qed

lemma object_of_payload:
  assumes "builder_ok b"
  shows "object_of_payload b = b_payload_claims b"
proof (rule smap_eqI)
  have ok: "smap_ok (b_payload_claims b)" using assms by (simp add: builder_ok_def claims_ok_def)
  note copy = foldl_insert [OF smap.ok_empty ok]
  show "smap_ok (object_of_payload b)" "smap_ok (b_payload_claims b)"
    "smap_find (object_of_payload b) = smap_find (b_payload_claims b)"
    using copy ok by (auto simp: object_of_payload_def fun_eq_iff split: option.split)
qed

lemma parse_claims_serialize [simp]:
  "claims_ok cs \<Longrightarrow> parse_claims fl (serialize fl False (JObject cs)) = Inr cs"
  using parse_serialize [of "JObject cs" fl] by (simp add: parse_claims_def claims_ok_def)

text \<open>An algorithm that accepts its own signatures, as none and HMAC do.\<close>

definition alg_sound :: "hmac \<Rightarrow> algorithm \<Rightarrow> bool" where
  "alg_sound hmac algo \<longleftrightarrow>
     (\<forall>data signature. alg_sign hmac algo data = Inr signature \<longrightarrow> alg_verify hmac algo data signature = Inr ())"

lemma alg_sound_simps [simp]: "alg_sound hmac No_signature" "alg_sound hmac (Hmac a)"
  by (auto simp: alg_sound_def none_sign_def none_verify_def hmac_sign_def split: option.splits)

lemma str_find_dot: "CHR ''.'' \<notin> set a \<Longrightarrow> str_find ''.'' (a @ CHR ''.'' # b) = Some (length a)"
  by (induction a) auto

lemma no_dot: "CHR ''.'' \<notin> set (encode_part data)"
proof -
  have "CHR ''.'' \<notin> set base64url_data" by code_simp
  then show ?thesis using encode_part_letters [of data] by blast
qed

definition signed_parts :: "'n floats \<Rightarrow> algorithm \<Rightarrow> 'n builder \<Rightarrow> string \<Rightarrow> 'n decoded_jwt" where
  "signed_parts fl algo b signature =
     (let header = serialize fl False (JObject (object_of_header algo b));
          payload = serialize fl False (JObject (b_payload_claims b))
      in \<lparr>dj_token = encode_part header @ ''.'' @ encode_part payload @ ''.'' @ encode_part signature,
          dj_header = header, dj_header_base64 = encode_part header,
          dj_payload = payload, dj_payload_base64 = encode_part payload,
          dj_signature = signature, dj_signature_base64 = encode_part signature,
          dj_header_claims = object_of_header algo b, dj_payload_claims = b_payload_claims b\<rparr>)"

lemma sign_parts:
  assumes "builder_ok b" and "sign fl hmac algo b = Inr token"
  obtains signature where "token = dj_token (signed_parts fl algo b signature)"
    and "alg_sign hmac algo (dj_header_base64 (signed_parts fl algo b signature) @ ''.'' @
        dj_payload_base64 (signed_parts fl algo b signature)) = Inr signature"
  using assms(2) object_of_payload [OF assms(1)] that
  by (auto simp: sign_def signed_parts_def Let_def and_then_Inr_iff)

lemma decode_signed:
  assumes "builder_ok b"
  shows "decode_jwt fl (dj_token (signed_parts fl algo b signature)) = Inr (signed_parts fl algo b signature)"
proof -
  have payload: "claims_ok (b_payload_claims b)" using assms by (simp add: builder_ok_def)
  show ?thesis
    using object_of_header(1) [OF assms, of algo] payload
    by (simp add: decode_jwt_def signed_parts_def Let_def str_find_dot no_dot)
qed

lemma decode_sign:
  assumes "builder_ok b" and "sign fl hmac algo b = Inr token" and "alg_sound hmac algo"
  obtains jwt where "decode_jwt fl token = Inr jwt" and "dj_token jwt = token"
    and "dj_payload_claims jwt = b_payload_claims b" and "dj_header_claims jwt = object_of_header algo b"
    and "alg_verify hmac algo (dj_header_base64 jwt @ ''.'' @ dj_payload_base64 jwt) (dj_signature jwt) = Inr ()"
proof -
  obtain signature where s: "token = dj_token (signed_parts fl algo b signature)"
    "alg_sign hmac algo (dj_header_base64 (signed_parts fl algo b signature) @ ''.'' @
        dj_payload_base64 (signed_parts fl algo b signature)) = Inr signature"
    by (rule sign_parts [OF assms(1,2)])
  have parts: "dj_payload_claims (signed_parts fl algo b signature) = b_payload_claims b"
    "dj_header_claims (signed_parts fl algo b signature) = object_of_header algo b"
    "dj_signature (signed_parts fl algo b signature) = signature"
    by (simp_all add: signed_parts_def Let_def)
  show ?thesis
    by (rule that [OF decode_signed [OF assms(1), of fl algo signature, folded s(1)] s(1) [symmetric] parts(1,2)])
      (use s(2) assms(3) in \<open>simp only: parts(3) alg_sound_def\<close>)
qed

lemma signed_letters:
  assumes "builder_ok b" and "sign fl hmac algo b = Inr token"
  shows "set token \<subseteq> insert (CHR ''.'') (set base64url_data)"
proof -
  obtain signature where "token = dj_token (signed_parts fl algo b signature)" by (rule sign_parts [OF assms])
  then show ?thesis using encode_part_letters by (auto simp: signed_parts_def Let_def)
qed

section \<open>Decoding is defined on every text\<close>

lemma parse_claims_error:
  assumes "parse_claims fl str = Inl e"
  shows "e = StdRuntimeError"
proof (cases "parse_json fl str")
  case (Inl e')
  then have "parse_value fl (json_fuel str) (new_input str) = Inl e'"
    by (auto simp: parse_json_def and_then_Inl_iff)
  then have "e' = StdRuntimeError" using parse_errors [of fl "json_fuel str"] by blast
  with assms Inl show ?thesis by (simp add: parse_claims_def)
next
  case (Inr x)
  then obtain err v where x: "x = Some (err, v)" using parse_json_ends [of fl str] by (cases x) auto
  show ?thesis
  proof (cases "err = []")
    case True
    with assms Inr x show ?thesis by (cases v) (auto simp: parse_claims_def split: json.splits)
  qed (use assms Inr x in \<open>simp add: parse_claims_def\<close>)
qed

lemma decode_jwt_error: "decode_jwt fl token = Inl e \<Longrightarrow> e = InvalidArgument \<or> e = StdRuntimeError"
  by (auto simp: decode_jwt_def Let_def and_then_Inl_iff split: option.splits
      dest: decode_part_error parse_claims_error)

lemma str_find_split:
  assumes "str_find [c] s = Some i"
  shows "s = take i s @ c # drop (i + 1) s" and "c \<notin> set (take i s)"
proof -
  have "i \<le> length s" "prefix [c] (drop i s)" using str_find_Some [OF assms] by simp_all
  then show "s = take i s @ c # drop (i + 1) s"
    by (metis (no_types) Cons_prefix_Cons append_take_drop_id drop_Suc tl_drop Suc_eq_plus1 list.sel(3) prefixE append_Cons append_Nil)
  show "c \<notin> set (take i s)"
  proof
    assume "c \<in> set (take i s)"
    then obtain j where j: "j < i" "j < length s" "s ! j = c" by (auto simp: in_set_conv_nth)
    then have "prefix [c] (drop j s)" by (simp add: Cons_nth_drop_Suc [symmetric])
    with str_find_least [OF assms j(1)] show False ..
  qed
qed

lemma decode_jwt_parts:
  assumes "decode_jwt fl token = Inr jwt"
  shows "token = dj_header_base64 jwt @ ''.'' @ dj_payload_base64 jwt @ ''.'' @ dj_signature_base64 jwt"
    and "CHR ''.'' \<notin> set (dj_header_base64 jwt)" and "CHR ''.'' \<notin> set (dj_payload_base64 jwt)"
    and "decode_part (dj_header_base64 jwt) = Inr (dj_header jwt)"
    and "decode_part (dj_payload_base64 jwt) = Inr (dj_payload jwt)"
    and "decode_part (dj_signature_base64 jwt) = Inr (dj_signature jwt)"
    and "parse_claims fl (dj_header jwt) = Inr (dj_header_claims jwt)"
    and "parse_claims fl (dj_payload jwt) = Inr (dj_payload_claims jwt)"
proof -
  obtain i n where i: "str_find ''.'' token = Some i" and n: "str_find ''.'' (drop (i + 1) token) = Some n"
    and jwt: "dj_header_base64 jwt = take i token" "dj_payload_base64 jwt = take n (drop (i + 1) token)"
      "dj_signature_base64 jwt = drop (i + 1 + n + 1) token"
    using assms by (auto simp: decode_jwt_def Let_def and_then_Inr_iff split: option.splits)
  have "drop (i + 1 + n + 1) token = drop (n + 1) (drop (i + 1) token)" by (simp add: add.commute add.left_commute)
  with str_find_split(1) [OF i] str_find_split(1) [OF n]
  show "token = dj_header_base64 jwt @ ''.'' @ dj_payload_base64 jwt @ ''.'' @ dj_signature_base64 jwt"
    unfolding jwt by (metis append_Cons append_Nil)
  show "CHR ''.'' \<notin> set (dj_header_base64 jwt)" "CHR ''.'' \<notin> set (dj_payload_base64 jwt)"
    unfolding jwt using str_find_split(2) [OF i] str_find_split(2) [OF n] by simp_all
qed (use assms in \<open>auto simp: decode_jwt_def Let_def and_then_Inr_iff split: option.splits\<close>)

section \<open>Properties\<close>

text \<open>
  C21: A token round trips: for every set of claims without floating point numbers and every algorithm
  that accepts its own signatures (none and HMAC do), what \<open>sign\<close> returns is decoded to the same payload claims and to the header claims with the name of
  the algorithm filled in, and the signature verifies.
\<close>

theorem token_roundtrip:
  assumes "builder_ok b" and "sign fl hmac algo b = Inr token" and "alg_sound hmac algo"
  shows "\<exists>jwt. decode_jwt fl token = Inr jwt \<and> dj_payload_claims jwt = b_payload_claims b \<and>
    (\<forall>name. smap_find (dj_header_claims jwt) name = (case smap_find (b_header_claims b) name of
       None \<Rightarrow> if name = ''alg'' then Some (JString (alg_name algo)) else None | Some c \<Rightarrow> Some c)) \<and>
    alg_verify hmac algo (dj_header_base64 jwt @ ''.'' @ dj_payload_base64 jwt) (dj_signature jwt) = Inr ()"
proof -
  obtain jwt where "decode_jwt fl token = Inr jwt" "dj_payload_claims jwt = b_payload_claims b"
    "dj_header_claims jwt = object_of_header algo b"
    "alg_verify hmac algo (dj_header_base64 jwt @ ''.'' @ dj_payload_base64 jwt) (dj_signature jwt) = Inr ()"
    by (rule decode_sign [OF assms])
  then show ?thesis by (simp add: object_of_header(2) [OF assms(1)])
qed

text \<open>A hash function for concrete runs: the last byte of the data and the length of the key.\<close>

definition toy_hmac :: hmac where
  "toy_hmac md key data = Some [last data, char_of (length key)]"

definition toy_builder :: "unit builder" where
  "toy_builder = set_header_claim ''typ'' (JString ''JWT'') (set_payload_claim ''n'' (JInt64 7) create)"

theorem token_roundtrip_witness:
  "\<exists>token jwt. sign no_floats toy_hmac (Hmac (hs256 ''k'')) toy_builder = Inr token \<and>
     decode_jwt no_floats token = Inr jwt \<and> dj_payload_claims jwt = [(''n'', JInt64 7)]"
proof -
  have ok: "builder_ok toy_builder" by (simp add: toy_builder_def int64_range_def)
  have "\<exists>token. sign no_floats toy_hmac (Hmac (hs256 ''k'')) toy_builder = Inr token"
    by (simp add: sign_def hmac_sign_def toy_hmac_def Let_def)
  then obtain token where token: "sign no_floats toy_hmac (Hmac (hs256 ''k'')) toy_builder = Inr token" ..
  have "b_payload_claims toy_builder = [(''n'', JInt64 7)]"
    by (simp add: toy_builder_def set_header_claim_def set_payload_claim_def create_def smap_put_def)
  with token_roundtrip [OF ok token alg_sound_simps(2)] token show ?thesis by auto
qed

end
