(* ===== verification/Cookie_Tokens.thy ===== *)
theory Cookie_Tokens
  imports Jwt Cookie
begin

text \<open>
  The session cookies of \<open>src/cookie.cc\<close> on top of the model of jwt-cpp: the calls with their
  exceptions, on a clock in nanoseconds, and the library record that the theory \<open>Cookie\<close> takes as a
  parameter.  What remains a parameter is OpenSSL's \<open>HMAC\<close> and the C library's floating point numbers.
\<close>

section \<open>The calls of cookie.cc\<close>

text \<open>\<open>Cookie::verifier\<close>, for any secret and issuer.\<close>

definition cookie_verifier :: "string \<Rightarrow> string \<Rightarrow> 'n verifier" where
  "cookie_verifier secret iss = with_issuer iss (allow_algorithm (Hmac (hs256 secret)) new_verifier)"

text \<open>The builder of \<open>Cookie::generate_cookie\<close>; the clock is read twice.\<close>

definition cookie_builder :: "string \<Rightarrow> int \<Rightarrow> int \<Rightarrow> string \<Rightarrow> 'n builder" where
  "cookie_builder iss issued expires username =
     set_payload_claim ''username'' (claim_of_string username)
      (set_expires_at expires (set_issued_at issued (set_issuer iss create)))"

definition generate_token :: "'n floats \<Rightarrow> hmac \<Rightarrow> int \<Rightarrow> int \<Rightarrow> string \<Rightarrow> string outcome" where
  "generate_token fl hmac now1 now2 username =
     and_then (plus_seconds now2 TIME_TO_LIVE) (\<lambda>expires.
       sign fl hmac (Hmac (hs256 SECRET)) (cookie_builder ''foxy-4'' now1 expires username))"

text \<open>\<open>catch (...)\<close> catches every exception, but not undefined behaviour.\<close>

definition verify_token :: "'n floats \<Rightarrow> hmac \<Rightarrow> int \<Rightarrow> string \<Rightarrow> bool outcome" where
  "verify_token fl hmac now cookie =
     (case and_then (decode_jwt fl cookie) (verify fl hmac (cookie_verifier SECRET ''foxy-4'') now) of
        Inr u \<Rightarrow> Inr True
      | Inl e \<Rightarrow> if e = Undefined then Inl Undefined else Inr False)"

section \<open>The library that the server uses\<close>

text \<open>
  With a clock in seconds.  Where signing or verifying does not return, the record gives an empty
  token and false.
\<close>

definition jwt_cpp :: "'n floats \<Rightarrow> hmac \<Rightarrow> 'n decoded_jwt jwt_library" where
  "jwt_cpp fl hmac = \<lparr>
     jwt_sign = (\<lambda>secret cs. case sign fl hmac (Hmac (hs256 secret))
         (cookie_builder (issuer cs) (issued_at cs * SECOND) (expires_at cs * SECOND) (username_claim cs)) of
       Inl e \<Rightarrow> [] | Inr token \<Rightarrow> token),
     jwt_decode = (\<lambda>token. case decode_jwt fl token of Inl e \<Rightarrow> None | Inr jwt \<Rightarrow> Some jwt),
     jwt_verify = (\<lambda>secret iss now jwt. verify fl hmac (cookie_verifier secret iss) (now * SECOND) jwt = Inr ())\<rparr>"

section \<open>Verifying a cookie\<close>

lemma cookie_verifier_simps [simp]:
  "v_claims (cookie_verifier secret iss) = [(''iss'', JString iss)]"
  "v_leeway (cookie_verifier secret iss) = 0"
  "v_algs (cookie_verifier secret iss) = [(''HS256'', Hmac (hs256 secret))]"
  by (simp_all add: cookie_verifier_def with_issuer_def with_claim_def allow_algorithm_def new_verifier_def
      claim_of_string_def smap_put_def hs256_def)

text \<open>Without a leeway the dates are compared as they are.\<close>

definition date_ok :: "'n claims \<Rightarrow> string \<Rightarrow> (int \<Rightarrow> bool) \<Rightarrow> bool" where
  "date_ok payload name in_time \<longleftrightarrow> (\<forall>c. smap_find payload name = Some c \<longrightarrow>
     (\<exists>n. c = JInt64 n \<and> int64_range (n * SECOND) \<and> in_time (n * SECOND)))"

lemma no_leeway [simp]: "plus_seconds d 0 = (if int64_range d then Inr d else Inl Undefined)"
  "minus_seconds d 0 = (if int64_range d then Inr d else Inl Undefined)"
  by (simp_all add: plus_seconds_def minus_seconds_def int64_range_def)

lemma leeway_zero: "name \<noteq> ''iss'' \<Longrightarrow> leeway_of (cookie_verifier secret iss) name = Inr 0"
  by (simp add: leeway_of_def smap_find_Cons signed64_def)

lemma as_date_iff: "as_date c = Inr d \<longleftrightarrow> (\<exists>n. c = JInt64 n \<and> int64_range (n * SECOND) \<and> d = n * SECOND)"
  by (auto simp: as_date_def as_int_def from_time_t_def and_then_Inr_iff split: json.splits)

lemma check_date_iff:
  assumes "name \<noteq> ''iss''" and "shift = plus_seconds \<or> shift = minus_seconds"
  shows "check_date (cookie_verifier secret iss) payload name shift in_time = Inr () \<longleftrightarrow> date_ok payload name in_time"
proof -
  have "and_then (shift d 0) (\<lambda>limit. ensure (in_time limit)) = Inr () \<longleftrightarrow> int64_range d \<and> in_time d" for d
    using assms(2) by (elim disjE) (simp_all split: if_split)
  then show ?thesis
    by (auto simp: check_date_def has_claim_def get_claim_def leeway_zero [OF assms(1)] date_ok_def
        and_then_Inr_iff as_date_iff split: option.splits)
qed

lemma assert_issuer_iff:
  "assert_claim_eq fl payload key (JString s) = Inr () \<longleftrightarrow> smap_find payload key = Some (JString s)"
proof (cases "smap_find payload key")
  case (Some c)
  then show ?thesis
    by (cases c) (auto simp: assert_claim_eq_def has_claim_def get_claim_def as_string_def)
qed (simp add: assert_claim_eq_def has_claim_def)

lemma as_string_iff: "as_string c = Inr s \<longleftrightarrow> c = JString s"
  by (auto simp: as_string_def split: json.splits)

lemma check_signature_iff:
  "check_signature hmac (cookie_verifier secret iss) jwt = Inr () \<longleftrightarrow>
     smap_find (dj_header_claims jwt) ''alg'' = Some (JString ''HS256'') \<and>
     hmac SHA256 secret (dj_header_base64 jwt @ ''.'' @ dj_payload_base64 jwt) = Some (dj_signature jwt)"
  by (auto simp: check_signature_def get_claim_def as_string_iff and_then_Inr_iff smap_find_Cons hs256_def
      split: option.splits if_splits)

lemma verify_cookie_iff:
  "verify fl hmac (cookie_verifier secret iss) time jwt = Inr () \<longleftrightarrow>
     smap_find (dj_header_claims jwt) ''alg'' = Some (JString ''HS256'') \<and>
     hmac SHA256 secret (dj_header_base64 jwt @ ''.'' @ dj_payload_base64 jwt) = Some (dj_signature jwt) \<and>
     date_ok (dj_payload_claims jwt) ''exp'' (\<lambda>limit. time \<le> limit) \<and>
     date_ok (dj_payload_claims jwt) ''iat'' (\<lambda>limit. limit \<le> time) \<and>
     date_ok (dj_payload_claims jwt) ''nbf'' (\<lambda>limit. limit \<le> time) \<and>
     smap_find (dj_payload_claims jwt) ''iss'' = Some (JString iss)"
  by (simp add: verify_def Let_def and_then_Inr_iff check_signature_iff check_date_iff check_claim_def assert_issuer_iff)

text \<open>Verifying is defined as long as no date is out of the range of the clock.\<close>

definition dates_in_range :: "'n claims \<Rightarrow> bool" where
  "dates_in_range payload \<longleftrightarrow> (\<forall>name n. name \<in> {''exp'', ''iat'', ''nbf''} \<longrightarrow>
     smap_find payload name = Some (JInt64 n) \<longrightarrow> int64_range (n * SECOND))"

lemma as_date_error: "as_date c = Inl e \<Longrightarrow> e = StdBadCast \<or> (\<exists>n. c = JInt64 n \<and> \<not> int64_range (n * SECOND))"
  by (auto simp: as_date_def as_int_def from_time_t_def split: json.splits if_splits)

lemma check_date_defined:
  assumes "dates_in_range payload" and "name \<in> {''exp'', ''iat'', ''nbf''}"
    and "shift = plus_seconds \<or> shift = minus_seconds"
  shows "check_date (cookie_verifier secret iss) payload name shift in_time \<noteq> Inl Undefined"
proof (cases "smap_find payload name")
  case (Some c)
  have name: "name \<noteq> ''iss''" using assms(2) by auto
  have shift: "shift d 0 = (if int64_range d then Inr d else Inl Undefined)" for d using assms(3) by auto
  show ?thesis
  proof (cases "as_date c")
    case (Inl e)
    have "e \<noteq> Undefined" using as_date_error [OF Inl] assms(1,2) Some unfolding dates_in_range_def by auto
    with Some Inl show ?thesis by (simp add: check_date_def has_claim_def get_claim_def leeway_zero [OF name])
  next
    case (Inr d)
    then have "int64_range d" by (auto simp: as_date_iff)
    with Some Inr show ?thesis
      by (simp add: check_date_def has_claim_def get_claim_def leeway_zero [OF name] shift)
  qed
qed (simp add: check_date_def has_claim_def)

lemma check_signature_error:
  "check_signature hmac (cookie_verifier secret iss) jwt = Inl e \<Longrightarrow> e \<noteq> Undefined"
proof -
  have text_error: "as_string c = Inl e \<Longrightarrow> e = StdBadCast" for e and c :: "'a json"
    by (auto simp: as_string_def split: json.splits)
  have mac_error: "hmac_verify hmac a data signature = Inl e \<Longrightarrow> e = StdRuntimeError" for a data signature e
    using hmac_verify_cases [of hmac a data signature] by auto
  show "check_signature hmac (cookie_verifier secret iss) jwt = Inl e \<Longrightarrow> e \<noteq> Undefined"
    by (auto simp: check_signature_def get_claim_def and_then_Inl_iff smap_find_Cons
        split: option.splits if_splits dest: text_error mac_error)
qed

lemma assert_issuer_error: "assert_claim_eq fl payload key (JString s) \<noteq> Inl Undefined"
proof (cases "smap_find payload key")
  case (Some c)
  then show ?thesis by (cases c) (auto simp: assert_claim_eq_def has_claim_def get_claim_def as_string_def)
qed (simp add: assert_claim_eq_def has_claim_def)

lemma verify_cookie_defined:
  assumes "dates_in_range (dj_payload_claims jwt)"
  shows "verify fl hmac (cookie_verifier secret iss) time jwt \<noteq> Inl Undefined"
  by (auto simp: verify_def Let_def and_then_Inl_iff check_claim_def check_date_defined [OF assms] assert_issuer_error
      dest: check_signature_error)

section \<open>A cookie that was generated\<close>

lemma to_time_t_range:
  assumes "int64_range d"
  shows "int64_range (to_time_t d)" and "int64_range (to_time_t d * SECOND)"
proof -
  have bounds: "0 \<le> n \<Longrightarrow> 0 \<le> n div SECOND \<and> 0 \<le> n div SECOND * SECOND \<and> n div SECOND * SECOND \<le> n \<and> n div SECOND \<le> n" for n :: int
  proof -
    assume n: "0 \<le> n"
    have q: "0 \<le> n div SECOND" using n by (simp add: pos_imp_zdiv_nonneg_iff)
    have le: "n div SECOND * SECOND \<le> n"
      using mult_div_mod_eq [of SECOND n] pos_mod_sign [OF SECOND_pos(1), of n]
      unfolding mult.commute [of "n div SECOND"] by linarith
    have "n div SECOND \<le> n div SECOND * SECOND" using mult_left_mono [OF SECOND_pos(3) q] by simp
    with q le show ?thesis by simp
  qed
  show "int64_range (to_time_t d)" "int64_range (to_time_t d * SECOND)"
    using assms bounds [of d] bounds [of "- d"] by (auto simp: int64_range_def to_time_t_def)
qed

lemma cookie_builder_ok:
  "int64_range issued \<Longrightarrow> int64_range expires \<Longrightarrow> builder_ok (cookie_builder iss issued expires username)"
  by (simp add: cookie_builder_def set_issuer_def set_issued_at_def set_expires_at_def claim_of_string_def
      claim_of_date_def to_time_t_range)

lemma cookie_payload:
  "b_payload_claims (cookie_builder iss issued expires username) =
     [(''exp'', JInt64 (to_time_t expires)), (''iat'', JInt64 (to_time_t issued)), (''iss'', JString iss),
      (''username'', JString username)]"
  "b_header_claims (cookie_builder iss issued expires username) = []"
  by (simp_all add: cookie_builder_def set_issuer_def set_issued_at_def set_expires_at_def claim_of_string_def
      claim_of_date_def set_payload_claim_def create_def smap_put_def)

lemma cookie_dates:
  fixes iss username :: string
  assumes "int64_range issued" and "int64_range expires"
  defines "payload \<equiv> b_payload_claims (cookie_builder iss issued expires username)"
  shows "dates_in_range payload"
    and "date_ok payload ''exp'' in_time \<longleftrightarrow> in_time (to_time_t expires * SECOND)"
    and "date_ok payload ''iat'' in_time \<longleftrightarrow> in_time (to_time_t issued * SECOND)"
    and "date_ok payload ''nbf'' in_time"
    and "smap_find payload ''iss'' = Some (JString iss)"
  using to_time_t_range(2) [OF assms(1)] to_time_t_range(2) [OF assms(2)]
  by (auto simp: payload_def cookie_payload dates_in_range_def date_ok_def smap_find_Cons)

lemma cookie_signed:
  fixes fl :: "'n floats"
  assumes "int64_range issued" and "int64_range expires"
    and "sign fl hmac (Hmac (hs256 secret)) (cookie_builder iss issued expires username) = Inr token"
  obtains jwt where "decode_jwt fl token = Inr jwt"
    and "\<And>iss' time. verify fl hmac (cookie_verifier secret iss') time jwt = Inr () \<longleftrightarrow>
      iss = iss' \<and> to_time_t issued * SECOND \<le> time \<and> time \<le> to_time_t expires * SECOND"
    and "\<And>iss' time. verify fl hmac (cookie_verifier secret iss') time jwt \<noteq> Inl Undefined"
proof -
  let ?b = "cookie_builder iss issued expires username :: 'n builder"
  have ok: "builder_ok ?b" using assms(1,2) by (rule cookie_builder_ok)
  obtain jwt where jwt: "decode_jwt fl token = Inr jwt" "dj_payload_claims jwt = b_payload_claims ?b"
    "dj_header_claims jwt = object_of_header (Hmac (hs256 secret)) ?b"
    "alg_verify hmac (Hmac (hs256 secret)) (dj_header_base64 jwt @ ''.'' @ dj_payload_base64 jwt) (dj_signature jwt) = Inr ()"
    by (rule decode_sign [OF ok assms(3) alg_sound_simps(2)])
  have alg: "smap_find (dj_header_claims jwt) ''alg'' = Some (JString ''HS256'')"
    by (simp add: jwt(3) object_of_header(2) [OF ok] cookie_payload(2) hs256_def)
  have sig: "hmac SHA256 secret (dj_header_base64 jwt @ ''.'' @ dj_payload_base64 jwt) = Some (dj_signature jwt)"
    using jwt(4) by (simp add: hs256_def)
  show ?thesis
  proof (rule that [OF jwt(1)])
    show "verify fl hmac (cookie_verifier secret iss') time jwt = Inr () \<longleftrightarrow>
        iss = iss' \<and> to_time_t issued * SECOND \<le> time \<and> time \<le> to_time_t expires * SECOND" for iss' time
      unfolding verify_cookie_iff jwt(2) using alg sig by (auto simp: cookie_dates [OF assms(1,2)])
    show "verify fl hmac (cookie_verifier secret iss') time jwt \<noteq> Inl Undefined" for iss' time
      by (rule verify_cookie_defined) (simp only: jwt(2) cookie_dates [OF assms(1,2)])
  qed
qed

text \<open>OpenSSL's \<open>HMAC\<close> returns a value for the key.\<close>

definition mac_total :: "hmac \<Rightarrow> string \<Rightarrow> bool" where
  "mac_total hmac secret \<longleftrightarrow> (\<forall>data. hmac SHA256 secret data \<noteq> None)"

lemma sign_total:
  assumes "mac_total hmac secret"
  obtains token where "sign fl hmac (Hmac (hs256 secret)) b = Inr token"
proof -
  have "\<exists>token. sign fl hmac (Hmac (hs256 secret)) b = Inr token"
    using assms by (auto simp: mac_total_def sign_def hmac_sign_def hs256_def Let_def split: option.split)
  with that show ?thesis by blast
qed

lemma to_time_t_seconds [simp]: "to_time_t (n * SECOND) = n"
proof (cases "n * SECOND < 0")
  case True
  have "- (n * SECOND) div SECOND = - n" by (metis minus_mult_left nonzero_mult_div_cancel_right SECOND_pos(4))
  with True show ?thesis by (simp add: to_time_t_def)
qed (simp add: to_time_t_def)

lemma token_letters:
  assumes "int64_range issued" and "int64_range expires"
    and "sign fl hmac (Hmac (hs256 secret)) (cookie_builder iss issued expires username) = Inr token"
  shows "list_all (\<lambda>c. \<not> cookie_separator c) token"
proof -
  have letters: "list_all (\<lambda>c. \<not> cookie_separator c) (CHR ''.'' # base64url_data)" by code_simp
  have "set token \<subseteq> set (CHR ''.'' # base64url_data)"
    using signed_letters [OF cookie_builder_ok [OF assms(1,2)] assms(3)] by simp
  with letters show ?thesis unfolding list_all_iff by blast
qed

lemma jwt_cpp_law:
  fixes fl :: "'n floats"
  assumes "mac_total hmac secret"
    and "int64_range (issued_at cs * SECOND)" and "int64_range (expires_at cs * SECOND)"
  shows "jwt_law (jwt_cpp fl hmac) secret cs"
proof -
  let ?b = "cookie_builder (issuer cs) (issued_at cs * SECOND) (expires_at cs * SECOND) (username_claim cs) :: 'n builder"
  obtain token where token: "sign fl hmac (Hmac (hs256 secret)) ?b = Inr token" by (rule sign_total [OF assms(1)])
  obtain jwt where jwt: "decode_jwt fl token = Inr jwt"
    "\<And>iss time. verify fl hmac (cookie_verifier secret iss) time jwt = Inr () \<longleftrightarrow>
      issuer cs = iss \<and> to_time_t (issued_at cs * SECOND) * SECOND \<le> time \<and>
      time \<le> to_time_t (expires_at cs * SECOND) * SECOND"
    by (rule cookie_signed [OF assms(2,3) token], rule that)
  show ?thesis
    using token_letters [OF assms(2,3) token] jwt by (auto simp: jwt_law_def jwt_cpp_def token)
qed

text \<open>For the cookies of the server.\<close>

definition clock_ok :: "int \<Rightarrow> bool" where
  "clock_ok t \<longleftrightarrow> 0 \<le> t \<and> (t + TIME_TO_LIVE) * SECOND < 2 ^ 63"

lemma clock_ok_range:
  assumes "clock_ok t"
  shows "int64_range (t * SECOND)" and "int64_range ((t + TIME_TO_LIVE) * SECOND)"
  using assms by (simp_all add: clock_ok_def int64_range_def TIME_TO_LIVE_def SECOND_def)

lemma cookie_claims_law:
  assumes "mac_total hmac SECRET" and "clock_ok t"
  shows "jwt_law (jwt_cpp fl hmac) SECRET (cookie_claims t username)"
  by (rule jwt_cpp_law [OF assms(1)]) (simp_all add: cookie_claims_def clock_ok_range [OF assms(2)])

lemma verify_token_iff: "verify_token fl hmac (now * SECOND) cookie = Inr True \<longleftrightarrow> verify_cookie (jwt_cpp fl hmac) now cookie"
  by (auto simp: verify_token_def verify_cookie_def jwt_cpp_def split: sum.splits)

text \<open>Only the seconds of the clock are in the token.\<close>

lemma to_time_t_nonneg: "0 \<le> d \<Longrightarrow> to_time_t d = d div SECOND"
  by (simp add: to_time_t_def)

lemma generate_token_sign:
  assumes "0 \<le> now2" and "int64_range (now2 + TIME_TO_LIVE * SECOND)"
  shows "generate_token fl hmac now1 now2 username =
    sign fl hmac (Hmac (hs256 SECRET)) (cookie_builder ''foxy-4'' now1 (now2 + TIME_TO_LIVE * SECOND) username)"
proof -
  have "plus_seconds now2 TIME_TO_LIVE = Inr (now2 + TIME_TO_LIVE * SECOND)"
    using assms(2) by (simp add: plus_seconds_def int64_range_def TIME_TO_LIVE_def SECOND_def)
  then show ?thesis by (simp add: generate_token_def)
qed

lemma expires_seconds: "0 \<le> now2 \<Longrightarrow> to_time_t (now2 + TIME_TO_LIVE * SECOND) = now2 div SECOND + TIME_TO_LIVE"
  using to_time_t_nonneg [of "now2 + TIME_TO_LIVE * SECOND"] by (simp add: TIME_TO_LIVE_def)

lemma cookie_builder_seconds:
  "to_time_t issued = to_time_t issued' \<Longrightarrow> to_time_t expires = to_time_t expires' \<Longrightarrow>
     cookie_builder iss issued expires username = cookie_builder iss issued' expires' username"
  by (simp add: cookie_builder_def set_issued_at_def set_expires_at_def claim_of_date_def)

lemma token_lifetime:
  assumes "mac_total hmac SECRET" and "0 \<le> now1" and "int64_range now1" and "0 \<le> now2"
    and "int64_range (now2 + 7200 * SECOND)"
  shows "\<exists>token. generate_token fl hmac now1 now2 username = Inr token \<and>
    (\<forall>now. verify_token fl hmac now token =
       Inr (now1 div SECOND * SECOND \<le> now \<and> now \<le> (now2 div SECOND + 7200) * SECOND))"
proof -
  have ttl: "TIME_TO_LIVE = 7200" by (simp add: TIME_TO_LIVE_def)
  note range = assms(5) [folded ttl]
  obtain token where token: "sign fl hmac (Hmac (hs256 SECRET))
      (cookie_builder ''foxy-4'' now1 (now2 + TIME_TO_LIVE * SECOND) username) = Inr token"
    by (rule sign_total [OF assms(1)])
  obtain jwt where jwt: "decode_jwt fl token = Inr jwt"
    "\<And>iss time. verify fl hmac (cookie_verifier SECRET iss) time jwt = Inr () \<longleftrightarrow>
      ''foxy-4'' = iss \<and> to_time_t now1 * SECOND \<le> time \<and> time \<le> to_time_t (now2 + TIME_TO_LIVE * SECOND) * SECOND"
    "\<And>iss time. verify fl hmac (cookie_verifier SECRET iss) time jwt \<noteq> Inl Undefined"
    by (rule cookie_signed [OF assms(3) range token], rule that)
  note accepts = jwt(2) [of "''foxy-4''", unfolded expires_seconds [OF assms(4)] to_time_t_nonneg [OF assms(2)], unfolded ttl]
  have "verify_token fl hmac now token =
      Inr (now1 div SECOND * SECOND \<le> now \<and> now \<le> (now2 div SECOND + 7200) * SECOND)" for now
    using accepts [of now] jwt(3) [of "''foxy-4''" now]
    by (cases "verify fl hmac (cookie_verifier SECRET ''foxy-4'') now jwt") (auto simp: verify_token_def jwt(1))
  with token show ?thesis by (simp add: generate_token_sign [OF assms(4) range])
qed

section \<open>A cookie that is accepted\<close>

lemma accepted_cookie:
  assumes "verify_token fl hmac now cookie \<noteq> Inr False"
  shows "\<exists>header payload signature mac header_claims payload_claims.
    cookie = header @ ''.'' @ payload @ ''.'' @ signature \<and>
    CHR ''.'' \<notin> set header \<and> CHR ''.'' \<notin> set payload \<and>
    decode_part signature = Inr mac \<and> hmac SHA256 SECRET (header @ ''.'' @ payload) = Some mac \<and>
    smap_find header_claims ''alg'' = Some (JString ''HS256'') \<and>
    and_then (decode_part header) (parse_claims fl) = Inr header_claims \<and>
    and_then (decode_part payload) (parse_claims fl) = Inr payload_claims \<and>
    (verify_token fl hmac now cookie = Inr True \<longrightarrow>
       smap_find payload_claims ''iss'' = Some (JString ''foxy-4'') \<and>
       date_ok payload_claims ''exp'' (\<lambda>limit. now \<le> limit) \<and>
       date_ok payload_claims ''iat'' (\<lambda>limit. limit \<le> now) \<and>
       date_ok payload_claims ''nbf'' (\<lambda>limit. limit \<le> now))"
proof -
  let ?v = "cookie_verifier SECRET ''foxy-4''"
  obtain jwt where jwt: "decode_jwt fl cookie = Inr jwt"
    using assms decode_jwt_error [of fl cookie] by (cases "decode_jwt fl cookie") (auto simp: verify_token_def)
  have "check_signature hmac ?v jwt = Inr ()"
  proof (cases "check_signature hmac ?v jwt")
    case (Inl e)
    then have "verify_token fl hmac now cookie = Inr False"
      using check_signature_error [OF Inl] by (simp add: verify_token_def jwt verify_def Let_def)
    with assms show ?thesis ..
  qed simp
  then have "smap_find (dj_header_claims jwt) ''alg'' = Some (JString ''HS256'')"
    and "hmac SHA256 SECRET (dj_header_base64 jwt @ ''.'' @ dj_payload_base64 jwt) = Some (dj_signature jwt)"
    by (simp_all add: check_signature_iff)
  moreover have "verify fl hmac ?v now jwt = Inr ()" if "verify_token fl hmac now cookie = Inr True"
    using that by (auto simp: verify_token_def jwt split: sum.splits if_splits)
  ultimately show ?thesis
    using decode_jwt_parts [OF jwt] unfolding verify_cookie_iff by fastforce
qed

section \<open>Properties\<close>

text \<open>
  A cookie lives for two hours: the call that makes one returns it, and from then on it is accepted
  at a clock reading exactly when that lies between the second of the first clock reading of the call
  and 7200 seconds after the second of the other.  The answer is always true or false.
\<close>

theorem cookie_lifetime:
  assumes "mac_total hmac SECRET" and "0 \<le> now1" and "int64_range now1" and "0 \<le> now2"
    and "int64_range (now2 + 7200 * SECOND)"
  shows "\<exists>token. generate_token fl hmac now1 now2 username = Inr token \<and>
    (\<forall>now. verify_token fl hmac now token =
       Inr (now1 div SECOND * SECOND \<le> now \<and> now \<le> (now2 div SECOND + 7200) * SECOND))"
  by (rule token_lifetime [OF assms])

lemma toy_mac_total: "mac_total toy_hmac secret"
  by (simp add: mac_total_def toy_hmac_def)

theorem cookie_lifetime_witness:
  "\<exists>token. generate_token no_floats toy_hmac (5 * SECOND) (5 * SECOND + 1) ''fox'' = Inr token \<and>
     verify_token no_floats toy_hmac (5 * SECOND) token = Inr True \<and>
     verify_token no_floats toy_hmac (7205 * SECOND) token = Inr True \<and>
     verify_token no_floats toy_hmac (7205 * SECOND + 1) token = Inr False"
proof -
  have "int64_range (5 * SECOND)" "int64_range (5 * SECOND + 1 + 7200 * SECOND)" "0 \<le> 5 * SECOND" "0 \<le> 5 * SECOND + 1"
    by (simp_all add: int64_range_def SECOND_def)
  from cookie_lifetime [OF toy_mac_total this(3,1,4,2), of no_floats "''fox''"]
  obtain token where "generate_token no_floats toy_hmac (5 * SECOND) (5 * SECOND + 1) ''fox'' = Inr token"
    "\<And>now. verify_token no_floats toy_hmac now token =
      Inr (5 * SECOND div SECOND * SECOND \<le> now \<and> now \<le> ((5 * SECOND + 1) div SECOND + 7200) * SECOND)" by auto
  then show ?thesis by (intro exI [of _ token]) (simp add: SECOND_def)
qed

text \<open>
  C16: jwt-cpp implements the tokens the handlers rely on.  With both clock readings of a call in the
  second \<open>t\<close>, \<open>generate_cookie\<close> returns the token of the library record; on a clock of whole seconds
  \<open>verify_cookie\<close> accepts a text exactly when the record does; and the record satisfies the law under
  which the handlers are verified: the token has no separator, decodes, and verifies between \<open>t\<close> and
  \<open>t + 7200\<close>.
\<close>

theorem cookies_refine:
  assumes "mac_total hmac SECRET" and "clock_ok t" and "0 \<le> now1" and "now1 div SECOND = t"
    and "0 \<le> now2" and "now2 div SECOND = t" and "int64_range (now2 + TIME_TO_LIVE * SECOND)"
  shows "generate_token fl hmac now1 now2 username = Inr (generate_cookie (jwt_cpp fl hmac) t username) \<and>
    (\<forall>now cookie. verify_token fl hmac (now * SECOND) cookie = Inr True \<longleftrightarrow> verify_cookie (jwt_cpp fl hmac) now cookie) \<and>
    jwt_law (jwt_cpp fl hmac) SECRET (cookie_claims t username)"
proof -
  let ?b = "cookie_builder ''foxy-4'' (t * SECOND) ((t + TIME_TO_LIVE) * SECOND) username"
  have same: "cookie_builder ''foxy-4'' now1 (now2 + TIME_TO_LIVE * SECOND) username = ?b"
    by (rule cookie_builder_seconds)
      (simp_all only: to_time_t_seconds expires_seconds [OF assms(5)] to_time_t_nonneg [OF assms(3)] assms(4,6))
  obtain token where token: "sign fl hmac (Hmac (hs256 SECRET)) ?b = Inr token" by (rule sign_total [OF assms(1)])
  have "generate_token fl hmac now1 now2 username = Inr token"
    by (simp only: generate_token_sign [OF assms(5,7)] same token)
  moreover have "generate_cookie (jwt_cpp fl hmac) t username = token"
    by (simp add: generate_cookie_def jwt_cpp_def cookie_claims_def token)
  ultimately show ?thesis
    using verify_token_iff cookie_claims_law [OF assms(1,2)] by blast
qed

theorem cookies_refine_witness:
  "generate_token no_floats toy_hmac (3 * SECOND + 7) (3 * SECOND + 8) ''fox'' =
     Inr (generate_cookie (jwt_cpp no_floats toy_hmac) 3 ''fox'') \<and>
   jwt_law (jwt_cpp no_floats toy_hmac) SECRET (cookie_claims 3 ''fox'')"
proof -
  have "clock_ok 3" "0 \<le> 3 * SECOND + 7" "(3 * SECOND + 7) div SECOND = 3" "0 \<le> 3 * SECOND + 8"
    "(3 * SECOND + 8) div SECOND = 3" "int64_range (3 * SECOND + 8 + TIME_TO_LIVE * SECOND)"
    by (simp_all add: clock_ok_def int64_range_def TIME_TO_LIVE_def SECOND_def)
  from cookies_refine [OF toy_mac_total this, of no_floats "''fox''"] show ?thesis by blast
qed

text \<open>
  C15: A cookie cannot be made without the secret: unless \<open>verify_cookie\<close> answers false, whatever the
  text, it has three parts, its header names HS256, and its last part is the base64 form of the HMAC
  under the secret of the two others.  When the answer is true the issuer is foxy-4 and the dates in
  the payload, if any, allow the time.
\<close>

theorem cookie_unforgeable:
  assumes "verify_token fl hmac now cookie \<noteq> Inr False"
  shows "\<exists>header payload signature mac header_claims payload_claims.
    cookie = header @ ''.'' @ payload @ ''.'' @ signature \<and>
    CHR ''.'' \<notin> set header \<and> CHR ''.'' \<notin> set payload \<and>
    decode_part signature = Inr mac \<and> hmac SHA256 SECRET (header @ ''.'' @ payload) = Some mac \<and>
    smap_find header_claims ''alg'' = Some (JString ''HS256'') \<and>
    and_then (decode_part header) (parse_claims fl) = Inr header_claims \<and>
    and_then (decode_part payload) (parse_claims fl) = Inr payload_claims \<and>
    (verify_token fl hmac now cookie = Inr True \<longrightarrow>
       smap_find payload_claims ''iss'' = Some (JString ''foxy-4'') \<and>
       date_ok payload_claims ''exp'' (\<lambda>limit. now \<le> limit) \<and>
       date_ok payload_claims ''iat'' (\<lambda>limit. limit \<le> now) \<and>
       date_ok payload_claims ''nbf'' (\<lambda>limit. limit \<le> now))"
  by (rule accepted_cookie [OF assms])

theorem cookie_unforgeable_witness:
  "\<exists>header payload signature mac.
     verify_token no_floats toy_hmac (5 * SECOND) (header @ ''.'' @ payload @ ''.'' @ signature) = Inr True \<and>
     decode_part signature = Inr mac \<and> toy_hmac SHA256 SECRET (header @ ''.'' @ payload) = Some mac"
proof -
  have "int64_range (5 * SECOND)" "int64_range (5 * SECOND + 7200 * SECOND)" "0 \<le> 5 * SECOND"
    by (simp_all add: int64_range_def SECOND_def)
  from token_lifetime [OF toy_mac_total this(3,1,3,2), of no_floats "''fox''"]
  obtain token where token: "\<And>now. verify_token no_floats toy_hmac now token =
      Inr (5 * SECOND div SECOND * SECOND \<le> now \<and> now \<le> (5 * SECOND div SECOND + 7200) * SECOND)" by auto
  have "verify_token no_floats toy_hmac (5 * SECOND) token = Inr True" unfolding token by simp
  moreover from this have "verify_token no_floats toy_hmac (5 * SECOND) token \<noteq> Inr False" by simp
  from cookie_unforgeable [OF this] obtain header payload signature mac where
    "token = header @ ''.'' @ payload @ ''.'' @ signature" "decode_part signature = Inr mac"
    "toy_hmac SHA256 SECRET (header @ ''.'' @ payload) = Some mac" by (elim exE conjE) (rule that)
  ultimately show ?thesis by blast
qed

end
