(* ===== verification/Public_Keys.thy ===== *)
theory Public_Keys
  imports Jwt
begin

text \<open>
  The algorithms of jwt-cpp that use a key pair (\<open>src/include/jwt-cpp/jwt.h\<close>): RSA with PKCS #1 and
  with PSS padding, and ECDSA, with the loading of their keys.  OpenSSL is a parameter: a record of the
  functions that are called.  Memory allocation does not fail.  What the code does around the calls is
  modelled: the order of the keys, the checks and the exceptions, the buffers, and the fixed-width
  form of an ECDSA signature.
\<close>

section \<open>OpenSSL\<close>

text \<open>
  \<open>'o\<close> is an OpenSSL object behind a pointer (a certificate, a key), \<open>'n\<close> a big number.  \<open>None\<close> is a
  null pointer or a failed call that writes nothing; a call that fills a buffer returns what it writes.
  The functions on a digest context are given all that was fed into it.  \<open>ssl_public_decrypt\<close> is given
  the contents of the output buffer and returns its result and the contents afterwards.
\<close>

record ('o, 'n) openssl =
  ssl_bio_write :: "string \<Rightarrow> bool"
  ssl_read_cert :: "string \<Rightarrow> string \<Rightarrow> 'o option"
  ssl_cert_pubkey :: "'o \<Rightarrow> 'o option"
  ssl_write_pubkey :: "'o \<Rightarrow> string option"
  ssl_read_pubkey :: "string \<Rightarrow> string \<Rightarrow> 'o option"
  ssl_read_private :: "string \<Rightarrow> string \<Rightarrow> 'o option"
  ssl_read_ec_pubkey :: "string \<Rightarrow> string \<Rightarrow> 'o option"
  ssl_read_ec_private :: "string \<Rightarrow> string \<Rightarrow> 'o option"
  ssl_md_ctx :: bool
  ssl_sign_init :: "digest \<Rightarrow> bool"
  ssl_sign_update :: "string \<Rightarrow> bool"
  ssl_sign_final :: "'o \<Rightarrow> digest \<Rightarrow> string \<Rightarrow> string option"
  ssl_pkey_size :: "'o \<Rightarrow> nat"
  ssl_verify_init :: "digest \<Rightarrow> bool"
  ssl_verify_update :: "string \<Rightarrow> bool"
  ssl_verify_final :: "'o \<Rightarrow> digest \<Rightarrow> string \<Rightarrow> string \<Rightarrow> int"
  ssl_digest_init :: "digest \<Rightarrow> bool"
  ssl_digest_update :: "string \<Rightarrow> bool"
  ssl_digest_final :: "digest \<Rightarrow> string \<Rightarrow> string option"
  ssl_digest_size :: "digest \<Rightarrow> nat"
  ssl_ec_degree :: "'o \<Rightarrow> nat"
  ssl_ec_check :: "'o \<Rightarrow> bool"
  ssl_ecdsa_sign :: "'o \<Rightarrow> string \<Rightarrow> ('n \<times> 'n) option"
  ssl_ecdsa_verify :: "'o \<Rightarrow> string \<Rightarrow> 'n \<times> 'n \<Rightarrow> int"
  ssl_bn2bin :: "'n \<Rightarrow> string"
  ssl_bin2bn :: "string \<Rightarrow> 'n"
  ssl_pkey_rsa :: "'o \<Rightarrow> 'o option"
  ssl_rsa_size :: "'o \<Rightarrow> nat"
  ssl_pss_pad :: "'o \<Rightarrow> string \<Rightarrow> digest \<Rightarrow> string option"
  ssl_private_encrypt :: "'o \<Rightarrow> string \<Rightarrow> string option"
  ssl_public_decrypt :: "'o \<Rightarrow> string \<Rightarrow> string \<Rightarrow> int \<times> string"
  ssl_pss_verify :: "'o \<Rightarrow> string \<Rightarrow> digest \<Rightarrow> string \<Rightarrow> bool"

text \<open>\<open>std::string::c_str\<close> as OpenSSL reads it, and a write to the start of a buffer.\<close>

definition c_str :: "string \<Rightarrow> string" where
  "c_str s = takeWhile (\<lambda>c. c \<noteq> NUL) s"

definition write_to :: "string \<Rightarrow> string \<Rightarrow> string outcome" where
  "write_to buf s = (if length s \<le> length buf then Inr (s @ drop (length s) buf) else Inl Undefined)"

text \<open>A null pointer is answered with an exception.\<close>

definition non_null :: "'a option \<Rightarrow> 'a outcome" where
  "non_null p = (case p of None \<Rightarrow> Inl StdRuntimeError | Some x \<Rightarrow> Inr x)"

definition unless :: "bool \<Rightarrow> cpp_error \<Rightarrow> unit outcome" where
  "unless ok_call e = (if ok_call then Inr () else Inl e)"

lemma unless_iff [simp]: "unless b e = Inr u \<longleftrightarrow> b"
  by (simp add: unless_def)

lemma unless_True [simp]: "unless True e = Inr ()"
  by (simp add: unless_def)

lemma non_null_Some [simp]: "non_null (Some x) = Inr x"
  by (simp add: non_null_def)

lemma non_null_iff [simp]: "non_null p = Inr x \<longleftrightarrow> p = Some x"
  by (simp add: non_null_def split: option.split)

section \<open>Keys\<close>

definition extract_pubkey_from_cert :: "('o, 'n) openssl \<Rightarrow> string \<Rightarrow> string \<Rightarrow> string outcome" where
  "extract_pubkey_from_cert ssl certstr pw =
     and_then (non_null (ssl_read_cert ssl certstr (c_str pw))) (\<lambda>cert.
     and_then (non_null (ssl_cert_pubkey ssl cert)) (\<lambda>key.
     and_then (non_null (ssl_write_pubkey ssl key)) (\<lambda>res.
       if length res \<le> 0 then Inl StdRuntimeError else Inr res)))"

text \<open>The text of a public key, taken out of a certificate if it is one, in a memory buffer.\<close>

definition public_key_pem :: "('o, 'n) openssl \<Rightarrow> string \<Rightarrow> string \<Rightarrow> string outcome" where
  "public_key_pem ssl key password =
     and_then (if take 27 key = ''-----BEGIN CERTIFICATE-----'' then extract_pubkey_from_cert ssl key password else Inr key)
       (\<lambda>pem. and_then (unless (ssl_bio_write ssl pem) StdRuntimeError) (\<lambda>_. Inr pem))"

definition load_public_key_from_string :: "('o, 'n) openssl \<Rightarrow> string \<Rightarrow> string \<Rightarrow> 'o outcome" where
  "load_public_key_from_string ssl key password =
     and_then (public_key_pem ssl key password) (\<lambda>pem. non_null (ssl_read_pubkey ssl pem (c_str password)))"

definition load_private_key_from_string :: "('o, 'n) openssl \<Rightarrow> string \<Rightarrow> string \<Rightarrow> 'o outcome" where
  "load_private_key_from_string ssl key password =
     and_then (unless (ssl_bio_write ssl key) StdRuntimeError) (\<lambda>_. non_null (ssl_read_private ssl key (c_str password)))"

definition bn2raw :: "('o, 'n) openssl \<Rightarrow> 'n \<Rightarrow> string" where
  "bn2raw ssl bn = ssl_bn2bin ssl bn"

definition raw2bn :: "('o, 'n) openssl \<Rightarrow> string \<Rightarrow> 'n" where
  "raw2bn ssl raw = ssl_bin2bn ssl raw"

section \<open>RSA\<close>

record 'o rsa =
  rs_pkey :: 'o
  rs_md :: digest
  rs_name :: string

text \<open>The private key is preferred; the public key is then not looked at.\<close>

definition rsa_new ::
    "('o, 'n) openssl \<Rightarrow> string \<Rightarrow> string \<Rightarrow> string \<Rightarrow> string \<Rightarrow> digest \<Rightarrow> string \<Rightarrow> 'o rsa outcome" where
  "rsa_new ssl public_key private_key public_key_password private_key_password md name =
     and_then
       (if private_key \<noteq> [] then load_private_key_from_string ssl private_key private_key_password
        else if public_key \<noteq> [] then load_public_key_from_string ssl public_key public_key_password
        else Inl StdRuntimeError)
       (\<lambda>pkey. Inr \<lparr>rs_pkey = pkey, rs_md = md, rs_name = name\<rparr>)"

definition rsa_sign :: "('o, 'n) openssl \<Rightarrow> 'o rsa \<Rightarrow> string \<Rightarrow> string outcome" where
  "rsa_sign ssl a data =
     and_then (unless (ssl_md_ctx ssl) StdRuntimeError) (\<lambda>_.
     and_then (unless (ssl_sign_init ssl (rs_md a)) StdRuntimeError) (\<lambda>_.
     and_then (unless (ssl_sign_update ssl data) StdRuntimeError) (\<lambda>_.
     and_then (non_null (ssl_sign_final ssl (rs_pkey a) (rs_md a) data)) (\<lambda>signature.
     and_then (write_to (replicate (ssl_pkey_size ssl (rs_pkey a)) NUL) signature) (\<lambda>res.
       Inr (take (length signature) res))))))"

definition rsa_verify :: "('o, 'n) openssl \<Rightarrow> 'o rsa \<Rightarrow> string \<Rightarrow> string \<Rightarrow> unit outcome" where
  "rsa_verify ssl a data signature =
     and_then (unless (ssl_md_ctx ssl) StdRuntimeError) (\<lambda>_.
     and_then (unless (ssl_verify_init ssl (rs_md a)) StdRuntimeError) (\<lambda>_.
     and_then (unless (ssl_verify_update ssl data) StdRuntimeError) (\<lambda>_.
       unless (ssl_verify_final ssl (rs_pkey a) (rs_md a) data signature = 1) StdRuntimeError)))"

section \<open>Hashing\<close>

text \<open>\<open>generate_hash\<close> of the classes \<open>ecdsa\<close> and \<open>pss\<close>.  A missing context is not checked for.\<close>

definition generate_digest :: "('o, 'n) openssl \<Rightarrow> digest \<Rightarrow> string \<Rightarrow> string outcome" where
  "generate_digest ssl md data =
     and_then (unless (ssl_md_ctx ssl) Undefined) (\<lambda>_.
     and_then (unless (ssl_digest_init ssl md) StdRuntimeError) (\<lambda>_.
     and_then (unless (ssl_digest_update ssl data) StdRuntimeError) (\<lambda>_.
     and_then (non_null (ssl_digest_final ssl md data)) (\<lambda>hash.
     and_then (write_to (replicate (ssl_digest_size ssl md) NUL) hash) (\<lambda>res. Inr (take (length hash) res))))))"

section \<open>ECDSA\<close>

record 'o ecdsa =
  es_pkey :: 'o
  es_md :: digest
  es_name :: string
  es_length :: nat

definition key_size_ok :: "nat \<Rightarrow> nat \<Rightarrow> bool" where
  "key_size_ok signature_length keysize \<longleftrightarrow>
     \<not> (keysize \<noteq> signature_length * 4 \<and> (signature_length \<noteq> 132 \<or> keysize \<noteq> 521))"

definition load_ec_public :: "('o, 'n) openssl \<Rightarrow> string \<Rightarrow> string \<Rightarrow> nat \<Rightarrow> 'o outcome" where
  "load_ec_public ssl public_key password siglen =
     and_then (public_key_pem ssl public_key password) (\<lambda>pem.
     and_then (non_null (ssl_read_ec_pubkey ssl pem (c_str password))) (\<lambda>pkey.
     and_then (unless (key_size_ok siglen (ssl_ec_degree ssl pkey)) StdRuntimeError) (\<lambda>_. Inr pkey)))"

definition load_ec_private :: "('o, 'n) openssl \<Rightarrow> string \<Rightarrow> string \<Rightarrow> nat \<Rightarrow> 'o outcome" where
  "load_ec_private ssl private_key password siglen =
     and_then (unless (ssl_bio_write ssl private_key) StdRuntimeError) (\<lambda>_.
     and_then (non_null (ssl_read_ec_private ssl private_key (c_str password))) (\<lambda>pkey.
     and_then (unless (key_size_ok siglen (ssl_ec_degree ssl pkey)) StdRuntimeError) (\<lambda>_. Inr pkey)))"

text \<open>Both keys are loaded when both are given; the private one replaces the public one.\<close>

definition ecdsa_new ::
    "('o, 'n) openssl \<Rightarrow> string \<Rightarrow> string \<Rightarrow> string \<Rightarrow> string \<Rightarrow> digest \<Rightarrow> string \<Rightarrow> nat \<Rightarrow> 'o ecdsa outcome" where
  "ecdsa_new ssl public_key private_key public_key_password private_key_password md name siglen =
     and_then (if public_key \<noteq> []
       then and_then (load_ec_public ssl public_key public_key_password siglen) (\<lambda>k. Inr (Some k)) else Inr None) (\<lambda>pkey.
     and_then (if private_key \<noteq> []
       then and_then (load_ec_private ssl private_key private_key_password siglen) (\<lambda>k. Inr (Some k)) else Inr pkey) (\<lambda>pkey.
     and_then (non_null pkey) (\<lambda>pkey.
     and_then (unless (ssl_ec_check ssl pkey) StdRuntimeError) (\<lambda>_.
       Inr \<lparr>es_pkey = pkey, es_md = md, es_name = name, es_length = siglen\<rparr>))))"

text \<open>\<open>while (rr.size() != n) rr = '\0' + rr\<close>; longer strings have been sorted out before.\<close>

function pad_front :: "nat \<Rightarrow> string \<Rightarrow> string" where
  "pad_front n raw = (if length raw < n then pad_front n (NUL # raw) else raw)"
  by pat_completeness auto

termination by (relation "measure (\<lambda>(n, raw). n - length raw)") auto

declare pad_front.simps [simp del]

definition ecdsa_sign :: "('o, 'n) openssl \<Rightarrow> 'o ecdsa \<Rightarrow> string \<Rightarrow> string outcome" where
  "ecdsa_sign ssl a data =
     and_then (generate_digest ssl (es_md a) data) (\<lambda>hash.
     and_then (non_null (ssl_ecdsa_sign ssl (es_pkey a) hash)) (\<lambda>(r, s).
       let rr = bn2raw ssl r; rs = bn2raw ssl s in
       if es_length a div 2 < length rr \<or> es_length a div 2 < length rs then Inl StdLogicError
       else Inr (pad_front (es_length a div 2) rr @ pad_front (es_length a div 2) rs)))"

definition ecdsa_verify :: "('o, 'n) openssl \<Rightarrow> 'o ecdsa \<Rightarrow> string \<Rightarrow> string \<Rightarrow> unit outcome" where
  "ecdsa_verify ssl a data signature =
     and_then (generate_digest ssl (es_md a) data) (\<lambda>hash.
       let r = raw2bn ssl (take (length signature div 2) signature);
           s = raw2bn ssl (drop (length signature div 2) signature)
       in unless (ssl_ecdsa_verify ssl (es_pkey a) hash (r, s) = 1) StdRuntimeError)"

section \<open>PSS\<close>

record 'o pss =
  ps_pkey :: 'o
  ps_md :: digest
  ps_name :: string

definition pss_new ::
    "('o, 'n) openssl \<Rightarrow> string \<Rightarrow> string \<Rightarrow> string \<Rightarrow> string \<Rightarrow> digest \<Rightarrow> string \<Rightarrow> 'o pss outcome" where
  "pss_new ssl public_key private_key public_key_password private_key_password md name =
     and_then
       (if private_key \<noteq> [] then load_private_key_from_string ssl private_key private_key_password
        else if public_key \<noteq> [] then load_public_key_from_string ssl public_key public_key_password
        else Inl StdRuntimeError)
       (\<lambda>pkey. Inr \<lparr>ps_pkey = pkey, ps_md = md, ps_name = name\<rparr>)"

text \<open>\<open>RSA_size\<close> of a null pointer, which a key of another kind gives, is undefined.\<close>

definition rsa_part :: "('o, 'n) openssl \<Rightarrow> 'o \<Rightarrow> 'o outcome" where
  "rsa_part ssl pkey = (case ssl_pkey_rsa ssl pkey of None \<Rightarrow> Inl Undefined | Some key \<Rightarrow> Inr key)"

definition pss_sign :: "('o, 'n) openssl \<Rightarrow> 'o pss \<Rightarrow> string \<Rightarrow> string outcome" where
  "pss_sign ssl a data =
     and_then (generate_digest ssl (ps_md a) data) (\<lambda>hash.
     and_then (rsa_part ssl (ps_pkey a)) (\<lambda>key.
       let size = ssl_rsa_size ssl key in
       and_then (non_null (ssl_pss_pad ssl key hash (ps_md a))) (\<lambda>out.
       and_then (write_to (replicate size NUL) out) (\<lambda>padded.
       and_then (non_null (ssl_private_encrypt ssl key padded)) (\<lambda>out.
         write_to (replicate size NUL) out)))))"

definition pss_verify :: "('o, 'n) openssl \<Rightarrow> 'o pss \<Rightarrow> string \<Rightarrow> string \<Rightarrow> unit outcome" where
  "pss_verify ssl a data signature =
     and_then (generate_digest ssl (ps_md a) data) (\<lambda>hash.
     and_then (rsa_part ssl (ps_pkey a)) (\<lambda>key.
       case ssl_public_decrypt ssl key signature (replicate (ssl_rsa_size ssl key) NUL) of (res, sig) \<Rightarrow>
         and_then (unless (res \<noteq> 0) StdRuntimeError) (\<lambda>_.
           unless (ssl_pss_verify ssl key hash (ps_md a) sig) StdRuntimeError)))"

section \<open>The algorithms\<close>

definition rs256 :: "('o, 'n) openssl \<Rightarrow> string \<Rightarrow> string \<Rightarrow> string \<Rightarrow> string \<Rightarrow> 'o rsa outcome" where
  "rs256 ssl public_key private_key public_key_password private_key_password =
     rsa_new ssl public_key private_key public_key_password private_key_password SHA256 ''RS256''"

definition rs384 :: "('o, 'n) openssl \<Rightarrow> string \<Rightarrow> string \<Rightarrow> string \<Rightarrow> string \<Rightarrow> 'o rsa outcome" where
  "rs384 ssl public_key private_key public_key_password private_key_password =
     rsa_new ssl public_key private_key public_key_password private_key_password SHA384 ''RS384''"

definition rs512 :: "('o, 'n) openssl \<Rightarrow> string \<Rightarrow> string \<Rightarrow> string \<Rightarrow> string \<Rightarrow> 'o rsa outcome" where
  "rs512 ssl public_key private_key public_key_password private_key_password =
     rsa_new ssl public_key private_key public_key_password private_key_password SHA512 ''RS512''"

definition es256 :: "('o, 'n) openssl \<Rightarrow> string \<Rightarrow> string \<Rightarrow> string \<Rightarrow> string \<Rightarrow> 'o ecdsa outcome" where
  "es256 ssl public_key private_key public_key_password private_key_password =
     ecdsa_new ssl public_key private_key public_key_password private_key_password SHA256 ''ES256'' 64"

definition es384 :: "('o, 'n) openssl \<Rightarrow> string \<Rightarrow> string \<Rightarrow> string \<Rightarrow> string \<Rightarrow> 'o ecdsa outcome" where
  "es384 ssl public_key private_key public_key_password private_key_password =
     ecdsa_new ssl public_key private_key public_key_password private_key_password SHA384 ''ES384'' 96"

definition es512 :: "('o, 'n) openssl \<Rightarrow> string \<Rightarrow> string \<Rightarrow> string \<Rightarrow> string \<Rightarrow> 'o ecdsa outcome" where
  "es512 ssl public_key private_key public_key_password private_key_password =
     ecdsa_new ssl public_key private_key public_key_password private_key_password SHA512 ''ES512'' 132"

definition ps256 :: "('o, 'n) openssl \<Rightarrow> string \<Rightarrow> string \<Rightarrow> string \<Rightarrow> string \<Rightarrow> 'o pss outcome" where
  "ps256 ssl public_key private_key public_key_password private_key_password =
     pss_new ssl public_key private_key public_key_password private_key_password SHA256 ''PS256''"

definition ps384 :: "('o, 'n) openssl \<Rightarrow> string \<Rightarrow> string \<Rightarrow> string \<Rightarrow> string \<Rightarrow> 'o pss outcome" where
  "ps384 ssl public_key private_key public_key_password private_key_password =
     pss_new ssl public_key private_key public_key_password private_key_password SHA384 ''PS384''"

definition ps512 :: "('o, 'n) openssl \<Rightarrow> string \<Rightarrow> string \<Rightarrow> string \<Rightarrow> string \<Rightarrow> 'o pss outcome" where
  "ps512 ssl public_key private_key public_key_password private_key_password =
     pss_new ssl public_key private_key public_key_password private_key_password SHA512 ''PS512''"

definition rsa_algorithm :: "('o, 'n) openssl \<Rightarrow> 'o rsa \<Rightarrow> algorithm" where
  "rsa_algorithm ssl a = Public_key (rs_name a) (rsa_sign ssl a) (rsa_verify ssl a)"

definition ecdsa_algorithm :: "('o, 'n) openssl \<Rightarrow> 'o ecdsa \<Rightarrow> algorithm" where
  "ecdsa_algorithm ssl a = Public_key (es_name a) (ecdsa_sign ssl a) (ecdsa_verify ssl a)"

definition pss_algorithm :: "('o, 'n) openssl \<Rightarrow> 'o pss \<Rightarrow> algorithm" where
  "pss_algorithm ssl a = Public_key (ps_name a) (pss_sign ssl a) (pss_verify ssl a)"

section \<open>What is relied on\<close>

text \<open>
  OpenSSL's functions belong together: each verifying function accepts what the signing function made
  with the same key, and decrypting with the public key undoes encrypting with the private one.
\<close>

definition rsa_law :: "('o, 'n) openssl \<Rightarrow> bool" where
  "rsa_law ssl \<longleftrightarrow> (\<forall>k md data signature. ssl_sign_init ssl md \<longrightarrow> ssl_sign_update ssl data \<longrightarrow>
     ssl_sign_final ssl k md data = Some signature \<longrightarrow>
     ssl_verify_init ssl md \<and> ssl_verify_update ssl data \<and> ssl_verify_final ssl k md data signature = 1)"

definition ecdsa_law :: "('o, 'n) openssl \<Rightarrow> bool" where
  "ecdsa_law ssl \<longleftrightarrow> (\<forall>k hash rs. ssl_ecdsa_sign ssl k hash = Some rs \<longrightarrow> ssl_ecdsa_verify ssl k hash rs = 1)"

definition pss_law :: "('o, 'n) openssl \<Rightarrow> bool" where
  "pss_law ssl \<longleftrightarrow>
     (\<forall>k hash md padded. ssl_pss_pad ssl k hash md = Some padded \<longrightarrow>
        length padded = ssl_rsa_size ssl k \<and> ssl_pss_verify ssl k hash md padded) \<and>
     (\<forall>k padded signature. length padded = ssl_rsa_size ssl k \<longrightarrow> ssl_private_encrypt ssl k padded = Some signature \<longrightarrow>
        length signature = ssl_rsa_size ssl k \<and>
        (\<forall>buf. \<exists>res. res \<noteq> 0 \<and> ssl_public_decrypt ssl k signature buf = (res, padded)))"

text \<open>
  The conversions of big numbers: big endian and without leading zeros, and reading ignores leading
  zeros.
\<close>

definition bignum_law :: "('o, 'n) openssl \<Rightarrow> bool" where
  "bignum_law ssl \<longleftrightarrow> (\<forall>n. ssl_bin2bn ssl (ssl_bn2bin ssl n) = n) \<and>
     (\<forall>raw. ssl_bin2bn ssl (NUL # raw) = ssl_bin2bn ssl raw)"

definition openssl_law :: "('o, 'n) openssl \<Rightarrow> bool" where
  "openssl_law ssl \<longleftrightarrow> rsa_law ssl \<and> ecdsa_law ssl \<and> pss_law ssl \<and> bignum_law ssl"

section \<open>Every algorithm accepts its own signatures\<close>

lemma pad_front_eq: "pad_front n raw = replicate (n - length raw) NUL @ raw"
proof (induction n raw rule: pad_front.induct)
  case (1 n raw)
  show ?case
  proof (cases "length raw < n")
    case True
    then have "pad_front n raw = replicate (n - Suc (length raw)) NUL @ NUL # raw"
      using 1 by (subst pad_front.simps) simp
    also have "\<dots> = replicate (Suc (n - Suc (length raw))) NUL @ raw"
      by (simp add: replicate_app_Cons_same)
    also have "Suc (n - Suc (length raw)) = n - length raw" using True by simp
    finally show ?thesis .
  next
    case False
    then show ?thesis by (subst pad_front.simps) simp
  qed
qed

lemma raw2bn_padded:
  assumes "bignum_law ssl"
  shows "raw2bn ssl (pad_front n (bn2raw ssl b)) = b"
proof -
  have "ssl_bin2bn ssl (replicate k NUL @ raw) = ssl_bin2bn ssl raw" for k raw
    using assms by (induction k) (simp_all add: bignum_law_def)
  then show ?thesis using assms by (simp add: pad_front_eq raw2bn_def bn2raw_def bignum_law_def)
qed

lemma write_to_take:
  "and_then (write_to buf s) (\<lambda>res. Inr (take (length s) res)) = (if length s \<le> length buf then Inr s else Inl Undefined)"
  by (simp add: write_to_def)

lemma rsa_sound:
  assumes "rsa_law ssl"
  shows "alg_sound hmac (rsa_algorithm ssl a)"
  using assms
  by (auto simp: alg_sound_def rsa_algorithm_def rsa_sign_def rsa_verify_def rsa_law_def and_then_Inr_iff write_to_def
      split: if_splits)

text \<open>The two halves have the fixed width, so that \<open>verify\<close> cuts where \<open>sign\<close> has glued.\<close>

lemma ecdsa_sign_parts:
  assumes "ecdsa_sign ssl a data = Inr signature"
  obtains hash r s where "generate_digest ssl (es_md a) data = Inr hash"
    and "ssl_ecdsa_sign ssl (es_pkey a) hash = Some (r, s)"
    and "signature = pad_front (es_length a div 2) (bn2raw ssl r) @ pad_front (es_length a div 2) (bn2raw ssl s)"
    and "length (pad_front (es_length a div 2) (bn2raw ssl r)) = es_length a div 2"
    and "length (pad_front (es_length a div 2) (bn2raw ssl s)) = es_length a div 2"
  using assms by (auto simp: ecdsa_sign_def and_then_Inr_iff Let_def pad_front_eq intro: that split: if_splits)

lemma ecdsa_sound:
  assumes "ecdsa_law ssl" and "bignum_law ssl"
  shows "alg_sound hmac (ecdsa_algorithm ssl a)"
  unfolding alg_sound_def
proof (intro allI impI)
  fix data signature
  assume "alg_sign hmac (ecdsa_algorithm ssl a) data = Inr signature"
  then have "ecdsa_sign ssl a data = Inr signature" by (simp add: ecdsa_algorithm_def)
  then obtain hash r s where hash: "generate_digest ssl (es_md a) data = Inr hash"
    and rs: "ssl_ecdsa_sign ssl (es_pkey a) hash = Some (r, s)"
    and sig: "signature = pad_front (es_length a div 2) (bn2raw ssl r) @ pad_front (es_length a div 2) (bn2raw ssl s)"
    and len: "length (pad_front (es_length a div 2) (bn2raw ssl r)) = es_length a div 2"
      "length (pad_front (es_length a div 2) (bn2raw ssl s)) = es_length a div 2"
    by (rule ecdsa_sign_parts)
  have "length signature div 2 = es_length a div 2" by (simp add: sig len)
  then have "raw2bn ssl (take (length signature div 2) signature) = r"
    "raw2bn ssl (drop (length signature div 2) signature) = s"
    by (simp_all add: sig len raw2bn_padded [OF assms(2)])
  with rs assms(1) show "alg_verify hmac (ecdsa_algorithm ssl a) data signature = Inr ()"
    by (simp add: ecdsa_algorithm_def ecdsa_verify_def hash ecdsa_law_def)
qed

lemma pss_sound:
  assumes "pss_law ssl"
  shows "alg_sound hmac (pss_algorithm ssl a)"
  unfolding alg_sound_def
proof (intro allI impI)
  fix data signature
  assume "alg_sign hmac (pss_algorithm ssl a) data = Inr signature"
  then obtain hash key out padded out' where hash: "generate_digest ssl (ps_md a) data = Inr hash"
    and key: "rsa_part ssl (ps_pkey a) = Inr key" and pad: "ssl_pss_pad ssl key hash (ps_md a) = Some out"
    and padded: "write_to (replicate (ssl_rsa_size ssl key) NUL) out = Inr padded"
    and enc: "ssl_private_encrypt ssl key padded = Some out'"
    and sig: "write_to (replicate (ssl_rsa_size ssl key) NUL) out' = Inr signature"
    by (auto simp: pss_algorithm_def pss_sign_def and_then_Inr_iff Let_def)
  have out: "length out = ssl_rsa_size ssl key" "ssl_pss_verify ssl key hash (ps_md a) out"
    using assms pad by (auto simp: pss_law_def)
  then have padded_out: "padded = out" using padded by (auto simp: write_to_def)
  have law: "length out' = ssl_rsa_size ssl key \<and>
      (\<forall>buf. \<exists>res. res \<noteq> 0 \<and> ssl_public_decrypt ssl key out' buf = (res, out))"
    using assms enc out(1) unfolding pss_law_def padded_out by blast
  then have out': "length out' = ssl_rsa_size ssl key"
    and dec: "\<exists>res. res \<noteq> 0 \<and> ssl_public_decrypt ssl key out' buf = (res, out)" for buf
    by blast+
  have "signature = out'" using sig out' by (simp add: write_to_def)
  with dec [of "replicate (ssl_rsa_size ssl key) NUL"] out(2)
  show "alg_verify hmac (pss_algorithm ssl a) data signature = Inr ()"
    by (auto simp: pss_algorithm_def pss_verify_def hash key)
qed

section \<open>An instance\<close>

text \<open>Big numbers as OpenSSL writes them, and toy signatures, for concrete runs.\<close>

definition be_value :: "string \<Rightarrow> nat" where
  "be_value raw = foldl (\<lambda>v c. 256 * v + of_char c) 0 raw"

fun be_bytes :: "nat \<Rightarrow> string" where
  "be_bytes n = (if n = 0 then [] else be_bytes (n div 256) @ [char_of (n mod 256)])"

declare be_bytes.simps [simp del]

lemma be_value_bytes: "be_value (be_bytes n) = n"
proof (induction n rule: be_bytes.induct)
  case (1 n)
  then show ?case by (subst be_bytes.simps) (simp add: be_value_def)
qed

lemma be_value_bound: "be_value raw < 256 ^ length raw"
proof (induction raw rule: rev_induct)
  case Nil
  then show ?case by (simp add: be_value_def)
next
  case (snoc c raw)
  have "be_value (raw @ [c]) = 256 * be_value raw + of_char c" by (simp add: be_value_def)
  also have "\<dots> < 256 * Suc (be_value raw)" using nat_of_char_less_256 [of c] unfolding mult_Suc_right by linarith
  also have "\<dots> \<le> 256 * 256 ^ length raw" using snoc.IH by (intro mult_le_mono2) simp
  finally show ?case by simp
qed

lemma be_bytes_length: "n < 256 ^ k \<Longrightarrow> length (be_bytes n) \<le> k"
proof (induction n arbitrary: k rule: be_bytes.induct)
  case (1 n)
  show ?case
  proof (cases "n = 0")
    case True
    then show ?thesis by (subst be_bytes.simps) simp
  next
    case False
    then obtain k' where k: "k = Suc k'" using "1.prems" by (cases k) simp_all
    then have "n div 256 < 256 ^ k'" using "1.prems" by (simp add: less_mult_imp_div_less mult.commute)
    from "1.IH" [OF False this] False show ?thesis by (subst be_bytes.simps) (simp add: k)
  qed
qed

definition example_ssl :: "(string, nat) openssl" where
  "example_ssl = \<lparr>ssl_bio_write = (\<lambda>_. True), ssl_read_cert = (\<lambda>c pw. Some c), ssl_cert_pubkey = Some,
     ssl_write_pubkey = Some, ssl_read_pubkey = (\<lambda>k pw. Some k), ssl_read_private = (\<lambda>k pw. Some k),
     ssl_read_ec_pubkey = (\<lambda>k pw. Some k), ssl_read_ec_private = (\<lambda>k pw. Some k), ssl_md_ctx = True,
     ssl_sign_init = (\<lambda>_. True), ssl_sign_update = (\<lambda>_. True),
     ssl_sign_final = (\<lambda>k md data. Some (k @ take 4 data)), ssl_pkey_size = (\<lambda>k. length k + 4),
     ssl_verify_init = (\<lambda>_. True), ssl_verify_update = (\<lambda>_. True),
     ssl_verify_final = (\<lambda>k md data sig. if sig = k @ take 4 data then 1 else 0),
     ssl_digest_init = (\<lambda>_. True), ssl_digest_update = (\<lambda>_. True),
     ssl_digest_final = (\<lambda>md data. Some (take 4 data)), ssl_digest_size = (\<lambda>_. 4),
     ssl_ec_degree = (\<lambda>k. 256), ssl_ec_check = (\<lambda>k. True),
     ssl_ecdsa_sign = (\<lambda>k hash. Some (be_value (take 4 k), be_value hash)),
     ssl_ecdsa_verify = (\<lambda>k hash rs. if rs = (be_value (take 4 k), be_value hash) then 1 else 0),
     ssl_bn2bin = be_bytes, ssl_bin2bn = be_value, ssl_pkey_rsa = Some, ssl_rsa_size = (\<lambda>k. 4),
     ssl_pss_pad = (\<lambda>k hash md. if length hash = 4 then Some hash else None),
     ssl_private_encrypt = (\<lambda>k padded. Some padded), ssl_public_decrypt = (\<lambda>k sig buf. (int (length sig) + 1, sig)),
     ssl_pss_verify = (\<lambda>k hash md padded. padded = hash)\<rparr>"

lemma example_ssl_law: "openssl_law example_ssl"
proof -
  have "rsa_law example_ssl" "ecdsa_law example_ssl" "pss_law example_ssl"
    by (simp_all add: rsa_law_def ecdsa_law_def pss_law_def example_ssl_def)
  moreover have "bignum_law example_ssl"
    by (simp add: bignum_law_def example_ssl_def be_value_bytes) (simp add: be_value_def)
  ultimately show ?thesis by (simp add: openssl_law_def)
qed

section \<open>Properties\<close>

definition public_key_algorithm :: "('o, 'n) openssl \<Rightarrow> algorithm \<Rightarrow> bool" where
  "public_key_algorithm ssl algo \<longleftrightarrow> (\<exists>a. algo = rsa_algorithm ssl a) \<or> (\<exists>a. algo = ecdsa_algorithm ssl a) \<or>
     (\<exists>a. algo = pss_algorithm ssl a)"



text \<open>
  An ECDSA signature is not unique as a text: \<open>verify\<close> does not compare its length with the width of
  the algorithm, so that zeros in front of both halves do not matter.
\<close>

theorem ecdsa_padding_accepted:
  assumes "bignum_law ssl" and "even (length signature)" and "ecdsa_verify ssl a data signature = Inr ()"
  shows "ecdsa_verify ssl a data
    (NUL # take (length signature div 2) signature @ NUL # drop (length signature div 2) signature) = Inr ()"
proof -
  let ?n = "length signature div 2"
  let ?padded = "NUL # take ?n signature @ NUL # drop ?n signature"
  have "length ?padded = 2 * Suc ?n" using assms(2) by (auto elim: evenE)
  then have "length ?padded div 2 = Suc ?n" by simp
  moreover have "length (take ?n signature) = ?n" by simp
  ultimately have "take (length ?padded div 2) ?padded = NUL # take ?n signature"
    "drop (length ?padded div 2) ?padded = NUL # drop ?n signature"
    by simp_all
  then show ?thesis
    using assms(1,3) by (simp add: ecdsa_verify_def raw2bn_def bignum_law_def and_then_Inr_iff Let_def del: length_Cons)
qed

theorem ecdsa_padding_accepted_witness:
  "ecdsa_verify example_ssl \<lparr>es_pkey = ''k'', es_md = SHA256, es_name = ''ES256'', es_length = 64\<rparr> ''d'' ''kd'' = Inr () \<and>
   ecdsa_verify example_ssl \<lparr>es_pkey = ''k'', es_md = SHA256, es_name = ''ES256'', es_length = 64\<rparr> ''d''
     [NUL, CHR ''k'', NUL, CHR ''d''] = Inr ()"
proof -
  let ?a = "\<lparr>es_pkey = ''k'', es_md = SHA256, es_name = ''ES256'', es_length = 64\<rparr>"
  have "ecdsa_verify example_ssl ?a ''d'' ''kd'' = Inr ()" by code_simp
  moreover have "bignum_law example_ssl" using example_ssl_law by (simp add: openssl_law_def)
  ultimately show ?thesis using ecdsa_padding_accepted [of example_ssl "''kd''" ?a "''d''"] by simp
qed

text \<open>
  The result of \<open>RSA_public_decrypt\<close> is compared with 0, but a failure is -1: after a failure that leaves
  the output buffer alone, the padding check is made on a block of zeros.
\<close>

theorem pss_failed_decrypt_checked:
  assumes "generate_digest ssl (ps_md a) data = Inr hash" and "ssl_pkey_rsa ssl (ps_pkey a) = Some key"
    and "ssl_public_decrypt ssl key signature (replicate (ssl_rsa_size ssl key) NUL) =
      (-1, replicate (ssl_rsa_size ssl key) NUL)"
  shows "pss_verify ssl a data signature =
    unless (ssl_pss_verify ssl key hash (ps_md a) (replicate (ssl_rsa_size ssl key) NUL)) StdRuntimeError"
  using assms by (simp add: pss_verify_def rsa_part_def)

theorem pss_failed_decrypt_checked_witness:
  "pss_verify (example_ssl\<lparr>ssl_public_decrypt := (\<lambda>k sig buf. (-1, buf))\<rparr>)
     \<lparr>ps_pkey = ''k'', ps_md = SHA256, ps_name = ''PS256''\<rparr> [NUL, NUL, NUL, NUL] ''forged'' = Inr ()"
proof -
  let ?ssl = "example_ssl\<lparr>ssl_public_decrypt := (\<lambda>k sig buf. (-1, buf))\<rparr>"
  have "generate_digest ?ssl SHA256 [NUL, NUL, NUL, NUL] = Inr [NUL, NUL, NUL, NUL]" by code_simp
  then show ?thesis
    by (subst pss_failed_decrypt_checked [where hash = "[NUL, NUL, NUL, NUL]" and key = "''k''"])
      (simp_all add: example_ssl_def numeral_eq_Suc)
qed

end
