(* ===== verification/Json_Values.thy ===== *)
theory Json_Values
  imports Json
begin

text \<open>
  The rest of picojson (\<open>src/include/picojson/picojson.h\<close>): typed access to a value, comparison, the two
  parse contexts that build nothing, and the stream operator.  Access to a number changes the value that
  is read, also through a constant reference, so the operations return the value as it is afterwards.
  The conversion of an integer to a floating point number is a parameter.
\<close>

section \<open>Typed access\<close>

definition is_null :: "'n json \<Rightarrow> bool" where
  "is_null v \<longleftrightarrow> (case v of JNull \<Rightarrow> True | _ \<Rightarrow> False)"

definition is_bool :: "'n json \<Rightarrow> bool" where
  "is_bool v \<longleftrightarrow> (case v of JBool b \<Rightarrow> True | _ \<Rightarrow> False)"

definition is_int64 :: "'n json \<Rightarrow> bool" where
  "is_int64 v \<longleftrightarrow> (case v of JInt64 n \<Rightarrow> True | _ \<Rightarrow> False)"

definition is_string :: "'n json \<Rightarrow> bool" where
  "is_string v \<longleftrightarrow> (case v of JString s \<Rightarrow> True | _ \<Rightarrow> False)"

definition is_array :: "'n json \<Rightarrow> bool" where
  "is_array v \<longleftrightarrow> (case v of JArray vs \<Rightarrow> True | _ \<Rightarrow> False)"

definition is_object :: "'n json \<Rightarrow> bool" where
  "is_object v \<longleftrightarrow> (case v of JObject m \<Rightarrow> True | _ \<Rightarrow> False)"

definition is_double :: "'n json \<Rightarrow> bool" where
  "is_double v \<longleftrightarrow> (case v of JNumber x \<Rightarrow> True | JInt64 n \<Rightarrow> True | _ \<Rightarrow> False)"

definition get_bool :: "'n json \<Rightarrow> bool outcome" where
  "get_bool v = (case v of JBool b \<Rightarrow> Inr b | _ \<Rightarrow> Inl StdRuntimeError)"

definition get_string :: "'n json \<Rightarrow> string outcome" where
  "get_string v = (case v of JString s \<Rightarrow> Inr s | _ \<Rightarrow> Inl StdRuntimeError)"

definition get_array :: "'n json \<Rightarrow> 'n json list outcome" where
  "get_array v = (case v of JArray vs \<Rightarrow> Inr vs | _ \<Rightarrow> Inl StdRuntimeError)"

definition get_object :: "'n json \<Rightarrow> 'n json smap outcome" where
  "get_object v = (case v of JObject m \<Rightarrow> Inr m | _ \<Rightarrow> Inl StdRuntimeError)"

definition get_int64 :: "'n json \<Rightarrow> int outcome" where
  "get_int64 v = (case v of JInt64 n \<Rightarrow> Inr n | _ \<Rightarrow> Inl StdRuntimeError)"

text \<open>\<open>get<double>\<close> turns an integer into a floating point number, for good.\<close>

definition get_double :: "(int \<Rightarrow> 'n) \<Rightarrow> 'n json \<Rightarrow> ('n \<times> 'n json) outcome" where
  "get_double of_int64 v = (case v of
     JInt64 n \<Rightarrow> Inr (of_int64 n, JNumber (of_int64 n)) | JNumber x \<Rightarrow> Inr (x, JNumber x) | _ \<Rightarrow> Inl StdRuntimeError)"

definition value_of_double :: "'n floats \<Rightarrow> 'n \<Rightarrow> 'n json outcome" where
  "value_of_double fl n = (if fl_finite fl n then Inr (JNumber n) else Inl StdRuntimeError)"

section \<open>Comparison\<close>

text \<open>
  \<open>operator==\<close>, with the two values as they are afterwards.  Arrays and objects are compared as
  \<open>std::vector\<close> and \<open>std::map\<close> compare: the sizes first, then element by element up to the first
  difference.
\<close>

fun json_eq :: "(int \<Rightarrow> 'n) \<Rightarrow> 'n floats \<Rightarrow> 'n json \<Rightarrow> 'n json \<Rightarrow> bool \<times> 'n json \<times> 'n json"
  and items_eq :: "(int \<Rightarrow> 'n) \<Rightarrow> 'n floats \<Rightarrow> 'n json list \<Rightarrow> 'n json list \<Rightarrow> bool \<times> 'n json list \<times> 'n json list"
  and members_eq :: "(int \<Rightarrow> 'n) \<Rightarrow> 'n floats \<Rightarrow> (string \<times> 'n json) list \<Rightarrow> (string \<times> 'n json) list \<Rightarrow>
    bool \<times> (string \<times> 'n json) list \<times> (string \<times> 'n json) list" where
  "json_eq of_int64 fl JNull y = (is_null y, JNull, y)"
| "json_eq of_int64 fl (JBool a) y = (y = JBool a, JBool a, y)"
| "json_eq of_int64 fl (JNumber a) y = (case get_double of_int64 y of
     Inr (b, y) \<Rightarrow> (fl_equal fl a b, JNumber a, y) | Inl e \<Rightarrow> (False, JNumber a, y))"
| "json_eq of_int64 fl (JInt64 a) y = (case get_double of_int64 y of
     Inr (b, y) \<Rightarrow> (fl_equal fl (of_int64 a) b, JNumber (of_int64 a), y) | Inl e \<Rightarrow> (False, JInt64 a, y))"
| "json_eq of_int64 fl (JString s) y = (y = JString s, JString s, y)"
| "json_eq of_int64 fl (JArray xs) (JArray ys) =
     (if length xs \<noteq> length ys then (False, JArray xs, JArray ys)
      else case items_eq of_int64 fl xs ys of (b, xs, ys) \<Rightarrow> (b, JArray xs, JArray ys))"
| "json_eq of_int64 fl (JArray xs) y = (False, JArray xs, y)"
| "json_eq of_int64 fl (JObject xs) (JObject ys) =
     (if length xs \<noteq> length ys then (False, JObject xs, JObject ys)
      else case members_eq of_int64 fl xs ys of (b, xs, ys) \<Rightarrow> (b, JObject xs, JObject ys))"
| "json_eq of_int64 fl (JObject xs) y = (False, JObject xs, y)"
| "items_eq of_int64 fl (x # xs) (y # ys) = (case json_eq of_int64 fl x y of (b, x, y) \<Rightarrow>
     if \<not> b then (False, x # xs, y # ys)
     else case items_eq of_int64 fl xs ys of (b, xs, ys) \<Rightarrow> (b, x # xs, y # ys))"
| "items_eq of_int64 fl xs ys = (True, xs, ys)"
| "members_eq of_int64 fl ((k, x) # xs) ((l, y) # ys) =
     (if k \<noteq> l then (False, (k, x) # xs, (l, y) # ys)
      else case json_eq of_int64 fl x y of (b, x, y) \<Rightarrow>
        if \<not> b then (False, (k, x) # xs, (l, y) # ys)
        else case members_eq of_int64 fl xs ys of (b, xs, ys) \<Rightarrow> (b, (k, x) # xs, (l, y) # ys))"
| "members_eq of_int64 fl xs ys = (True, xs, ys)"

definition json_neq :: "(int \<Rightarrow> 'n) \<Rightarrow> 'n floats \<Rightarrow> 'n json \<Rightarrow> 'n json \<Rightarrow> bool \<times> 'n json \<times> 'n json" where
  "json_neq of_int64 fl x y = (case json_eq of_int64 fl x y of (b, x, y) \<Rightarrow> (\<not> b, x, y))"

section \<open>Contexts that build nothing\<close>

text \<open>What \<open>_parse\<close> makes of a number when the context does not store it.\<close>

definition number_accepted :: "'n floats \<Rightarrow> string \<Rightarrow> bool" where
  "number_accepted fl num_str =
     (if num_str = [] then False
      else case whole_int64 num_str of
        Some n \<Rightarrow> True
      | None \<Rightarrow> (case fl_strtod fl num_str of (f, used) \<Rightarrow> used = length num_str))"

fun null_value :: "'n floats \<Rightarrow> nat \<Rightarrow> input \<Rightarrow> (bool \<times> input) option"
  and null_items :: "'n floats \<Rightarrow> nat \<Rightarrow> input \<Rightarrow> (bool \<times> input) option"
  and null_members :: "'n floats \<Rightarrow> nat \<Rightarrow> input \<Rightarrow> (bool \<times> input) option" where
  "null_value fl 0 i = None"
| "null_value fl (Suc fuel) i = (case getc (skip_ws i) of (ch, i) \<Rightarrow>
     if ch = 110 then Some (match_text ''ull'' i)
     else if ch = 102 then Some (match_text ''alse'' i)
     else if ch = 116 then Some (match_text ''rue'' i)
     else if ch = 34 then (case parse_string [] i of (found, s, i) \<Rightarrow> Some (found, i))
     else if ch = 91 then (case expect 93 i of (found, i) \<Rightarrow> if found then Some (True, i) else null_items fl fuel i)
     else if ch = 123 then (case expect 125 i of (found, i) \<Rightarrow> if found then Some (True, i) else null_members fl fuel i)
     else if (48 \<le> ch \<and> ch \<le> 57) \<or> ch = 45 then (case parse_number [] (ungetc i) of (num_str, i) \<Rightarrow>
       Some (number_accepted fl num_str, i))
     else Some (False, ungetc i))"
| "null_items fl 0 i = None"
| "null_items fl (Suc fuel) i = (case null_value fl fuel i of
     None \<Rightarrow> None
   | Some (False, i) \<Rightarrow> Some (False, i)
   | Some (True, i) \<Rightarrow> (case expect 44 i of (more_items, i) \<Rightarrow>
       if more_items then null_items fl fuel i else Some (expect 93 i)))"
| "null_members fl 0 i = None"
| "null_members fl (Suc fuel) i =
     (case expect 34 i of (found, i) \<Rightarrow>
        if \<not> found then Some (False, i)
        else case parse_string [] i of (found, key, i) \<Rightarrow>
          if \<not> found then Some (False, i)
          else case expect 58 i of (found, i) \<Rightarrow>
            if \<not> found then Some (False, i)
            else (case null_value fl fuel i of
              None \<Rightarrow> None
            | Some (False, i) \<Rightarrow> Some (False, i)
            | Some (True, i) \<Rightarrow> (case expect 44 i of (more_items, i) \<Rightarrow>
                if more_items then null_members fl fuel i else Some (expect 125 i))))"

text \<open>\<open>deny_parse_context\<close> refuses everything, but \<open>_parse\<close> does not ask it about numbers.\<close>

definition deny_value :: "'n floats \<Rightarrow> input \<Rightarrow> bool \<times> input" where
  "deny_value fl i = (case getc (skip_ws i) of (ch, i) \<Rightarrow>
     if ch = 110 then (False, snd (match_text ''ull'' i))
     else if ch = 102 then (False, snd (match_text ''alse'' i))
     else if ch = 116 then (False, snd (match_text ''rue'' i))
     else if ch = 34 \<or> ch = 91 \<or> ch = 123 then (False, i)
     else if (48 \<le> ch \<and> ch \<le> 57) \<or> ch = 45 then (case parse_number [] (ungetc i) of (num_str, i) \<Rightarrow>
       (number_accepted fl num_str, i))
     else (False, ungetc i))"

section \<open>Streams\<close>

text \<open>\<open>operator>>\<close>: the value, whether the stream has failed, and the last error text.\<close>

definition read_stream :: "'n floats \<Rightarrow> string \<Rightarrow> ('n json option \<times> bool \<times> string) option outcome" where
  "read_stream fl is = and_then (parse_json fl is) (\<lambda>x. Inr (case x of
     None \<Rightarrow> None | Some (err, v) \<Rightarrow> Some (v, err \<noteq> [], err)))"

definition write_stream :: "'n floats \<Rightarrow> 'n json \<Rightarrow> string" where
  "write_stream fl v = serialize fl False v"

section \<open>The contexts agree\<close>

lemma number_agrees: "number_value fl num_str = Inr v \<Longrightarrow> number_accepted fl num_str \<longleftrightarrow> v \<noteq> None"
  by (auto simp: number_value_def number_accepted_def split: if_splits option.splits)

definition accepted_part :: "('n json option \<times> input) option \<Rightarrow> (bool \<times> input) option" where
  "accepted_part x = (case x of None \<Rightarrow> None | Some (v, i) \<Rightarrow> Some (v \<noteq> None, i))"

lemma accepted_part_simps [simp]:
  "accepted_part None = None" "accepted_part (Some (v, i)) = Some (v \<noteq> None, i)"
  by (simp_all add: accepted_part_def)

lemma parse_value_null:
  assumes "parse_value fl (Suc fuel) i = Inr x"
    and "\<And>i x. parse_items fl fuel [] i = Inr x \<Longrightarrow> null_items fl fuel i = accepted_part x"
    and "\<And>i x. parse_members fl fuel [] i = Inr x \<Longrightarrow> null_members fl fuel i = accepted_part x"
  shows "null_value fl (Suc fuel) i = accepted_part x"
proof -
  obtain ch i1 where ch: "getc (skip_ws i) = (ch, i1)" by force
  show ?thesis
  proof (cases "(48 \<le> ch \<and> ch \<le> 57) \<or> ch = 45")
    case True
    then show ?thesis
      using assms(1) by (auto simp: ch and_then_Inr_iff number_agrees split: prod.splits)
  next
    case False
    then show ?thesis
      using assms(1) by (auto simp: ch assms(2,3) split: prod.splits if_splits)
  qed
qed

lemma parse_items_null:
  assumes "parse_items fl (Suc fuel) vs i = Inr x"
    and "\<And>i x. parse_value fl fuel i = Inr x \<Longrightarrow> null_value fl fuel i = accepted_part x"
    and "\<And>vs i x. parse_items fl fuel vs i = Inr x \<Longrightarrow> null_items fl fuel i = accepted_part x"
  shows "null_items fl (Suc fuel) i = accepted_part x"
proof -
  obtain y where y: "parse_value fl fuel i = Inr y" using assms(1) by (auto simp: and_then_Inr_iff)
  note null = assms(2) [OF y]
  show ?thesis
  proof (cases y)
    case None
    with assms(1) null show ?thesis by (simp add: y)
  next
    case (Some vi)
    obtain v i1 where vi: "vi = (v, i1)" by force
    obtain m i2 where m: "expect 44 i1 = (m, i2)" by force
    obtain f i3 where f: "expect 93 i2 = (f, i3)" by force
    show ?thesis
      using assms(1) null Some assms(3) by (cases v; cases m) (auto simp: y vi m f)
  qed
qed

lemma parse_members_null:
  assumes "parse_members fl (Suc fuel) m i = Inr x"
    and "\<And>i x. parse_value fl fuel i = Inr x \<Longrightarrow> null_value fl fuel i = accepted_part x"
    and "\<And>m i x. parse_members fl fuel m i = Inr x \<Longrightarrow> null_members fl fuel i = accepted_part x"
  shows "null_members fl (Suc fuel) i = accepted_part x"
proof -
  obtain f1 i1 where f1: "expect 34 i = (f1, i1)" by force
  obtain f2 key i2 where f2: "parse_string [] i1 = (f2, key, i2)" by (metis surj_pair)
  obtain f3 i3 where f3: "expect 58 i2 = (f3, i3)" by force
  show ?thesis
  proof (cases "f1 \<and> f2 \<and> f3")
    case False
    with assms(1) show ?thesis by (auto simp: f1 f2 f3)
  next
    case True
    then obtain y where y: "parse_value fl fuel i3 = Inr y"
      using assms(1) by (auto simp: f1 f2 f3 and_then_Inr_iff)
    note null = assms(2) [OF y]
    show ?thesis
    proof (cases y)
      case None
      with assms(1) null True show ?thesis by (simp add: y f1 f2 f3)
    next
      case (Some vi)
      obtain v i4 where vi: "vi = (v, i4)" by force
      obtain b i5 where b: "expect 44 i4 = (b, i5)" by force
      obtain f i6 where f: "expect 125 i5 = (f, i6)" by force
      show ?thesis
        using assms(1) null Some assms(3) True by (cases v; cases b) (auto simp: y vi b f f1 f2 f3)
    qed
  qed
qed

lemma contexts_agree:
  "(\<forall>i x. parse_value fl fuel i = Inr x \<longrightarrow> null_value fl fuel i = accepted_part x) \<and>
   (\<forall>vs i x. parse_items fl fuel vs i = Inr x \<longrightarrow> null_items fl fuel i = accepted_part x) \<and>
   (\<forall>m i x. parse_members fl fuel m i = Inr x \<longrightarrow> null_members fl fuel i = accepted_part x)"
proof (induction fuel)
  case 0
  show ?case by simp
next
  case (Suc fuel)
  then have IH: "\<And>i x. parse_value fl fuel i = Inr x \<Longrightarrow> null_value fl fuel i = accepted_part x"
    "\<And>vs i x. parse_items fl fuel vs i = Inr x \<Longrightarrow> null_items fl fuel i = accepted_part x"
    "\<And>m i x. parse_members fl fuel m i = Inr x \<Longrightarrow> null_members fl fuel i = accepted_part x"
    by blast+
  show ?case
  proof (intro conjI allI impI)
    fix i x
    assume "parse_value fl (Suc fuel) i = Inr x"
    then show "null_value fl (Suc fuel) i = accepted_part x" by (rule parse_value_null) (rule IH(2,3), assumption)+
  next
    fix vs i x
    assume "parse_items fl (Suc fuel) vs i = Inr x"
    then show "null_items fl (Suc fuel) i = accepted_part x" by (rule parse_items_null) (rule IH(1,2), assumption)+
  next
    fix m i x
    assume "parse_members fl (Suc fuel) m i = Inr x"
    then show "null_members fl (Suc fuel) i = accepted_part x" by (rule parse_members_null) (rule IH(1,3), assumption)+
  qed
qed

text \<open>
  The context that stores nothing accepts the same texts as the one that builds a value, and consumes
  the same, whenever the latter does not throw (on a number too large for a \<open>double\<close>).
\<close>

theorem null_context_agrees:
  assumes "parse_value fl (json_fuel s) (new_input s) = Inr x"
  shows "null_value fl (json_fuel s) (new_input s) = accepted_part x"
  using contexts_agree assms by blast

theorem null_context_agrees_witness:
  "map_option fst (null_value no_floats (json_fuel ''[true]'') (new_input ''[true]'')) = Some True \<and>
   map_option fst (null_value no_floats (json_fuel ''[true'') (new_input ''[true'')) = Some False"
proof -
  have "\<exists>i. parse_value no_floats (json_fuel ''[true]'') (new_input ''[true]'') = Inr (Some (Some (JArray [JBool True]), i))"
    "\<exists>i. parse_value no_floats (json_fuel ''[true'') (new_input ''[true'') = Inr (Some (None, i))"
    by (rule exI, code_simp)+
  then obtain i j where
    "parse_value no_floats (json_fuel ''[true]'') (new_input ''[true]'') = Inr (Some (Some (JArray [JBool True]), i))"
    "parse_value no_floats (json_fuel ''[true'') (new_input ''[true'') = Inr (Some (None, j))" by blast
  from this [THEN null_context_agrees] show ?thesis by (simp del: null_value.simps)
qed

text \<open>
  \<open>_parse\<close> does not look at what \<open>set_int64\<close> and \<open>set_number\<close> return: the context that is to refuse
  every value accepts the numbers.
\<close>

theorem deny_context_accepts_numbers:
  assumes "getc (skip_ws i) = (ch, i1)" and "(48 \<le> ch \<and> ch \<le> 57) \<or> ch = 45"
  shows "null_value fl (Suc fuel) i = Some (deny_value fl i)"
  using assms by (auto simp: deny_value_def split: prod.splits)

theorem deny_context_accepts_numbers_witness:
  "fst (deny_value no_floats (new_input ''7'')) \<and> \<not> fst (deny_value no_floats (new_input ''true''))"
proof
  have c: "getc (skip_ws (new_input ''7'')) = (55, snd (getc (skip_ws (new_input ''7''))))"
    and n: "map_option fst (null_value no_floats (Suc 0) (new_input ''7'')) = Some True"
    by code_simp+
  have "null_value no_floats (Suc 0) (new_input ''7'') = Some (deny_value no_floats (new_input ''7''))"
    by (rule deny_context_accepts_numbers [OF c]) simp
  with n show "fst (deny_value no_floats (new_input ''7''))" by (simp del: null_value.simps)
  show "\<not> fst (deny_value no_floats (new_input ''true''))" by code_simp
qed

text \<open>
  Comparing two integers turns both into floating point numbers, and calls them equal when these are.
\<close>

theorem json_eq_loses_integers:
  assumes "of_int64 a = of_int64 b" and "fl_equal fl (of_int64 a) (of_int64 a)"
  shows "json_eq of_int64 fl (JInt64 a) (JInt64 b) = (True, JNumber (of_int64 a), JNumber (of_int64 a))"
  using assms by (simp add: get_double_def)

theorem json_eq_loses_integers_witness:
  "json_eq (\<lambda>_. ()) no_floats (JInt64 1) (JInt64 2) = (True, JNumber (), JNumber ())"
  by (rule json_eq_loses_integers) (simp_all add: no_floats_def)

end
