(* ===== verification/Jwt_Accessors.thy ===== *)
theory Jwt_Accessors
  imports Jwt Json_Values
begin

text \<open>
  The named accessors of jwt-cpp (\<open>src/include/jwt-cpp/jwt.h\<close>): the classes \<open>payload\<close>, \<open>header\<close> and
  \<open>decoded_jwt\<close>, the named setters of the builder and of the verifier, and the access to a claim as a
  number or as JSON.
\<close>

section \<open>Claims\<close>

definition claim_of_json :: "'n json \<Rightarrow> 'n json" where
  "claim_of_json val = val"

definition claim_of_list :: "string list \<Rightarrow> 'n json" where
  "claim_of_list ss = JArray (map JString ss)"

definition to_json :: "'n json \<Rightarrow> 'n json" where
  "to_json val = val"

text \<open>\<open>as_number\<close> is declared \<open>const\<close>; the claim is returned as it is afterwards.\<close>

definition as_number :: "(int \<Rightarrow> 'n) \<Rightarrow> 'n json \<Rightarrow> ('n \<times> 'n json) outcome" where
  "as_number of_int64 val = (if \<not> is_double val then Inl StdBadCast else get_double of_int64 val)"

definition read_claim :: "'n floats \<Rightarrow> string \<Rightarrow> ('n json option \<times> bool \<times> string) option outcome" where
  "read_claim fl is = read_stream fl is"

definition write_claim :: "'n floats \<Rightarrow> 'n json \<Rightarrow> string" where
  "write_claim fl c = write_stream fl (to_json c)"

section \<open>Payload and header\<close>

definition has_issuer :: "'n claims \<Rightarrow> bool" where
  "has_issuer cs = has_claim cs ''iss''"

definition has_subject :: "'n claims \<Rightarrow> bool" where
  "has_subject cs = has_claim cs ''sub''"

definition has_audience :: "'n claims \<Rightarrow> bool" where
  "has_audience cs = has_claim cs ''aud''"

definition has_expires_at :: "'n claims \<Rightarrow> bool" where
  "has_expires_at cs = has_claim cs ''exp''"

definition has_not_before :: "'n claims \<Rightarrow> bool" where
  "has_not_before cs = has_claim cs ''nbf''"

definition has_issued_at :: "'n claims \<Rightarrow> bool" where
  "has_issued_at cs = has_claim cs ''iat''"

definition has_id :: "'n claims \<Rightarrow> bool" where
  "has_id cs = has_claim cs ''jti''"

definition get_issuer :: "'n claims \<Rightarrow> string outcome" where
  "get_issuer cs = and_then (get_claim cs ''iss'') as_string"

definition get_subject :: "'n claims \<Rightarrow> string outcome" where
  "get_subject cs = and_then (get_claim cs ''sub'') as_string"

definition get_expires_at :: "'n claims \<Rightarrow> int outcome" where
  "get_expires_at cs = and_then (get_claim cs ''exp'') as_date"

definition get_not_before :: "'n claims \<Rightarrow> int outcome" where
  "get_not_before cs = and_then (get_claim cs ''nbf'') as_date"

definition get_issued_at :: "'n claims \<Rightarrow> int outcome" where
  "get_issued_at cs = and_then (get_claim cs ''iat'') as_date"

definition get_id :: "'n claims \<Rightarrow> string outcome" where
  "get_id cs = and_then (get_claim cs ''jti'') as_string"

definition has_algorithm :: "'n claims \<Rightarrow> bool" where
  "has_algorithm cs = has_claim cs ''alg''"

definition has_type :: "'n claims \<Rightarrow> bool" where
  "has_type cs = has_claim cs ''typ''"

definition has_content_type :: "'n claims \<Rightarrow> bool" where
  "has_content_type cs = has_claim cs ''cty''"

definition has_key_id :: "'n claims \<Rightarrow> bool" where
  "has_key_id cs = has_claim cs ''kid''"

definition get_algorithm :: "'n claims \<Rightarrow> string outcome" where
  "get_algorithm cs = and_then (get_claim cs ''alg'') as_string"

definition get_type :: "'n claims \<Rightarrow> string outcome" where
  "get_type cs = and_then (get_claim cs ''typ'') as_string"

definition get_content_type :: "'n claims \<Rightarrow> string outcome" where
  "get_content_type cs = and_then (get_claim cs ''cty'') as_string"

definition get_key_id :: "'n claims \<Rightarrow> string outcome" where
  "get_key_id cs = and_then (get_claim cs ''kid'') as_string"

definition has_header_claim :: "'n decoded_jwt \<Rightarrow> string \<Rightarrow> bool" where
  "has_header_claim jwt name = has_claim (dj_header_claims jwt) name"

definition get_header_claim :: "'n decoded_jwt \<Rightarrow> string \<Rightarrow> 'n json outcome" where
  "get_header_claim jwt name = get_claim (dj_header_claims jwt) name"

definition get_header_claims :: "'n decoded_jwt \<Rightarrow> 'n claims" where
  "get_header_claims jwt = dj_header_claims jwt"

definition get_payload_claims :: "'n decoded_jwt \<Rightarrow> 'n claims" where
  "get_payload_claims jwt = dj_payload_claims jwt"

section \<open>The parts of a token\<close>

definition get_token :: "'n decoded_jwt \<Rightarrow> string" where
  "get_token jwt = dj_token jwt"

definition get_header :: "'n decoded_jwt \<Rightarrow> string" where
  "get_header jwt = dj_header jwt"

definition get_payload :: "'n decoded_jwt \<Rightarrow> string" where
  "get_payload jwt = dj_payload jwt"

definition get_signature :: "'n decoded_jwt \<Rightarrow> string" where
  "get_signature jwt = dj_signature jwt"

definition get_header_base64 :: "'n decoded_jwt \<Rightarrow> string" where
  "get_header_base64 jwt = dj_header_base64 jwt"

definition get_payload_base64 :: "'n decoded_jwt \<Rightarrow> string" where
  "get_payload_base64 jwt = dj_payload_base64 jwt"

definition get_signature_base64 :: "'n decoded_jwt \<Rightarrow> string" where
  "get_signature_base64 jwt = dj_signature_base64 jwt"

section \<open>Builder and verifier\<close>

definition set_algorithm :: "string \<Rightarrow> 'n builder \<Rightarrow> 'n builder" where
  "set_algorithm str = set_header_claim ''alg'' (claim_of_string str)"

definition set_type :: "string \<Rightarrow> 'n builder \<Rightarrow> 'n builder" where
  "set_type str = set_header_claim ''typ'' (claim_of_string str)"

definition set_content_type :: "string \<Rightarrow> 'n builder \<Rightarrow> 'n builder" where
  "set_content_type str = set_header_claim ''cty'' (claim_of_string str)"

definition set_key_id :: "string \<Rightarrow> 'n builder \<Rightarrow> 'n builder" where
  "set_key_id str = set_header_claim ''kid'' (claim_of_string str)"

definition set_subject :: "string \<Rightarrow> 'n builder \<Rightarrow> 'n builder" where
  "set_subject str = set_payload_claim ''sub'' (claim_of_string str)"

definition set_audience_string :: "string \<Rightarrow> 'n builder \<Rightarrow> 'n builder" where
  "set_audience_string str = set_payload_claim ''aud'' (claim_of_string str)"

definition set_id :: "string \<Rightarrow> 'n builder \<Rightarrow> 'n builder" where
  "set_id str = set_payload_claim ''jti'' (claim_of_string str)"

definition with_subject :: "string \<Rightarrow> 'n verifier \<Rightarrow> 'n verifier" where
  "with_subject str = with_claim ''sub'' (claim_of_string str)"

definition with_audience_string :: "string \<Rightarrow> 'n verifier \<Rightarrow> 'n verifier" where
  "with_audience_string str = with_claim ''aud'' (claim_of_string str)"

definition with_id :: "string \<Rightarrow> 'n verifier \<Rightarrow> 'n verifier" where
  "with_id str = with_claim ''jti'' (claim_of_string str)"

section \<open>What is set is read back\<close>

lemma header_setters:
  assumes "smap_ok (b_header_claims b)"
  shows "get_type (b_header_claims (set_type s b)) = Inr s"
    and "get_content_type (b_header_claims (set_content_type s b)) = Inr s"
    and "get_key_id (b_header_claims (set_key_id s b)) = Inr s"
    and "get_algorithm (b_header_claims (set_algorithm s b)) = Inr s"
  using assms
  by (simp_all add: get_type_def set_type_def get_content_type_def set_content_type_def get_key_id_def set_key_id_def
      get_algorithm_def set_algorithm_def set_header_claim_def get_claim_def claim_of_string_def as_string_def)

lemma payload_setters:
  assumes "smap_ok (b_payload_claims b)"
  shows "get_issuer (b_payload_claims (set_issuer s b)) = Inr s"
    and "get_subject (b_payload_claims (set_subject s b)) = Inr s"
    and "get_id (b_payload_claims (set_id s b)) = Inr s"
    and "get_audience (b_payload_claims (set_audience_string s b)) = Inr [(s, ())]"
  using assms
  by (simp_all add: get_issuer_def set_issuer_def get_subject_def set_subject_def get_id_def set_id_def
      get_audience_def set_audience_string_def set_payload_claim_def get_claim_def claim_of_string_def as_string_def)

text \<open>
  An audience given as one text cannot be required: the verifier reads the expected audience as a
  set of texts and throws \<open>std::bad_cast\<close>.
\<close>

theorem audience_string_not_checked:
  assumes "has_claim payload ''aud''" and "get_audience payload = Inr aud"
  shows "check_audience payload (claim_of_string str) = Inl StdBadCast"
  using assms by (simp add: check_audience_def claim_of_string_def as_set_def as_array_def)

theorem audience_string_not_checked_witness:
  "check_audience [(''aud'', JString ''x'')] (claim_of_string ''x'' :: unit json) = Inl StdBadCast"
  by (rule audience_string_not_checked [where aud = "[(''x'', ())]"])
    (simp_all add: has_claim_def get_audience_def get_claim_def as_string_def smap_find_Cons)

text \<open>
  Reading a date claim as a number makes it useless as a date: \<open>as_number\<close> leaves a floating point
  number behind, and \<open>as_date\<close> of that throws \<open>std::bad_cast\<close>.
\<close>

theorem as_number_spoils_date:
  "as_number of_int64 (claim_of_date d) = Inr (of_int64 (to_time_t d), JNumber (of_int64 (to_time_t d))) \<and>
   as_date (JNumber (of_int64 (to_time_t d))) = Inl StdBadCast"
  by (simp add: as_number_def claim_of_date_def is_double_def get_double_def as_date_def as_int_def)

end
