(* ===== verification/Spec2Isabelle.thy ===== *)
theory Spec2Isabelle
  imports Main_Program Isolation Cookie_Tokens Public_Keys Jwt_Accessors
begin

text \<open>
  The Foxy-4 web server.

  The program.  \<open>src/server_main.cc\<close> reads an nginx-like configuration, sets up the user database and
  runs one server for each port: \<open>Server\<close> accepts TLS connections, \<open>HttpServer\<close> plain ones.  Each
  connection is a session, a chain of callbacks on one pending socket operation: it feeds what it
  reads to the request parser, asks the handler table for the handler of the URI, sends the
  serialised answer, counts it in the data collector and waits for the next request.  A plain session
  answers only with redirects to HTTPS.  The handlers are echo, health, 404, status, static files
  (optionally behind a login), login and sign-up, and a reverse proxy.  A login hands out a signed
  token of jwt-cpp as a cookie, which the static handler checks; jwt-cpp and the picojson parser under
  it are vendored header libraries whose code runs in the server, and they are modelled too.

  The theories, bottom up:

  \<^item> \<open>Foxy_Prelude\<close>, \<open>Cpp_Map\<close>: C++ errors as values (\<open>outcome\<close>), \<open>std::string\<close>, \<open>std::stoi\<close>, and
    \<open>std::map\<close> as a sorted association list behind the locale \<open>string_map\<close>.
  \<^item> \<open>Http_Request\<close>, \<open>Scanner\<close>, \<open>Request_Parser\<close> (\<open>request.h\<close>, \<open>utility.cc\<close>, \<open>request_parser.cc\<close>):
    the parser accepts exactly a grammar of requests, loses nothing when its input is cut, builds
    requests without control characters, and splits off the announced body.
  \<^item> \<open>Config\<close>, \<open>Codec\<close>, \<open>Config_Parser\<close> (\<open>config.cc\<close>, \<open>config_statement.cc\<close>, \<open>config_parser.cc\<close>): the
    parser builds well-formed trees and reads back what the printer prints; the getters.
  \<^item> \<open>Http_Response\<close>, \<open>Data_Collector\<close> (\<open>response_generator.cc\<close>, \<open>mime_types.cc\<close>,
    \<open>data_collector.cc\<close>): a client reads back the response that was serialised; the counters count.
  \<^item> \<open>Request_Handler\<close>, \<open>Simple_Handlers\<close>, \<open>World\<close>, \<open>Cookie\<close>, \<open>Static_Handler\<close>, \<open>Accounts\<close>,
    \<open>Login_Handler\<close>, \<open>Proxy_Handler\<close> (the handlers, \<open>cookie.cc\<close>, \<open>password.cc\<close>, \<open>database.cc\<close>): the
    locales \<open>request_handler\<close> and \<open>framing_handler\<close> say what a session relies on (a handler keeps the
    world well-formed, its headers form a map, its \<open>Content-Length\<close> is that of the body); each handler
    is an instance and has lemmas for all its branches.  \<open>World\<close> is the state they share.
  \<^item> \<open>Handler_Generator\<close> (\<open>request_handler_generator.cc\<close>): the table of handlers and the dispatch to
    the longest common path.
  \<^item> \<open>Connection\<close>, \<open>Sessions\<close>, \<open>Session_Runs\<close> (\<open>session.cc\<close>, \<open>http_session.cc\<close>): the two session
    classes as machines over completion events; invariants of every reachable state (locale
    \<open>event_machine\<close>); and that both implement the abstract server \<open>serve_all\<close> (locale \<open>session_loop\<close>).
  \<^item> \<open>Servers\<close>, \<open>Client_Runs\<close>, \<open>Isolation\<close>, \<open>Main_Program\<close> (\<open>server.cc\<close>, \<open>http_server.cc\<close>,
    \<open>server_main.cc\<close>): accepting, all sessions interleaved while the clock runs, that a new client is
    served at any time, that sessions whose handlers look at nothing but the files are not disturbed by
    the others (locale \<open>steady\<close>), and what \<open>main\<close> sets up.
  \<^item> \<open>Base64\<close>, \<open>Json\<close>, \<open>Jwt\<close>, \<open>Cookie_Tokens\<close> (\<open>jwt-cpp/base.h\<close>, \<open>picojson.h\<close>, \<open>jwt-cpp/jwt.h\<close>, and
    \<open>cookie.cc\<close> on top of them): decoding inverts encoding, the JSON parser ends and inverts the
    serialisation, a signed token is decoded and verified, and the cookies so built satisfy what
    \<open>Cookie\<close> assumes of its token library, which is thereby discharged.
  \<^item> \<open>Json_Values\<close>, \<open>Jwt_Accessors\<close>, \<open>Public_Keys\<close>: the parts of these libraries that the server does
    not call.  Typed access to JSON values and comparison, which change the values, the parse contexts
    that build nothing; the named accessors of claims; and the RSA, ECDSA and PSS algorithms around the
    calls of OpenSSL, with the proof that each accepts its own signatures.
  \<^item> This theory: the properties that need the login, the cookies and the static handler together.

  Conventions.  A character is a byte.  What throws, or is undefined in C++, is an \<open>Inl\<close> value of
  \<open>outcome\<close>; what is caught is caught in the model.  A \<open>size_t\<close> that can wrap is a 64-bit word, base64
  works on 32-bit words, a port on a 16-bit word, an \<open>int\<close> conversion out of range is \<open>StdOutOfRange\<close>.
  A callback is one atomic step; that the data collector is behind a mutex makes its calls a
  sequence, and the properties hold for every order of the steps.  The clock of the handlers counts
  seconds, that of \<open>Jwt\<close> and \<open>Cookie_Tokens\<close> nanoseconds in 64 bits.

  Bounds and fuel.  The sessions' arrays hold \<open>max_length\<close> = 1024 characters.  The count of parsed
  characters is an unbounded integer in the model and an \<open>int\<close> in the code; the properties that depend
  on it ask for less than 2^30 characters before and in the call, so that the \<open>int\<close> cannot overflow.
  Only the JSON parser has fuel: \<open>json_fuel\<close>, two for each character and two more, is
  never used up, as \<open>Json\<close> proves.  The proxy counts its five rounds as the code does, and the
  other loops end by structure or a measure.  The depth of the C++ stack is not modelled.

  Parameters.  Not under \<open>src/\<close> and therefore arguments: OpenSSL (its \<open>HMAC\<close>, and the
  record \<open>openssl\<close>), floating point conversions of the C library, bcrypt, SQLite, the network behind the proxy, the operating system
  (files, ports, memory contents, the clock), and what arrives on a socket and when.  What a property
  needs of one of them is a named law (\<open>bcrypt_law\<close>, \<open>sqlite_law\<close>, \<open>mac_total\<close>, \<open>openssl_law\<close>), with an instance that
  its witness evaluates.

  Not modelled: log messages and \<open>init_logging\<close>, the signal handler, \<open>setup_ssl\<close>, which only configures
  OpenSSL, joining threads; the copying and freeing of picojson values and of OpenSSL objects; and
  \<open>sqlite3.h\<close> and the bcrypt headers, which only declare code that is elsewhere.
\<close>

section \<open>Properties that span components\<close>

text \<open>The libraries of the server, with jwt-cpp as it is.\<close>

definition server_libs :: "'n floats \<Rightarrow> hmac \<Rightarrow> bcrypt \<Rightarrow> 'db sqlite \<Rightarrow> ('n decoded_jwt, 'db) login_libs" where
  "server_libs fl hmac bc sq = \<lparr>lib_jwt = jwt_cpp fl hmac, lib_bcrypt = bc, lib_sqlite = sq\<rparr>"

lemma server_libs_simps [simp]:
  "lib_jwt (server_libs fl hmac bc sq) = jwt_cpp fl hmac"
  "lib_bcrypt (server_libs fl hmac bc sq) = bc" "lib_sqlite (server_libs fl hmac bc sq) = sq"
  by (simp_all add: server_libs_def)

text \<open>A guarded handler and a request with a cookie, for concrete runs.\<close>

definition guarded :: static_handler where
  "guarded = example_static\<lparr>st_auth_path := ''/login/''\<rparr>"

definition with_cookie :: "string \<Rightarrow> request" where
  "with_cookie token = (get_request ''/static/a.txt'')\<lparr>req_headers := [(''Cookie'', ''jwt='' @ token)]\<rparr>"

lemma clock_ok_0: "clock_ok 0"
  by (simp add: clock_ok_def TIME_TO_LIVE_def SECOND_def)

text \<open>
  C10: A login opens the protected files for two hours.  A user of the table who posts the right
  password to the login handler gets a cookie; whoever sends it back, among other cookies, to a static
  handler with a login page is answered as by a handler without one, while the clock is between the
  second of the login and 7200 seconds later, and after that is sent to the login page.  All of it
  holds for the tokens of jwt-cpp as the library makes and checks them.
\<close>

theorem login_opens_files:
  assumes "bcrypt_law bc" and "sqlite_law sq tab" and "mac_total hmac SECRET" and "clock_ok (w_now w)"
    and "req_method login = POST" and "\<not> contains ''signup'' (req_uri login)"
    and "form_value user" and "form_value pass" and "user \<noteq> []" and "req_body login = credentials user pass"
    and "tab (w_db w) user = Some hash" and "check_password bc pass hash"
  shows "\<exists>rsp w' token. login_handle (server_libs fl hmac bc sq) lg w login = Inr (rsp, w') \<and>
    smap_find (rsp_headers rsp) ''Set-Cookie'' = Some (''jwt='' @ token @ ''; Path=/'') \<and>
    (\<forall>h later others request. st_auth_path h \<noteq> [] \<longrightarrow> list_all other_cookie others \<longrightarrow>
       smap_find (req_headers request) ''Cookie'' = Some (cookie_line others token) \<longrightarrow>
       static_handle (jwt_cpp fl hmac) h (later :: 'db world) request =
         (if w_now w \<le> w_now later \<and> w_now later \<le> w_now w + 7200
          then static_handle (jwt_cpp fl hmac) (h\<lparr>st_auth_path := []\<rparr>) later request
          else Inr (prepare_redirect h, later)))"
proof -
  let ?libs = "server_libs fl hmac bc sq" and ?token = "generate_cookie (jwt_cpp fl hmac) (w_now w) user"
  have u: "extract_username (req_body login) = user" and p: "extract_password (req_body login) = pass"
    using assms(7,8) by (simp_all only: assms(10) extract_username_credentials extract_password_credentials)
  have "bcrypt_law (lib_bcrypt ?libs)" "sqlite_law (lib_sqlite ?libs) tab" using assms(1,2) by simp_all
  from login_grants [OF this assms(5,6), of lg w] obtain rsp w'
    where "login_handle ?libs lg w login = Inr (rsp, w')"
      and "smap_find (rsp_headers rsp) ''Set-Cookie'' = Some (''jwt='' @ ?token @ ''; Path=/'')"
    using assms(9,11,12) by (auto simp: u p Let_def)
  moreover note static_gate [OF _ cookie_claims_law [OF assms(3,4)]]
  ultimately show ?thesis by blast
qed

theorem login_opens_files_witness:
  "\<exists>rsp w' token. login_handle (server_libs no_floats toy_hmac length_bcrypt map_sqlite) example_login accounts_world
       (post_request ''/login'' (credentials ''fox'' ''abc'')) = Inr (rsp, w') \<and>
     smap_find (rsp_headers rsp) ''Set-Cookie'' = Some (''jwt='' @ token @ ''; Path=/'') \<and>
     static_handle (jwt_cpp no_floats toy_hmac) guarded (accounts_world\<lparr>w_now := 7201\<rparr>) (with_cookie token) =
       Inr (prepare_redirect guarded, accounts_world\<lparr>w_now := 7201\<rparr>)"
proof -
  let ?r = "post_request ''/login'' (credentials ''fox'' ''abc'')"
  have facts: "\<not> contains ''signup'' (req_uri ?r)" "form_value ''fox''" "form_value ''abc''" "''fox'' \<noteq> []"
    "check_password length_bcrypt ''abc'' ''$3''" "w_now accounts_world = 0"
    by code_simp+
  have row: "w_db accounts_world ''fox'' = Some ''$3''" by (simp add: accounts_world_def)
  have clock: "clock_ok (w_now accounts_world)" unfolding facts(6) by (rule clock_ok_0)
  have cookie: "smap_find (req_headers (with_cookie token)) ''Cookie'' = Some (cookie_line [] token)" for token
    by (simp add: with_cookie_def cookie_line_def smap_find_Cons)
  have auth: "st_auth_path guarded \<noteq> []" by (simp add: guarded_def)
  from login_opens_files [where tab = "\<lambda>db. db" and login = ?r and lg = example_login and fl = no_floats,
      OF length_bcrypt_law map_sqlite_law toy_mac_total clock post_request_simps(1) facts(1-4)
      post_request_simps(3) row facts(5)]
  obtain rsp w' token where
    "login_handle (server_libs no_floats toy_hmac length_bcrypt map_sqlite) example_login accounts_world ?r = Inr (rsp, w')"
    "smap_find (rsp_headers rsp) ''Set-Cookie'' = Some (''jwt='' @ token @ ''; Path=/'')"
    and gate: "\<And>h later others request. st_auth_path h \<noteq> [] \<Longrightarrow> list_all other_cookie others \<Longrightarrow>
       smap_find (req_headers request) ''Cookie'' = Some (cookie_line others token) \<Longrightarrow>
       static_handle (jwt_cpp no_floats toy_hmac) h (later :: (string \<Rightarrow> string option) world) request =
         (if w_now accounts_world \<le> w_now later \<and> w_now later \<le> w_now accounts_world + 7200
          then static_handle (jwt_cpp no_floats toy_hmac) (h\<lparr>st_auth_path := []\<rparr>) later request
          else Inr (prepare_redirect h, later))" by blast
  then show ?thesis using gate [OF auth _ cookie, of "accounts_world\<lparr>w_now := 7201\<rparr>"] facts(6) by auto
qed

text \<open>
  C4: Nobody else gets at them.  If a static handler with a login page answers anything but the
  redirect to it, the cookie that the request carries has a signature that is the HMAC of its own
  header and payload under the secret of the server, whatever the request and the files are.
\<close>

theorem protected_files_need_signature:
  assumes "st_auth_path h \<noteq> []"
    and "static_handle (jwt_cpp fl hmac) h w request = Inr (rsp, w')" and "rsp \<noteq> prepare_redirect h"
  shows "\<exists>header payload signature mac.
    cookie_value (split_any cookie_separator (cookie_header request)) = header @ ''.'' @ payload @ ''.'' @ signature \<and>
    CHR ''.'' \<notin> set header \<and> CHR ''.'' \<notin> set payload \<and>
    decode_part signature = Inr mac \<and> hmac SHA256 SECRET (header @ ''.'' @ payload) = Some mac"
proof -
  have "check_cookie (jwt_cpp fl hmac) (w_now w) (cookie_header request)"
    using assms by (cases "check_cookie (jwt_cpp fl hmac) (w_now w) (cookie_header request)")
      (simp_all add: static_handle_def static_response_def)
  then have "verify_token fl hmac (w_now w * SECOND)
      (cookie_value (split_any cookie_separator (cookie_header request))) = Inr True"
    by (simp add: check_cookie_def verify_token_iff cookie_separator_def [abs_def])
  then have "verify_token fl hmac (w_now w * SECOND)
      (cookie_value (split_any cookie_separator (cookie_header request))) \<noteq> Inr False" by simp
  from accepted_cookie [OF this] show ?thesis by blast
qed

theorem protected_files_need_signature_witness:
  "\<exists>header payload signature mac.
     static_handle (jwt_cpp no_floats toy_hmac) guarded example_world (with_cookie (header @ ''.'' @ payload @ ''.'' @ signature)) =
       Inr (file_response ''text/plain'' ''hello'', example_world) \<and>
     decode_part signature = Inr mac \<and> toy_hmac SHA256 SECRET (header @ ''.'' @ payload) = Some mac"
proof -
  let ?lib = "jwt_cpp no_floats toy_hmac" and ?token = "generate_cookie (jwt_cpp no_floats toy_hmac) 0 ''fox''"
  note law = cookie_claims_law [OF toy_mac_total clock_ok_0, of no_floats "''fox''"]
  have cookie: "smap_find (req_headers (with_cookie ?token)) ''Cookie'' = Some (cookie_line [] ?token)"
    by (simp add: with_cookie_def cookie_line_def smap_find_Cons)
  have auth: "st_auth_path guarded \<noteq> []" by (simp add: guarded_def)
  have "static_handle ?lib (guarded\<lparr>st_auth_path := []\<rparr>) example_world (with_cookie ?token) =
      Inr (file_response ''text/plain'' ''hello'', example_world)"
  proof -
    have "check_request_path ''/static/a.txt'' = Some ''/static/a.txt''"
      "serve_file (guarded\<lparr>st_auth_path := []\<rparr>) example_world ''/static/a.txt'' = file_response ''text/plain'' ''hello''"
      by code_simp+
    then show ?thesis by (simp add: static_handle_def static_response_def with_cookie_def get_request_def)
  qed
  with static_gate [OF auth law _ cookie, of example_world]
  have run: "static_handle ?lib guarded example_world (with_cookie ?token) =
      Inr (file_response ''text/plain'' ''hello'', example_world)"
    by (simp add: example_world_def)
  have "file_response ''text/plain'' ''hello'' \<noteq> prepare_redirect guarded" by code_simp
  from protected_files_need_signature [OF auth run this] obtain header payload signature mac where parts:
    "cookie_value (split_any cookie_separator (cookie_header (with_cookie ?token))) = header @ ''.'' @ payload @ ''.'' @ signature"
    "decode_part signature = Inr mac" "toy_hmac SHA256 SECRET (header @ ''.'' @ payload) = Some mac"
    by (elim exE conjE) (rule that)
  have "cookie_value (split_any cookie_separator (cookie_header (with_cookie ?token))) = ?token"
    using cookie_value_line [OF _ generated_cookie_clean [OF law], of "[]"]
    by (simp add: cookie_header_def cookie)
  with parts(1) have "?token = header @ ''.'' @ payload @ ''.'' @ signature" by simp
  with run have "static_handle ?lib guarded example_world (with_cookie (header @ ''.'' @ payload @ ''.'' @ signature)) =
      Inr (file_response ''text/plain'' ''hello'', example_world)" by (simp only:)
  with parts(2,3) show ?thesis by blast
qed

end
